(* ===== verification/Prelude.thy ===== *)
theory Prelude
  imports Main "HOL-Library.Word" "HOL-Library.List_Lexorder" "HOL-Library.Char_ord"
    "HOL-Library.Multiset"
begin

text \<open>
  Shared vocabulary of the development.
  \<^item> Rust's fixed-width integers are words; \<open>saturating_add\<close>, \<open>checked_add\<close>,
    \<open>saturating_sub\<close> and \<open>saturating_mul\<close> are the methods of the same name of
    Rust's unsigned integer types.
  \<^item> \<open>usize\<close> lengths of vectors are natural numbers.
  \<^item> A Rust \<open>String\<close> is a HOL \<open>string\<close> read as its UTF-8 bytes, so \<open>length\<close>
    is Rust's \<open>len()\<close> and the order is the bytewise order of Rust's \<open>Ord\<close>.
  \<^item> A Rust \<open>Result\<close> is a sum, \<open>Inl\<close> for \<open>Err\<close> and \<open>Inr\<close> for
    \<open>Ok\<close>; \<open>try_map\<close> is \<open>iter().map(f).collect::<Result<Vec<_>, _>>()\<close>.
  \<^item> Decimal printing and parsing of integers (\<open>Display\<close>, \<open>to_string\<close>,
    \<open>parse::<u64>()\<close>) and the zero padding of format strings.
\<close>

section \<open>Definitions\<close>

type_synonym u8 = "8 word"
type_synonym u16 = "16 word"
type_synonym u32 = "32 word"
type_synonym u64 = "64 word"
type_synonym i32 = "32 word"
type_synonym i64 = "64 word"
type_synonym bytes = "8 word list"

named_theorems result_simps \<open>unfolding of result-valued helpers\<close>
named_theorems word_to_nat \<open>transfer of the unsigned integer methods to natural numbers\<close>

definition saturating_add :: "'a::len word \<Rightarrow> 'a word \<Rightarrow> 'a word" where
  "saturating_add a b = (if unat a + unat b < 2 ^ LENGTH('a) then a + b else - 1)"

definition checked_add :: "'a::len word \<Rightarrow> 'a word \<Rightarrow> 'a word option" where
  "checked_add a b = (if unat a + unat b < 2 ^ LENGTH('a) then Some (a + b) else None)"

definition saturating_sub :: "'a::len word \<Rightarrow> 'a word \<Rightarrow> 'a word" where
  "saturating_sub a b = (if b \<le> a then a - b else 0)"

definition saturating_mul :: "'a::len word \<Rightarrow> 'a word \<Rightarrow> 'a word" where
  "saturating_mul a b = (if unat a * unat b < 2 ^ LENGTH('a) then a * b else - 1)"

fun try_map :: "('a \<Rightarrow> 'e + 'b) \<Rightarrow> 'a list \<Rightarrow> 'e + 'b list" where
  "try_map f [] = Inr []"
| "try_map f (x # xs) =
     (case f x of
        Inl e \<Rightarrow> Inl e
      | Inr y \<Rightarrow> (case try_map f xs of Inl e \<Rightarrow> Inl e | Inr ys \<Rightarrow> Inr (y # ys)))"

definition is_ok :: "'e + 'a \<Rightarrow> bool" where
  "is_ok r = (case r of Inl _ \<Rightarrow> False | Inr _ \<Rightarrow> True)"

definition digit_char :: "nat \<Rightarrow> char" where
  "digit_char d = char_of (48 + d)"

definition is_digit :: "char \<Rightarrow> bool" where
  "is_digit c = (48 \<le> (of_char c :: nat) \<and> (of_char c :: nat) \<le> 57)"

definition digit_val :: "char \<Rightarrow> nat" where
  "digit_val c = of_char c - 48"

fun show_nat :: "nat \<Rightarrow> string" where
  "show_nat n = (if n < 10 then [digit_char n] else show_nat (n div 10) @ [digit_char (n mod 10)])"

declare show_nat.simps [simp del]

definition show_int :: "int \<Rightarrow> string" where
  "show_int i = (if i < 0 then CHR ''-'' # show_nat (nat (- i)) else show_nat (nat i))"

definition show_word :: "'a::len word \<Rightarrow> string" where
  "show_word w = show_nat (unat w)"

definition show_bool :: "bool \<Rightarrow> string" where
  "show_bool b = (if b then ''true'' else ''false'')"

definition pad_left :: "nat \<Rightarrow> string \<Rightarrow> string" where
  "pad_left n s = replicate (n - length s) (CHR ''0'') @ s"

definition parse_digits :: "string \<Rightarrow> nat option" where
  "parse_digits s =
     (if s = [] \<or> \<not> list_all is_digit s then None
      else Some (foldl (\<lambda>acc c. 10 * acc + digit_val c) 0 s))"

definition parse_u64 :: "string \<Rightarrow> u64 option" where
  "parse_u64 s =
     (case parse_digits (case s of [] \<Rightarrow> [] | c # cs \<Rightarrow> if c = CHR ''+'' then cs else s) of
        None \<Rightarrow> None
      | Some n \<Rightarrow> if n < 2 ^ 64 then Some (word_of_nat n) else None)"

section \<open>Saturating and checked arithmetic\<close>

lemma unat_bound_len: "unat (a :: 'a::len word) < 2 ^ LENGTH('a)"
  by (rule unsigned_less)

lemma unat_minus_one_len: "unat (- 1 :: 'a::len word) = 2 ^ LENGTH('a) - 1"
  by (simp add: unsigned_minus_1_eq_mask mask_eq_exp_minus_1)

lemma unat_saturating_add [word_to_nat]:
  "unat (saturating_add a b) = min (unat a + unat b) (2 ^ LENGTH('a) - 1)"
  for a b :: "'a::len word"
  by (auto simp: saturating_add_def unat_word_ariths unat_minus_one_len)

lemma unat_saturating_mul [word_to_nat]:
  "unat (saturating_mul a b) = min (unat a * unat b) (2 ^ LENGTH('a) - 1)"
  for a b :: "'a::len word"
  by (auto simp: saturating_mul_def unat_word_ariths unat_minus_one_len)

lemma unat_saturating_sub [word_to_nat]:
  "unat (saturating_sub a b) = unat a - unat b"
  by (auto simp: saturating_sub_def unat_sub word_le_nat_alt)

lemma checked_add_Some_iff:
  "checked_add a b = Some c \<longleftrightarrow> unat c = unat a + unat b"
  for a b :: "'a::len word"
proof
  assume "checked_add a b = Some c"
  then show "unat c = unat a + unat b"
    by (auto simp: checked_add_def unat_word_ariths split: if_splits)
next
  assume c: "unat c = unat a + unat b"
  then have "unat a + unat b < 2 ^ LENGTH('a)"
    using unat_bound_len [of c] by simp
  with c show "checked_add a b = Some c"
    by (simp add: checked_add_def word_unat_eq_iff unat_word_ariths)
qed

lemma checked_add_None_iff:
  "checked_add a b = None \<longleftrightarrow> 2 ^ LENGTH('a) \<le> unat a + unat b"
  for a b :: "'a::len word"
  by (auto simp: checked_add_def)

lemma unat_add_small [word_to_nat]:
  "unat a + unat b < 2 ^ LENGTH('a) \<Longrightarrow> unat (a + b) = unat a + unat b"
  for a b :: "'a::len word"
  by (simp add: unat_word_ariths)

lemma saturating_add_one_eq:
  "saturating_add a 1 = b \<longleftrightarrow> unat b = (if unat a < 2 ^ 64 - 1 then unat a + 1 else unat a)"
  for a b :: u64
  using unat_bound_len [of a] by (auto simp: word_unat_eq_iff word_to_nat min_def)

lemma u64_not_max: "w \<noteq> - 1 \<Longrightarrow> unat w < 2 ^ 64 - 1" for w :: u64
  using unat_bound_len [of w] by (simp add: word_unat_eq_iff unat_minus_one_len)

lemma u64_max_le: "- 1 \<le> w \<Longrightarrow> w = - 1" for w :: u64
  using unat_bound_len [of w] by (simp add: word_unat_eq_iff unat_minus_one_len word_le_nat_alt)

lemma unat_ucast_32_64 [simp]: "unat (ucast (w :: u32) :: u64) = unat w"
  using unat_bound_len [of w] by (simp add: unsigned_ucast_eq take_bit_nat_eq_self)

text \<open>Executable forms over the integers, which evaluate in binary.\<close>

lemma unat_add_lt_iff: "unat a + unat b < 2 ^ n \<longleftrightarrow> uint a + uint b < 2 ^ n"
  using of_nat_less_iff [of "unat a + unat b" "2 ^ n", where ?'a = int] by simp

lemma unat_mult_lt_iff: "unat a * unat b < 2 ^ n \<longleftrightarrow> uint a * uint b < 2 ^ n"
  using of_nat_less_iff [of "unat a * unat b" "2 ^ n", where ?'a = int] by simp

lemma saturating_add_code [code]:
  "saturating_add a b = (if uint a + uint b < 2 ^ LENGTH('a) then a + b else - 1)"
  for a b :: "'a::len word"
  by (simp add: saturating_add_def unat_add_lt_iff)

lemma checked_add_code [code]:
  "checked_add a b = (if uint a + uint b < 2 ^ LENGTH('a) then Some (a + b) else None)"
  for a b :: "'a::len word"
  by (simp add: checked_add_def unat_add_lt_iff)

lemma saturating_mul_code [code]:
  "saturating_mul a b = (if uint a * uint b < 2 ^ LENGTH('a) then a * b else - 1)"
  for a b :: "'a::len word"
  by (simp add: saturating_mul_def unat_mult_lt_iff)

lemma parse_u64_code [code]:
  "parse_u64 s =
     (case parse_digits (case s of [] \<Rightarrow> [] | c # cs \<Rightarrow> if c = CHR ''+'' then cs else s) of
        None \<Rightarrow> None
      | Some n \<Rightarrow> if int n < 2 ^ 64 then Some (word_of_nat n) else None)"
  using of_nat_less_iff [of _ "2 ^ 64", where ?'a = int]
  by (simp add: parse_u64_def split: option.split)

section \<open>Results\<close>

lemma is_ok_simps [simp]: "is_ok (Inl e) = False" "is_ok (Inr x) = True"
  by (simp_all add: is_ok_def)

lemma is_ok_iff: "is_ok r \<longleftrightarrow> (\<exists>x. r = Inr x)"
  by (cases r) auto

lemma try_map_Inr_iff:
  "try_map f xs = Inr ys \<longleftrightarrow> list_all2 (\<lambda>x y. f x = Inr y) xs ys"
proof (induction xs arbitrary: ys)
  case Nil
  then show ?case by auto
next
  case (Cons x xs)
  show ?case
    by (cases "f x"; cases "try_map f xs"; cases ys) (auto simp: Cons.IH [symmetric])
qed

lemma try_map_Inl_iff:
  "try_map f xs = Inl e \<longleftrightarrow>
     (\<exists>us x vs. xs = us @ x # vs \<and> (\<forall>u\<in>set us. is_ok (f u)) \<and> f x = Inl e)"
proof (induction xs)
  case Nil
  then show ?case by simp
next
  case (Cons a xs)
  show ?case
  proof (cases "f a")
    case (Inl e')
    then show ?thesis
      by (auto simp: Cons_eq_append_conv intro: exI [of _ "[]"])
  next
    case (Inr y)
    then have "try_map f (a # xs) = Inl e \<longleftrightarrow> try_map f xs = Inl e"
      by (auto split: sum.splits)
    with Inr show ?thesis
      by (auto simp: Cons.IH Cons_eq_append_conv) (metis is_ok_simps(2) set_ConsD)+
  qed
qed

lemma try_map_length: "try_map f xs = Inr ys \<Longrightarrow> length ys = length xs"
  by (auto simp: try_map_Inr_iff dest: list_all2_lengthD)

section \<open>Decimal text\<close>

lemma of_char_digit_char: "d < 10 \<Longrightarrow> (of_char (digit_char d) :: nat) = 48 + d"
  by (simp add: digit_char_def of_char_of)

lemma digit_char_is_digit [simp]: "d < 10 \<Longrightarrow> is_digit (digit_char d)"
  by (simp add: is_digit_def of_char_digit_char)

lemma digit_val_digit_char [simp]: "d < 10 \<Longrightarrow> digit_val (digit_char d) = d"
  by (simp add: digit_val_def of_char_digit_char)

lemma show_nat_nonempty [simp]: "show_nat n \<noteq> []"
  by (subst show_nat.simps) simp

lemma show_nat_digits [simp]: "list_all is_digit (show_nat n)"
proof (induction n rule: show_nat.induct)
  case (1 n)
  then show ?case
    by (simp add: show_nat.simps [of n])
qed

lemma foldl_show_nat: "foldl (\<lambda>acc c. 10 * acc + digit_val c) 0 (show_nat n) = n"
proof (induction n rule: show_nat.induct)
  case (1 n)
  show ?case
  proof (cases "n < 10")
    case True
    then show ?thesis by (simp add: show_nat.simps [of n])
  next
    case False
    with 1 show ?thesis by (simp add: show_nat.simps [of n])
  qed
qed

lemma parse_digits_show_nat [simp]: "parse_digits (show_nat n) = Some n"
  by (simp add: parse_digits_def foldl_show_nat)

lemma show_nat_inject [simp]: "show_nat m = show_nat n \<longleftrightarrow> m = n"
  by (metis foldl_show_nat)

lemma show_word_inject [simp]: "show_word v = show_word w \<longleftrightarrow> v = w"
  by (simp add: show_word_def word_unat_eq_iff)

lemma show_word_digits [simp]: "list_all is_digit (show_word w)"
  by (simp add: show_word_def)

lemma not_digit_notin:
  "list_all is_digit s \<Longrightarrow> \<not> is_digit c \<Longrightarrow> c \<notin> set s"
  by (auto simp: list_all_iff)

lemma separator_not_digit [simp]:
  "\<not> is_digit (CHR '':'')" "\<not> is_digit (CHR ''-'')" "\<not> is_digit (CHR ''.'')"
  "\<not> is_digit (CHR ''+'')"
  by (simp_all add: is_digit_def)

lemma parse_u64_show_word: "parse_u64 (show_word w) = Some w"
proof -
  have "hd (show_nat (unat w)) \<noteq> CHR ''+''"
    using show_nat_digits [of "unat w"] show_nat_nonempty [of "unat w"]
    by (cases "show_nat (unat w)") auto
  then have "(case show_nat (unat w) of [] \<Rightarrow> [] | c # cs \<Rightarrow> if c = CHR ''+'' then cs else show_nat (unat w))
      = show_nat (unat w)"
    by (cases "show_nat (unat w)") auto
  then show ?thesis
    using unat_bound_len [of w] by (simp add: parse_u64_def show_word_def)
qed

section \<open>Lists\<close>

lemma split_at_separator:
  "xs @ c # ys = us @ c # vs \<Longrightarrow> c \<notin> set xs \<Longrightarrow> c \<notin> set us \<Longrightarrow> xs = us \<and> ys = vs"
proof (induction xs arbitrary: us)
  case Nil
  then show ?case by (cases us) auto
next
  case (Cons x xs)
  then show ?case by (cases us) auto
qed

lemma split_at_last_separator:
  assumes "xs @ c # ys = us @ c # vs" and "c \<notin> set ys" and "c \<notin> set vs"
  shows "xs = us \<and> ys = vs"
proof -
  have "rev ys @ c # rev xs = rev vs @ c # rev us"
    using arg_cong [OF assms(1), of rev] by simp
  then show ?thesis
    using assms(2,3) split_at_separator [of "rev ys" c "rev xs" "rev vs" "rev us"] by simp
qed

lemma sum_list_update_nat:
  "k < length xs \<Longrightarrow> sum_list (xs[k := v]) + xs ! k = sum_list xs + (v :: nat)"
  by (induction xs arbitrary: k) (auto split: nat.splits)

lemma sorted_filter_nth:
  fixes f :: "'a \<Rightarrow> 'b::linorder"
  shows "sorted (map f xs) \<Longrightarrow> j < length xs \<Longrightarrow>
     f (xs ! j) \<le> e \<longleftrightarrow> j < length (filter (\<lambda>x. f x \<le> e) xs)"
proof (induction xs arbitrary: j)
  case (Cons x xs)
  show ?case
  proof (cases "f x \<le> e")
    case True
    then show ?thesis using Cons by (cases j) auto
  next
    case False
    then have none: "\<forall>y\<in>set (x # xs). \<not> f y \<le> e"
      using Cons.prems(1) by fastforce
    then have "filter (\<lambda>x. f x \<le> e) (x # xs) = []"
      by (simp add: filter_empty_conv)
    then show ?thesis
      using none Cons.prems(2) nth_mem [of j "x # xs"] by fastforce
  qed
qed simp

lemma sorted_filter_take:
  fixes f :: "'a \<Rightarrow> 'b::linorder"
  assumes "sorted (map f xs)"
  shows "filter (\<lambda>x. f x \<le> e) xs = take (length (filter (\<lambda>x. f x \<le> e) xs)) xs"
  using assms
proof (induction xs)
  case (Cons x xs)
  show ?case
  proof (cases "f x \<le> e")
    case False
    then have "filter (\<lambda>x. f x \<le> e) (x # xs) = []"
      using Cons.prems by (fastforce simp: filter_empty_conv)
    then show ?thesis by simp
  qed (use Cons in simp)
qed simp

lemma mset_drop_take: "mset (drop n xs @ take n xs @ ys) = mset (xs @ ys)"
proof -
  have "mset xs = mset (take n xs) + mset (drop n xs)"
    by (metis append_take_drop_id mset_append)
  then show ?thesis by simp
qed

lemma sorted_wrt_last_le:
  "sorted_wrt (<) xs \<Longrightarrow> (x :: 'a::order) \<in> set xs \<Longrightarrow> x \<le> last xs"
  by (induction xs) (auto split: if_splits intro: less_imp_le last_in_set)

end
