(* ===== verification/Ordered_Map.thy ===== *)
theory Ordered_Map
  imports Prelude
begin

text \<open>
  The ordered map of Rust's standard library, \<open>BTreeMap<K, V>\<close>, as the list of its entries in
  strictly increasing key order: \<open>bt_insert\<close>, \<open>bt_get\<close>, \<open>bt_remove\<close>,
  \<open>bt_pop_first\<close>, and the two range probes the acknowledgement coordinator makes,
  \<open>range(..=k).next_back()\<close> and \<open>range(k..).next()\<close>. The locale \<open>ordered_map\<close>
  states what the clients rely on (what a lookup returns after an insertion or a removal, and that
  the entries stay strictly ordered); it is interpreted on these functions, and the clients'
  lemmas about folds of insertions are proved once inside it.
\<close>

section \<open>Definitions\<close>

type_synonym ('k, 'v) btree = "('k \<times> 'v) list"

definition bt_wf :: "('k::linorder, 'v) btree \<Rightarrow> bool" where
  "bt_wf m = sorted_wrt (<) (map fst m)"

fun bt_insert :: "'k::linorder \<Rightarrow> 'v \<Rightarrow> ('k, 'v) btree \<Rightarrow> ('k, 'v) btree" where
  "bt_insert k v [] = [(k, v)]"
| "bt_insert k v (e # es) =
     (if k < fst e then (k, v) # e # es
      else if k = fst e then (k, v) # es
      else e # bt_insert k v es)"

definition bt_get :: "'k \<Rightarrow> ('k, 'v) btree \<Rightarrow> 'v option" where
  "bt_get k m = map_of m k"

definition bt_remove :: "'k \<Rightarrow> ('k, 'v) btree \<Rightarrow> ('k, 'v) btree" where
  "bt_remove k m = filter (\<lambda>e. fst e \<noteq> k) m"

definition bt_first :: "('k, 'v) btree \<Rightarrow> ('k \<times> 'v) option" where
  "bt_first m = (case m of [] \<Rightarrow> None | e # _ \<Rightarrow> Some e)"

definition bt_pop_first :: "('k, 'v) btree \<Rightarrow> ('k, 'v) btree" where
  "bt_pop_first m = (case m of [] \<Rightarrow> [] | _ # es \<Rightarrow> es)"

definition bt_last_le :: "'k::linorder \<Rightarrow> ('k, 'v) btree \<Rightarrow> ('k \<times> 'v) option" where
  "bt_last_le k m = bt_first (rev (takeWhile (\<lambda>e. fst e \<le> k) m))"

definition bt_first_ge :: "'k::linorder \<Rightarrow> ('k, 'v) btree \<Rightarrow> ('k \<times> 'v) option" where
  "bt_first_ge k m = bt_first (dropWhile (\<lambda>e. fst e < k) m)"

section \<open>The interface\<close>

locale ordered_map =
  fixes empty :: "'m"
    and ins :: "'k::linorder \<Rightarrow> 'v \<Rightarrow> 'm \<Rightarrow> 'm"
    and get :: "'k \<Rightarrow> 'm \<Rightarrow> 'v option"
    and del :: "'k \<Rightarrow> 'm \<Rightarrow> 'm"
    and entries :: "'m \<Rightarrow> ('k \<times> 'v) list"
    and wf :: "'m \<Rightarrow> bool"
  assumes get_empty: "get k empty = None"
    and get_ins: "wf m \<Longrightarrow> get j (ins k v m) = (if j = k then Some v else get j m)"
    and get_del: "wf m \<Longrightarrow> get j (del k m) = (if j = k then None else get j m)"
    and entries_get: "wf m \<Longrightarrow> (k, v) \<in> set (entries m) \<longleftrightarrow> get k m = Some v"
    and entries_sorted: "wf m \<Longrightarrow> sorted_wrt (<) (map fst (entries m))"
    and wf_empty: "wf empty"
    and wf_ins: "wf m \<Longrightarrow> wf (ins k v m)"
    and wf_del: "wf m \<Longrightarrow> wf (del k m)"
begin

lemma wf_fold_ins: "wf m \<Longrightarrow> wf (foldl (\<lambda>a (k, v). ins k v a) m kvs)"
  by (induction kvs arbitrary: m) (auto simp: wf_ins)

lemma get_fold_ins:
  "wf m \<Longrightarrow> get k (foldl (\<lambda>a (k, v). ins k v a) m kvs) =
     (case map_of (rev kvs) k of None \<Rightarrow> get k m | Some v \<Rightarrow> Some v)"
proof (induction kvs rule: rev_induct)
  case Nil
  then show ?case by simp
next
  case (snoc e kvs)
  then show ?case
    by (cases e) (simp add: get_ins wf_fold_ins)
qed

lemma entries_unique:
  assumes "wf m" "wf n" "\<And>k. get k m = get k n"
  shows "entries m = entries n"
proof -
  have ord: "sorted (map fst (entries a)) \<and> distinct (map fst (entries a))" if "wf a" for a
    using strict_sorted_iff entries_sorted [OF that] by blast
  have eq: "set (entries m) = set (entries n)"
    using assms by (auto simp: entries_get)
  have "inj_on fst (set (entries m) \<union> set (entries n))"
    using ord [OF assms(1)] by (simp add: eq [symmetric] distinct_map)
  then show ?thesis
    using ord [OF assms(1)] ord [OF assms(2)] eq map_sorted_distinct_set_unique by blast
qed

end

section \<open>The list of entries implements the interface\<close>

lemma bt_wf_Nil [simp]: "bt_wf []"
  by (simp add: bt_wf_def)

lemma bt_wf_Cons: "bt_wf (e # es) \<longleftrightarrow> bt_wf es \<and> (\<forall>x\<in>set es. fst e < fst x)"
  by (auto simp: bt_wf_def)

lemma set_bt_insert_subset: "set (bt_insert k v m) \<subseteq> insert (k, v) (set m)"
  by (induction k v m rule: bt_insert.induct) auto

lemma bt_wf_insert: "bt_wf m \<Longrightarrow> bt_wf (bt_insert k v m)"
proof (induction k v m rule: bt_insert.induct)
  case (1 k v)
  then show ?case by (simp add: bt_wf_def)
next
  case (2 k v e es)
  then show ?case
    using set_bt_insert_subset [of k v es] by (fastforce simp: bt_wf_Cons)
qed

lemma bt_wf_remove: "bt_wf m \<Longrightarrow> bt_wf (bt_remove k m)"
  unfolding bt_wf_def bt_remove_def
  by (induction m) auto

lemma bt_wf_distinct: "bt_wf m \<Longrightarrow> distinct (map fst m)"
  using strict_sorted_iff bt_wf_def by blast

lemma bt_get_insert: "bt_wf m \<Longrightarrow> bt_get j (bt_insert k v m) = (if j = k then Some v else bt_get j m)"
  by (induction k v m rule: bt_insert.induct) (auto simp: bt_get_def bt_wf_Cons)

lemma bt_get_remove: "bt_get j (bt_remove k m) = (if j = k then None else bt_get j m)"
  by (induction m) (auto simp: bt_get_def bt_remove_def)

lemma bt_get_in: "bt_wf m \<Longrightarrow> (k, v) \<in> set m \<longleftrightarrow> bt_get k m = Some v"
  by (simp add: bt_get_def bt_wf_distinct)

lemma bt_insert_twice: "bt_insert k v (bt_insert k w m) = bt_insert k v m"
  by (induction k w m rule: bt_insert.induct) auto

interpretation bt: ordered_map "[]" bt_insert bt_get bt_remove "\<lambda>m. m" bt_wf
  by unfold_locales
    (auto simp: bt_get_def [of _ "[]"] bt_get_insert bt_get_remove bt_get_in bt_wf_insert
      bt_wf_remove bt_wf_def [THEN iffD1])

lemmas bt_simps = bt_get_insert bt_get_remove bt_wf_insert bt_wf_remove

lemma bt_insert_last:
  "\<forall>e\<in>set m. fst e < k \<Longrightarrow> bt_insert k v m = m @ [(k, v)]"
  by (induction k v m rule: bt_insert.induct) auto

lemma bt_last_le_all:
  "\<forall>e\<in>set m. fst e \<le> k \<Longrightarrow> bt_last_le k m = (if m = [] then None else Some (last m))"
proof -
  assume "\<forall>e\<in>set m. fst e \<le> k"
  then have "takeWhile (\<lambda>e. fst e \<le> k) m = m" by (simp add: takeWhile_eq_all_conv)
  then show ?thesis
    by (cases m rule: rev_cases) (auto simp: bt_last_le_def bt_first_def)
qed

lemma bt_first_ge_none:
  "\<forall>e\<in>set m. fst e < k \<Longrightarrow> bt_first_ge k m = None"
  by (simp add: bt_first_ge_def bt_first_def dropWhile_eq_Nil_conv [THEN iffD2] split: list.split)

lemma bt_insert_present:
  "bt_wf (us @ (k, w) # vs) \<Longrightarrow> bt_insert k v (us @ (k, w) # vs) = us @ (k, v) # vs"
  by (induction us) (auto simp: bt_wf_Cons)

end
