(* ===== verification/Runtime_Types.thy ===== *)
theory Runtime_Types
  imports Ordered_Map
begin

text \<open>
  The data of the ingest runtime: identifiers and the runtime logical commit identity
  (\<open>identity.rs\<close>), errors (\<open>error.rs\<close>), the decoded record carrier
  (\<open>decoded_batch.rs\<close>), the sink contract's data (\<open>sink.rs\<close>) and the source-side
  data (\<open>source.rs\<close>). A message built by \<open>format!\<close> is a constructor that carries the
  formatted values; a boxed error is the value it was built from. The payload of
  \<open>Arc<dyn TypedRecords>\<close> is a type parameter \<open>'r\<close>: what \<open>as_any\<close> gives.
  The records \<open>buf_metadata\<close>, \<open>consumed_batch\<close> and \<open>batch_descriptor\<close> are the
  structs of the \<open>buffer\<close> crate, with the fields this repository reads.
\<close>

section \<open>Identifiers and the commit identity\<close>

datatype source_id = SourceId (source_name: string)

datatype sink_id = SinkId (sink_name: string)

datatype schema_version = SchemaVersion (version_number: u32)

record sequence_range =
  range_low :: u64
  range_high :: u64

definition sequence_range_new :: "u64 \<Rightarrow> u64 \<Rightarrow> sequence_range" where
  "sequence_range_new low high = \<lparr>range_low = low, range_high = high\<rparr>"

record commit_identity =
  ci_source :: source_id
  ci_sink :: sink_id
  ci_range :: sequence_range
  ci_schema_version :: schema_version

definition display_source_id :: "source_id \<Rightarrow> string" where
  "display_source_id s = source_name s"

definition display_sink_id :: "sink_id \<Rightarrow> string" where
  "display_sink_id s = sink_name s"

definition display_schema_version :: "schema_version \<Rightarrow> string" where
  "display_schema_version v = show_word (version_number v)"

definition display_sequence_range :: "sequence_range \<Rightarrow> string" where
  "display_sequence_range r = show_word (range_low r) @ ''-'' @ show_word (range_high r)"

definition display_commit_identity :: "commit_identity \<Rightarrow> string" where
  "display_commit_identity i =
     display_source_id (ci_source i) @ '':'' @ display_sink_id (ci_sink i) @ '':'' @
     display_sequence_range (ci_range i) @ '':'' @ display_schema_version (ci_schema_version i)"

section \<open>Errors\<close>

datatype ack_message =
    InvalidRange u64 u64
  | FirstRangeNotBaseline u64 u64
  | NonContiguousAdmission source_id u64 u64 u64
  | AlreadyCovered u64 u64 source_id
  | OverlapsPending u64 u64 u64 u64
  | OverlapsPendingStarting u64 u64 u64
  | NoPendingRange u64 source_id
  | RangeDisagrees u64 u64 u64 source_id
  | CoordinatorExists source_id
  | NoCoordinator source_id

datatype config_message =
    NoSourceConfigured
  | NoDecoderConfigured
  | NoSinkConfigured
  | ReservationTooLarge source_id u64 u64
  | ZeroMaxInflightBatches source_id
  | ZeroFetchConcurrency source_id
  | ZeroDecodeConcurrency source_id

datatype pipeline_message =
    HardAbort source_id
  | WorkerExited u64 source_id
  | DescriptorLost source_id u64
  | FetchedBatchLost source_id u64
  | SinkCommitLost source_id u64
  | RangeMismatch u64 u64 u64
  | OversizeBatch u64 u64 u64 u64 u64 u32
  | HardAbortDuringWrite
  | HardAbortDuringSleep
  | HardAbortDuringCheck
  | FetchWorkerPanicked
  | DecodeWorkerPanicked
  | WriterWorkerPanicked

datatype decoder_message =
    MetadataRejected
  | EmptyDecodedBatches
  | NotOneDecodedBatch nat
  | DecoderFailed string

datatype runtime_error =
    ErrSource string
  | ErrDecoder decoder_message
  | ErrSink string
  | ErrIdempotency string
  | ErrAck ack_message
  | ErrConfig config_message
  | ErrUnsupported string
  | ErrPipeline pipeline_message

section \<open>Decoded batches\<close>

record typed_schema =
  schema_name :: string
  schema_ver :: schema_version

record 'r typed_records =
  tr_as_any :: 'r
  tr_record_count :: nat
  tr_estimated_bytes :: nat
  tr_schema :: typed_schema

datatype 'r decoded_records = Typed "'r typed_records"

record source_coordinate_columns =
  sc_manifest_path :: string
  sc_data_path :: string
  sc_sequences :: "u64 list"
  sc_entry_indices :: "u32 list"
  sc_record_indices :: "u32 list"
  sc_ingestion_time_ms :: "i64 list"

record batch_stats =
  source_byte_count :: u64
  decoded_byte_estimate :: u64

record 'r decoded_batch =
  db_source :: source_id
  db_low_sequence :: u64
  db_high_sequence :: u64
  db_source_entry_count :: u32
  db_records :: "'r decoded_records"
  db_source_columns :: source_coordinate_columns
  db_stats :: batch_stats
  db_schema_version :: schema_version

section \<open>The sink contract's data\<close>

record sink_budget =
  max_bytes_inflight :: u64
  sb_max_concurrent_commits :: u32

record 'r sink_commit =
  sc_identity :: commit_identity
  sc_batch :: "'r decoded_batch"

record sink_commit_result =
  bytes_written :: u64
  rows_written :: u64

datatype sink_commit_failure = NotCommitted string | MaybeCommitted string | Fatal string

definition display_sink_commit_failure :: "sink_commit_failure \<Rightarrow> string" where
  "display_sink_commit_failure f =
     (case f of
        NotCommitted e \<Rightarrow> ''sink not committed: '' @ e
      | MaybeCommitted e \<Rightarrow> ''sink maybe committed: '' @ e
      | Fatal e \<Rightarrow> ''sink fatal: '' @ e)"

datatype commit_status = StatusCommitted | StatusNotCommitted | StatusUnknown

section \<open>Source-side data\<close>

record buf_metadata =
  start_index :: u32
  bm_ingestion_time_ms :: i64
  bm_payload :: bytes

record consumed_batch =
  cb_entries :: "bytes list"
  cb_sequence :: u64
  cb_location :: string
  cb_metadata :: "buf_metadata list"

record batch_descriptor =
  bd_sequence :: u64
  bd_location :: string
  bd_metadata :: "buf_metadata list"

record source_range_metadata =
  rm_raw_metadata :: bytes
  rm_ingestion_time_ms :: i64

record source_batch_descriptor =
  sd_source :: source_id
  sd_sequence :: u64
  sd_location :: string
  sd_per_range_metadata :: "source_range_metadata list"
  sd_buffer_metadata :: "buf_metadata list"

record source_entry =
  entry_index :: u32
  raw_bytes :: bytes
  raw_metadata :: bytes
  se_ingestion_time_ms :: i64

record source_batch =
  sb_source :: source_id
  sb_sequence :: u64
  sb_manifest_path :: string
  sb_data_object_path :: string
  sb_entries :: "source_entry list"

section \<open>Source identifiers are linearly ordered\<close>

instantiation source_id :: linorder
begin

definition less_eq_source_id :: "source_id \<Rightarrow> source_id \<Rightarrow> bool" where
  "less_eq_source_id a b = (source_name a \<le> source_name b)"

definition less_source_id :: "source_id \<Rightarrow> source_id \<Rightarrow> bool" where
  "less_source_id a b = (source_name a < source_name b)"

instance
  by standard (auto simp: less_eq_source_id_def less_source_id_def source_id.expand)

end

section \<open>The commit identity's text determines it\<close>

lemma colon_notin_version [simp]: "CHR '':'' \<notin> set (display_schema_version v)"
  by (simp add: display_schema_version_def not_digit_notin)

lemma colon_notin_range [simp]: "CHR '':'' \<notin> set (display_sequence_range r)"
  using not_digit_notin [OF show_word_digits separator_not_digit(1)]
  by (auto simp: display_sequence_range_def)

lemma display_sequence_range_inject:
  "display_sequence_range r = display_sequence_range r' \<Longrightarrow> r = r'"
  unfolding display_sequence_range_def
  using split_at_separator [of "show_word (range_low r)" "CHR ''-''" "show_word (range_high r)"
      "show_word (range_low r')" "show_word (range_high r')"]
    not_digit_notin [OF show_word_digits separator_not_digit(2)]
  by (auto intro!: sequence_range.equality)

lemma display_schema_version_inject:
  "display_schema_version v = display_schema_version v' \<Longrightarrow> v = v'"
  by (auto simp: display_schema_version_def schema_version.expand)

text \<open>
  The canonical text \<open>{source}:{sink}:{low}-{high}:{schema_version}\<close> that the runtime
  prints for a commit identity determines the identity: two identities whose sink names contain no
  colon and that print the same are equal, whatever their source names contain.
\<close>

theorem display_commit_identity_inject:
  assumes same: "display_commit_identity i = display_commit_identity j"
    and sinks: "CHR '':'' \<notin> set (sink_name (ci_sink i))" "CHR '':'' \<notin> set (sink_name (ci_sink j))"
  shows "i = j"
proof -
  let ?front = "\<lambda>k. source_name (ci_source k) @ CHR '':'' # sink_name (ci_sink k)"
  have outer: "(?front k @ CHR '':'' # display_sequence_range (ci_range k)) @
      CHR '':'' # display_schema_version (ci_schema_version k) = display_commit_identity k" for k
    by (simp add: display_commit_identity_def display_source_id_def display_sink_id_def)
  have ver: "?front i @ CHR '':'' # display_sequence_range (ci_range i) =
        ?front j @ CHR '':'' # display_sequence_range (ci_range j)
      \<and> display_schema_version (ci_schema_version i) = display_schema_version (ci_schema_version j)"
    using split_at_last_separator outer same colon_notin_version by metis
  have rng: "?front i = ?front j
      \<and> display_sequence_range (ci_range i) = display_sequence_range (ci_range j)"
    using split_at_last_separator ver colon_notin_range by metis
  have "source_name (ci_source i) = source_name (ci_source j)
      \<and> sink_name (ci_sink i) = sink_name (ci_sink j)"
    using split_at_last_separator rng sinks by metis
  then show ?thesis
    using ver rng
    by (auto intro!: commit_identity.equality source_id.expand sink_id.expand
        display_sequence_range_inject display_schema_version_inject)
qed

theorem display_commit_identity_inject_witness:
  "\<lparr>ci_source = SourceId ''a:b'', ci_sink = SinkId ''clickhouse_logs'',
     ci_range = sequence_range_new 3 3, ci_schema_version = SchemaVersion 1\<rparr> =
   (\<lparr>ci_source = SourceId ''a:b'', ci_sink = SinkId ''clickhouse_logs'',
     ci_range = sequence_range_new 3 3, ci_schema_version = SchemaVersion 1\<rparr> :: commit_identity)"
  by (rule display_commit_identity_inject) simp_all

end
