(* ===== verification/Ack_Coordinator.thy ===== *)
theory Ack_Coordinator
  imports Runtime_Types
begin

text \<open>
  The per-source acknowledgement coordinator (\<open>ack_coordinator.rs\<close>). \<open>ack_coordinator\<close> is
  the struct with every field; \<open>register_pending\<close>, \<open>mark_committed\<close> and
  \<open>advance_frontier\<close> are its three mutating methods, with the checks of the source in the
  order of the source; \<open>acks_register_source\<close>, \<open>acks_get\<close>, \<open>acks_take\<close>,
  \<open>acks_frontiers\<close> and \<open>acks_pending_total\<close> are the registry's. A \<open>HashMap\<close>
  is kept as its entries in key order; nothing here depends on the iteration order.

  The invariant \<open>coord_inv\<close> says that the pending ranges form a gap-free chain from the first
  unacknowledged sequence to the last admitted one. The abstract specification \<open>ack_spec\<close> knows
  only the first sequence, the next one to admit and the set of committed sequences; the coordinator
  refines it, and its frontier is exactly the longest committed prefix.
\<close>

section \<open>Definitions\<close>

record pending_range =
  pr_low :: u64
  pr_high :: u64
  sink_committed :: bool

record ack_coordinator =
  ac_source :: source_id
  initial_frontier_baseline :: "u64 option"
  effective_baseline :: "u64 option"
  baseline_fixed :: bool
  acked_frontier :: "u64 option"
  last_registered_high :: "u64 option"
  pending :: "(u64, pending_range) btree"

definition ack_new :: "source_id \<Rightarrow> u64 option \<Rightarrow> ack_coordinator" where
  "ack_new source baseline =
     \<lparr>ac_source = source,
      initial_frontier_baseline = baseline,
      effective_baseline = baseline,
      baseline_fixed = (baseline \<noteq> None),
      acked_frontier = None,
      last_registered_high = None,
      pending = []\<rparr>"

definition frontier :: "ack_coordinator \<Rightarrow> u64 option" where
  "frontier c = acked_frontier c"

definition pending_count :: "ack_coordinator \<Rightarrow> nat" where
  "pending_count c = length (pending c)"

definition check_order :: "u64 \<Rightarrow> u64 \<Rightarrow> ack_message option" where
  "check_order low high = (if high < low then Some (InvalidRange low high) else None)"

definition check_baseline :: "ack_coordinator \<Rightarrow> u64 \<Rightarrow> ack_message option" where
  "check_baseline c low =
     (case (last_registered_high c, initial_frontier_baseline c) of
        (None, Some b) \<Rightarrow>
          if low \<noteq> saturating_add b 1
          then Some (FirstRangeNotBaseline low (saturating_add b 1)) else None
      | _ \<Rightarrow> None)"

definition check_contiguous :: "ack_coordinator \<Rightarrow> u64 \<Rightarrow> ack_message option" where
  "check_contiguous c low =
     (case last_registered_high c of
        None \<Rightarrow> None
      | Some prev_high \<Rightarrow>
          if low \<noteq> saturating_add prev_high 1
          then Some (NonContiguousAdmission (ac_source c) prev_high (saturating_add prev_high 1) low)
          else None)"

definition check_frontier :: "ack_coordinator \<Rightarrow> u64 \<Rightarrow> ack_message option" where
  "check_frontier c low =
     (case acked_frontier c of
        None \<Rightarrow> None
      | Some f \<Rightarrow> if low \<le> f then Some (AlreadyCovered low f (ac_source c)) else None)"

definition check_below :: "ack_coordinator \<Rightarrow> u64 \<Rightarrow> u64 \<Rightarrow> ack_message option" where
  "check_below c low high =
     (case bt_last_le high (pending c) of
        None \<Rightarrow> None
      | Some (_, n) \<Rightarrow>
          if low \<le> pr_high n then Some (OverlapsPending low high (pr_low n) (pr_high n)) else None)"

definition check_above :: "ack_coordinator \<Rightarrow> u64 \<Rightarrow> u64 \<Rightarrow> ack_message option" where
  "check_above c low high =
     (case bt_first_ge low (pending c) of
        None \<Rightarrow> None
      | Some (next_low, _) \<Rightarrow>
          if next_low \<le> high then Some (OverlapsPendingStarting low high next_low) else None)"

fun first_failure :: "ack_message option list \<Rightarrow> ack_message option" where
  "first_failure [] = None"
| "first_failure (None # ms) = first_failure ms"
| "first_failure (Some m # ms) = Some m"

definition register_checks :: "ack_coordinator \<Rightarrow> u64 \<Rightarrow> u64 \<Rightarrow> ack_message option" where
  "register_checks c low high =
     first_failure
       [check_order low high, check_baseline c low, check_contiguous c low,
        check_frontier c low, check_below c low high, check_above c low high]"

definition absorb_baseline :: "u64 \<Rightarrow> ack_coordinator \<Rightarrow> ack_coordinator" where
  "absorb_baseline low c =
     (if baseline_fixed c then c
      else c\<lparr>effective_baseline := (if low = 0 then None else Some (low - 1)),
             baseline_fixed := True\<rparr>)"

definition register_pending ::
  "ack_coordinator \<Rightarrow> u64 \<Rightarrow> u64 \<Rightarrow> runtime_error + ack_coordinator" where
  "register_pending c low high =
     (case register_checks c low high of
        Some m \<Rightarrow> Inl (ErrAck m)
      | None \<Rightarrow>
          Inr ((absorb_baseline low c)
            \<lparr>pending := bt_insert low \<lparr>pr_low = low, pr_high = high, sink_committed = False\<rparr>
                          (pending c),
             last_registered_high := Some high\<rparr>))"

definition mark_committed ::
  "ack_coordinator \<Rightarrow> u64 \<Rightarrow> u64 \<Rightarrow> runtime_error + ack_coordinator" where
  "mark_committed c low high =
     (case bt_get low (pending c) of
        None \<Rightarrow> Inl (ErrAck (NoPendingRange low (ac_source c)))
      | Some entry \<Rightarrow>
          if pr_high entry \<noteq> high
          then Inl (ErrAck (RangeDisagrees low high (pr_high entry) (ac_source c)))
          else Inr (c\<lparr>pending := bt_insert low (entry\<lparr>sink_committed := True\<rparr>) (pending c)\<rparr>))"

definition expected_low :: "ack_coordinator \<Rightarrow> u64" where
  "expected_low c =
     (case acked_frontier c of
        Some f \<Rightarrow> saturating_add f 1
      | None \<Rightarrow> (case effective_baseline c of Some b \<Rightarrow> saturating_add b 1 | None \<Rightarrow> 0))"

function advance_loop :: "ack_coordinator \<Rightarrow> ack_coordinator" where
  "advance_loop c =
     (case pending c of
        [] \<Rightarrow> c
      | (_, r) # rest \<Rightarrow>
          if \<not> sink_committed r then c
          else if pr_low r \<noteq> expected_low c then c
          else advance_loop (c\<lparr>pending := rest, acked_frontier := Some (pr_high r)\<rparr>))"
  by pat_completeness auto
termination
  by (relation "measure (\<lambda>c. length (pending c))") auto

declare advance_loop.simps [simp del]

definition advance_frontier :: "ack_coordinator \<Rightarrow> ack_coordinator" where
  "advance_frontier c = (if \<not> baseline_fixed c then c else advance_loop c)"

type_synonym ack_coordinators = "(source_id, ack_coordinator) btree"

definition acks_new :: ack_coordinators where
  "acks_new = []"

definition acks_register_source ::
  "ack_coordinators \<Rightarrow> source_id \<Rightarrow> u64 option \<Rightarrow> runtime_error + ack_coordinators" where
  "acks_register_source r source baseline =
     (if bt_get source r \<noteq> None then Inl (ErrAck (CoordinatorExists source))
      else Inr (bt_insert source (ack_new source baseline) r))"

definition acks_get :: "ack_coordinators \<Rightarrow> source_id \<Rightarrow> ack_coordinator option" where
  "acks_get r source = bt_get source r"

definition acks_set :: "ack_coordinators \<Rightarrow> source_id \<Rightarrow> ack_coordinator \<Rightarrow> ack_coordinators" where
  "acks_set r source c = bt_insert source c r"

definition acks_take :: "ack_coordinators \<Rightarrow> source_id \<Rightarrow> ack_coordinator option \<times> ack_coordinators" where
  "acks_take r source = (bt_get source r, bt_remove source r)"

definition acks_frontiers :: "ack_coordinators \<Rightarrow> (source_id \<times> u64 option) list" where
  "acks_frontiers r = map (\<lambda>(s, c). (s, frontier c)) r"

definition acks_pending_total :: "ack_coordinators \<Rightarrow> nat" where
  "acks_pending_total r = sum_list (map (\<lambda>(s, c). pending_count c) r)"

text \<open>Ghost notions: sequences as natural numbers, so that the successor of the last one exists.\<close>

fun chain :: "nat \<Rightarrow> pending_range list \<Rightarrow> nat \<Rightarrow> bool" where
  "chain n [] m = (n = m)"
| "chain n (r # rs) m =
     (unat (pr_low r) = n \<and> n \<le> unat (pr_high r) \<and> chain (Suc (unat (pr_high r))) rs m)"

definition start_seq :: "ack_coordinator \<Rightarrow> nat" where
  "start_seq c = (case effective_baseline c of Some b \<Rightarrow> Suc (unat b) | None \<Rightarrow> 0)"

definition next_seq :: "ack_coordinator \<Rightarrow> nat" where
  "next_seq c = (case acked_frontier c of Some f \<Rightarrow> Suc (unat f) | None \<Rightarrow> start_seq c)"

definition admitted_end :: "ack_coordinator \<Rightarrow> nat" where
  "admitted_end c = (case last_registered_high c of Some h \<Rightarrow> Suc (unat h) | None \<Rightarrow> start_seq c)"

definition range_set :: "pending_range \<Rightarrow> nat set" where
  "range_set r = {unat (pr_low r)..unat (pr_high r)}"

definition committed_seqs :: "ack_coordinator \<Rightarrow> nat set" where
  "committed_seqs c =
     {start_seq c..<next_seq c} \<union>
     (\<Union>r\<in>set (map snd (pending c)). if sink_committed r then range_set r else {})"

definition keys_are_lows :: "(u64, pending_range) btree \<Rightarrow> bool" where
  "keys_are_lows m = list_all (\<lambda>(k, r). pr_low r = k) m"

definition coord_inv :: "ack_coordinator \<Rightarrow> bool" where
  "coord_inv c =
     (keys_are_lows (pending c) \<and>
      effective_baseline c \<noteq> Some (- 1) \<and>
      (case initial_frontier_baseline c of
         Some b \<Rightarrow> effective_baseline c = Some b \<and> baseline_fixed c
       | None \<Rightarrow> baseline_fixed c = (last_registered_high c \<noteq> None)) \<and>
      (\<not> baseline_fixed c \<longrightarrow> effective_baseline c = None) \<and>
      (last_registered_high c = None \<longrightarrow> acked_frontier c = None) \<and>
      (\<forall>f. acked_frontier c = Some f \<longrightarrow> start_seq c \<le> unat f) \<and>
      (\<forall>h. last_registered_high c = Some h \<longrightarrow> start_seq c \<le> unat h) \<and>
      chain (next_seq c) (map snd (pending c)) (admitted_end c))"

text \<open>The abstract specification.\<close>

record ack_spec =
  sp_start :: "nat option"
  sp_next :: nat
  sp_committed :: "nat set"

definition spec_new :: "u64 option \<Rightarrow> ack_spec" where
  "spec_new b =
     \<lparr>sp_start = map_option (\<lambda>b. Suc (unat b)) b,
      sp_next = (case b of Some b \<Rightarrow> Suc (unat b) | None \<Rightarrow> 0), sp_committed = {}\<rparr>"

definition spec_register :: "nat \<Rightarrow> nat \<Rightarrow> ack_spec \<Rightarrow> ack_spec" where
  "spec_register low high s =
     s\<lparr>sp_start := (case sp_start s of None \<Rightarrow> Some low | Some n \<Rightarrow> Some n), sp_next := Suc high\<rparr>"

definition spec_commit :: "nat \<Rightarrow> nat \<Rightarrow> ack_spec \<Rightarrow> ack_spec" where
  "spec_commit low high s = s\<lparr>sp_committed := sp_committed s \<union> {low..high}\<rparr>"

definition coord_abs :: "ack_coordinator \<Rightarrow> ack_spec" where
  "coord_abs c =
     \<lparr>sp_start = (if baseline_fixed c then Some (start_seq c) else None),
      sp_next = admitted_end c, sp_committed = committed_seqs c\<rparr>"

text \<open>Runs: the runtime registers ranges and pairs every commit with an advance.\<close>

datatype ack_event = EvRegister u64 u64 | EvCommit u64 u64

fun ack_apply :: "ack_coordinator \<Rightarrow> ack_event \<Rightarrow> runtime_error + ack_coordinator" where
  "ack_apply c (EvRegister low high) = register_pending c low high"
| "ack_apply c (EvCommit low high) =
     (case mark_committed c low high of Inl e \<Rightarrow> Inl e | Inr c' \<Rightarrow> Inr (advance_frontier c'))"

fun ack_run :: "ack_coordinator \<Rightarrow> ack_event list \<Rightarrow> runtime_error + ack_coordinator" where
  "ack_run c [] = Inr c"
| "ack_run c (e # es) = (case ack_apply c e of Inl x \<Rightarrow> Inl x | Inr c' \<Rightarrow> ack_run c' es)"

fun spec_apply :: "ack_event \<Rightarrow> ack_spec \<Rightarrow> ack_spec" where
  "spec_apply (EvRegister low high) = spec_register (unat low) (unat high)"
| "spec_apply (EvCommit low high) = spec_commit (unat low) (unat high)"

definition committed_in :: "ack_event list \<Rightarrow> nat set" where
  "committed_in es = {n. \<exists>low high. EvCommit low high \<in> set es \<and> unat low \<le> n \<and> n \<le> unat high}"

definition outstanding :: "ack_coordinator \<Rightarrow> (u64 \<times> u64) set" where
  "outstanding c = {(pr_low r, pr_high r) | r. r \<in> set (map snd (pending c)) \<and> \<not> sink_committed r}"

definition settled :: "ack_coordinator \<Rightarrow> bool" where
  "settled c = (case pending c of [] \<Rightarrow> True | (_, r) # _ \<Rightarrow> \<not> sink_committed r)"

definition seq_below :: "u64 option \<Rightarrow> u64 option \<Rightarrow> bool" where
  "seq_below f g = (case f of None \<Rightarrow> True | Some a \<Rightarrow> (case g of None \<Rightarrow> False | Some b \<Rightarrow> a \<le> b))"

fun first_seq :: "u64 option \<Rightarrow> ack_event list \<Rightarrow> nat" where
  "first_seq (Some b) es = Suc (unat b)"
| "first_seq None [] = 0"
| "first_seq None (EvRegister low high # es) = unat low"
| "first_seq None (EvCommit low high # es) = first_seq None es"

fun commit_all :: "('s \<Rightarrow> 'r \<Rightarrow> 'e + 's) \<Rightarrow> 's \<Rightarrow> 'r list \<Rightarrow> 'e + 's" where
  "commit_all com c [] = Inr c"
| "commit_all com c (r # rs) = (case com c r of Inl e \<Rightarrow> Inl e | Inr c' \<Rightarrow> commit_all com c' rs)"

definition ack_commit :: "ack_coordinator \<Rightarrow> u64 \<times> u64 \<Rightarrow> runtime_error + ack_coordinator" where
  "ack_commit c r = ack_apply c (EvCommit (fst r) (snd r))"

section \<open>Chains of ranges\<close>

lemma chain_le: "chain n rs m \<Longrightarrow> n \<le> m"
  by (induction n rs m rule: chain.induct) auto

lemma chain_append: "chain n (xs @ ys) m \<longleftrightarrow> (\<exists>k. chain n xs k \<and> chain k ys m)"
  by (induction xs arbitrary: n) auto

lemma chain_self: "chain n rs n \<Longrightarrow> rs = []"
  by (cases rs) (auto dest: chain_le)

lemma chain_member:
  "chain n rs m \<Longrightarrow> r \<in> set rs \<Longrightarrow>
     n \<le> unat (pr_low r) \<and> unat (pr_low r) \<le> unat (pr_high r) \<and> unat (pr_high r) < m"
  by (induction n rs m rule: chain.induct) (auto dest: chain_le)

lemma chain_last: "chain n rs m \<Longrightarrow> rs \<noteq> [] \<Longrightarrow> Suc (unat (pr_high (last rs))) = m"
  by (induction n rs m rule: chain.induct) (auto split: if_splits)

lemma chain_lows_sorted: "chain n rs m \<Longrightarrow> sorted_wrt (<) (map pr_low rs)"
proof (induction n rs m rule: chain.induct)
  case (1 n m)
  then show ?case by simp
next
  case (2 n r rs m)
  have "pr_low r < pr_low x" if "x \<in> set rs" for x
    using 2 that chain_member [of "Suc (unat (pr_high r))" rs m x]
    by (auto simp: word_less_nat_alt)
  with 2 show ?case by simp
qed

lemma chain_update:
  "chain n (us @ r # vs) m \<Longrightarrow> pr_low r' = pr_low r \<Longrightarrow> pr_high r' = pr_high r \<Longrightarrow>
     chain n (us @ r' # vs) m"
  by (auto simp: chain_append)

lemma keys_are_lows_map: "keys_are_lows m \<longleftrightarrow> map fst m = map pr_low (map snd m)"
  by (induction m) (auto simp: keys_are_lows_def)

lemma chain_bt_wf: "keys_are_lows m \<Longrightarrow> chain n (map snd m) k \<Longrightarrow> bt_wf m"
  by (metis bt_wf_def chain_lows_sorted keys_are_lows_map)

lemma key_is_low: "keys_are_lows m \<Longrightarrow> (k, r) \<in> set m \<Longrightarrow> pr_low r = k"
  by (auto simp: keys_are_lows_def list_all_iff)

lemma pending_member:
  assumes "keys_are_lows m" "chain n (map snd m) k" "e \<in> set m"
  shows "n \<le> unat (fst e) \<and> unat (fst e) \<le> unat (pr_high (snd e)) \<and> unat (pr_high (snd e)) < k"
  using assms chain_member [of n "map snd m" k "snd e"] key_is_low [of m "fst e" "snd e"] by auto

section \<open>The invariant\<close>

lemma coord_invD:
  assumes "coord_inv c"
  shows "keys_are_lows (pending c)" "chain (next_seq c) (map snd (pending c)) (admitted_end c)"
    "bt_wf (pending c)" "next_seq c \<le> admitted_end c" "start_seq c \<le> next_seq c"
    "last_registered_high c = None \<Longrightarrow> acked_frontier c = None"
proof -
  show "start_seq c \<le> next_seq c"
    using assms by (auto simp: coord_inv_def next_seq_def le_SucI split: option.splits)
qed (use assms chain_bt_wf chain_le in \<open>unfold coord_inv_def, blast+\<close>)

lemma coord_inv_fresh:
  assumes "coord_inv c" "last_registered_high c = None"
  shows "pending c = []" "acked_frontier c = None"
proof -
  show a: "acked_frontier c = None"
    using assms by (simp add: coord_inv_def)
  have "chain (start_seq c) (map snd (pending c)) (start_seq c)"
    using coord_invD(2) [OF assms(1)] assms(2) a by (simp add: next_seq_def admitted_end_def)
  then show "pending c = []"
    using chain_self by blast
qed

lemma coord_inv_new: "b \<noteq> Some (- 1) \<Longrightarrow> coord_inv (ack_new s b)"
  by (auto simp: coord_inv_def ack_new_def keys_are_lows_def next_seq_def admitted_end_def
      start_seq_def split: option.splits)

lemma first_failure_None: "first_failure ms = None \<longleftrightarrow> (\<forall>m\<in>set ms. m = None)"
  by (induction ms rule: first_failure.induct) auto

lemma register_checks_None:
  "register_checks c low high = None \<longleftrightarrow>
     check_order low high = None \<and> check_baseline c low = None \<and> check_contiguous c low = None \<and>
     check_frontier c low = None \<and> check_below c low high = None \<and> check_above c low high = None"
  by (simp add: register_checks_def first_failure_None)

lemma checks_pass_beyond:
  assumes inv: "coord_inv c" and le: "low \<le> high" and low: "unat low = admitted_end c"
  shows "check_frontier c low = None" "check_below c low high = None" "check_above c low high = None"
proof -
  have below: "fst e < low \<and> pr_high (snd e) < low" if "e \<in> set (pending c)" for e
    using pending_member [OF coord_invD(1,2) [OF inv] that] low by (auto simp: word_less_nat_alt)
  show "check_frontier c low = None"
    using coord_invD(4) [OF inv] low
    by (auto simp: check_frontier_def next_seq_def word_le_nat_alt split: option.splits)
  have "\<forall>e\<in>set (pending c). fst e \<le> high"
    using below le by fastforce
  then show "check_below c low high = None"
    using below [of "last (pending c)"] last_in_set [of "pending c"]
    by (cases "pending c = []"; cases "last (pending c)")
      (auto simp: check_below_def bt_last_le_all simp flip: not_le)
  show "check_above c low high = None"
    using below by (simp add: check_above_def bt_first_ge_none)
qed

lemma checks_fail_saturated:
  assumes inv: "coord_inv c" and h: "last_registered_high c = Some (- 1)"
    and low: "low = - 1" and ord: "check_order low high = None"
  shows "check_frontier c low \<noteq> None \<or> check_below c low high \<noteq> None"
proof (cases "pending c = []")
  case True
  then have "next_seq c = admitted_end c"
    using coord_invD(2) [OF inv] by simp
  moreover have "start_seq c \<noteq> Suc (unat (- 1 :: u64))"
    using inv by (auto simp: coord_inv_def start_seq_def word_unat_eq_iff split: option.splits)
  ultimately have "acked_frontier c = Some (- 1)"
    using h by (auto simp: next_seq_def admitted_end_def word_unat_eq_iff split: option.splits)
  then show ?thesis
    using low by (simp add: check_frontier_def)
next
  case False
  let ?l = "last (pending c)"
  have "Suc (unat (pr_high (snd ?l))) = admitted_end c"
    using chain_last [OF coord_invD(2) [OF inv]] False by (simp add: last_map)
  then have "pr_high (snd ?l) = - 1"
    using h by (simp add: admitted_end_def word_unat_eq_iff)
  moreover have "high = - 1"
    using ord low u64_max_le [of high] by (simp add: check_order_def not_less split: if_splits)
  ultimately show ?thesis
    using False low by (cases ?l) (simp add: check_below_def bt_last_le_all)
qed


lemma register_accepts_iff:
  assumes inv: "coord_inv c"
  shows "register_checks c low high = None \<longleftrightarrow>
    low \<le> high \<and> (unat low = admitted_end c \<or> \<not> baseline_fixed c)"
proof (cases "last_registered_high c")
  case None
  note fresh = coord_inv_fresh [OF inv None]
  show ?thesis
  proof (cases "initial_frontier_baseline c")
    case none: None
    then have "\<not> baseline_fixed c"
      using inv None by (simp add: coord_inv_def)
    with none None fresh show ?thesis
      by (auto simp: register_checks_None check_order_def check_baseline_def check_contiguous_def
          check_frontier_def check_below_def check_above_def bt_last_le_def bt_first_ge_def
          bt_first_def not_less)
  next
    case (Some b)
    then have "effective_baseline c = Some b" "baseline_fixed c" "b \<noteq> - 1"
      using inv by (auto simp: coord_inv_def)
    then show ?thesis
      using None Some fresh saturating_add_one_eq [of b low] u64_not_max [of b]
      by (auto simp: register_checks_None check_order_def check_baseline_def check_contiguous_def
          check_frontier_def check_below_def check_above_def bt_last_le_def bt_first_ge_def
          bt_first_def not_less admitted_end_def start_seq_def)
  qed
next
  case (Some h)
  have fixed: "baseline_fixed c"
    using inv Some by (auto simp: coord_inv_def split: option.splits)
  have base: "check_baseline c low = None"
    using Some by (simp add: check_baseline_def)
  show ?thesis
  proof (cases "h = - 1")
    case True
    have "unat low \<noteq> admitted_end c"
      using unat_bound_len [of low] Some True by (simp add: admitted_end_def unat_minus_one_len)
    moreover have "register_checks c low high \<noteq> None"
    proof
      assume none: "register_checks c low high = None"
      then have "low = - 1"
        using Some True by (simp add: register_checks_None check_contiguous_def saturating_add_def
            unat_minus_one_len split: if_splits)
      with none show False
        using checks_fail_saturated [OF inv, of low high] Some True by (simp add: register_checks_None)
    qed
    ultimately show ?thesis using fixed by simp
  next
    case False
    then have "check_contiguous c low = None \<longleftrightarrow> unat low = admitted_end c"
      using Some saturating_add_one_eq [of h low] u64_not_max [of h]
      by (auto simp: check_contiguous_def admitted_end_def)
    then show ?thesis
      using checks_pass_beyond [OF inv] base fixed
      by (auto simp: register_checks_None check_order_def not_less)
  qed
qed


section \<open>The operations under the invariant\<close>

abbreviation fresh_range :: "u64 \<Rightarrow> u64 \<Rightarrow> pending_range" where
  "fresh_range low high \<equiv> \<lparr>pr_low = low, pr_high = high, sink_committed = False\<rparr>"

lemma register_result:
  assumes inv: "coord_inv c" and ok: "register_pending c low high = Inr c'"
  shows "low \<le> high" "unat low = admitted_end c \<or> \<not> baseline_fixed c"
    "c' = (absorb_baseline low c)\<lparr>pending := pending c @ [(low, fresh_range low high)],
            last_registered_high := Some high\<rparr>"
proof -
  have "register_checks c low high = None"
    using ok by (simp add: register_pending_def split: option.splits)
  then show le: "low \<le> high" and at_end: "unat low = admitted_end c \<or> \<not> baseline_fixed c"
    using register_accepts_iff [OF inv] by blast+
  have "\<forall>e\<in>set (pending c). fst e < low"
  proof (cases "baseline_fixed c")
    case True
    then show ?thesis
      using at_end pending_member [OF coord_invD(1,2) [OF inv]] by (fastforce simp: word_less_nat_alt)
  next
    case False
    then have "last_registered_high c = None"
      using inv by (auto simp: coord_inv_def split: option.splits)
    then show ?thesis using coord_inv_fresh [OF inv] by simp
  qed
  then show "c' = (absorb_baseline low c)\<lparr>pending := pending c @ [(low, fresh_range low high)],
            last_registered_high := Some high\<rparr>"
    using ok by (auto simp: register_pending_def bt_insert_last split: option.splits)
qed

lemma coord_inv_not_fixed:
  assumes "coord_inv c" "\<not> baseline_fixed c"
  shows "last_registered_high c = None" "pending c = []" "acked_frontier c = None"
    "effective_baseline c = None" "initial_frontier_baseline c = None"
proof -
  show "last_registered_high c = None" "effective_baseline c = None"
    "initial_frontier_baseline c = None"
    using assms by (auto simp: coord_inv_def split: option.splits)
  then show "pending c = []" "acked_frontier c = None"
    using coord_inv_fresh [OF assms(1)] by simp_all
qed

lemma start_seq_absorb:
  "\<not> baseline_fixed c \<Longrightarrow> start_seq (absorb_baseline low c) = unat low"
  using unat_minus_one [of low] unat_gt_0 [of low]
  by (auto simp: absorb_baseline_def start_seq_def)

lemma absorb_fields [simp]:
  "ac_source (absorb_baseline low c) = ac_source c"
  "acked_frontier (absorb_baseline low c) = acked_frontier c"
  "initial_frontier_baseline (absorb_baseline low c) = initial_frontier_baseline c"
  "baseline_fixed (absorb_baseline low c)"
  "baseline_fixed c \<Longrightarrow> effective_baseline (absorb_baseline low c) = effective_baseline c"
  by (auto simp: absorb_baseline_def)

lemma seq_updates [simp]:
  "start_seq (c\<lparr>pending := p\<rparr>) = start_seq c"
  "start_seq (c\<lparr>acked_frontier := f\<rparr>) = start_seq c"
  "start_seq (c\<lparr>pending := p, acked_frontier := f\<rparr>) = start_seq c"
  "next_seq (c\<lparr>pending := p\<rparr>) = next_seq c"
  "next_seq (c\<lparr>pending := p, acked_frontier := Some w\<rparr>) = Suc (unat w)"
  "admitted_end (c\<lparr>pending := p\<rparr>) = admitted_end c"
  "admitted_end (c\<lparr>pending := p, acked_frontier := f\<rparr>) = admitted_end c"
  by (simp_all add: start_seq_def next_seq_def admitted_end_def split: option.split)

lemma start_seq_cong: "effective_baseline c = effective_baseline d \<Longrightarrow> start_seq c = start_seq d"
  by (simp add: start_seq_def)

lemma register_start:
  assumes "coord_inv c" "register_pending c low high = Inr c'"
  shows "start_seq c' = (if baseline_fixed c then start_seq c else unat low)"
proof -
  have "start_seq c' = start_seq (absorb_baseline low c)"
    by (rule start_seq_cong) (simp add: register_result(3) [OF assms])
  then show ?thesis
    using start_seq_absorb [of c low] by (auto simp: absorb_baseline_def)
qed

lemma register_next:
  assumes "coord_inv c" "register_pending c low high = Inr c'"
  shows "next_seq c' = (if baseline_fixed c then next_seq c else unat low)"
  using register_start [OF assms] coord_inv_not_fixed [OF assms(1)]
  by (auto simp: next_seq_def register_result(3) [OF assms] split: option.splits)

lemma register_inv:
  assumes inv: "coord_inv c" and ok: "register_pending c low high = Inr c'"
  shows "coord_inv c'"
proof -
  note res = register_result [OF inv ok]
  have low_at: "unat low = (if baseline_fixed c then admitted_end c else unat low)"
    using res(2) by auto
  have le: "unat low \<le> unat high"
    using res(1) by (simp add: word_le_nat_alt)
  have "chain (next_seq c') (map snd (pending c)) (unat low)"
    using coord_invD(2) [OF inv] res(2) register_next [OF inv ok] coord_inv_not_fixed [OF inv]
    by (cases "baseline_fixed c") auto
  then have "chain (next_seq c') (map snd (pending c')) (admitted_end c')"
    using le by (simp add: res(3) chain_append admitted_end_def)
  moreover have "start_seq c' \<le> unat f" if "acked_frontier c' = Some f" for f
    using that inv register_start [OF inv ok] coord_inv_not_fixed [OF inv]
    by (auto simp: res(3) coord_inv_def)
  moreover have "start_seq c' \<le> unat h" if "last_registered_high c' = Some h" for h
    using that le res(2) register_start [OF inv ok] coord_invD(4,5) [OF inv]
    by (cases "baseline_fixed c") (auto simp: res(3))
  moreover have "effective_baseline c' \<noteq> Some (- 1)"
    using inv by (auto simp: res(3) coord_inv_def absorb_baseline_def)
  moreover have "keys_are_lows (pending c')"
    using coord_invD(1) [OF inv] by (simp add: res(3) keys_are_lows_def)
  moreover have "baseline_fixed c'" "last_registered_high c' \<noteq> None"
    "initial_frontier_baseline c' = initial_frontier_baseline c"
    "baseline_fixed c \<Longrightarrow> effective_baseline c' = effective_baseline c"
    by (simp_all add: res(3))
  ultimately show ?thesis
    using inv coord_inv_not_fixed [OF inv] unfolding coord_inv_def by (fastforce split: option.splits)
qed

lemma register_abs:
  assumes inv: "coord_inv c" and ok: "register_pending c low high = Inr c'"
  shows "coord_abs c' = spec_register (unat low) (unat high) (coord_abs c)"
proof -
  note res = register_result [OF inv ok]
  have "committed_seqs c' = committed_seqs c"
    using register_start [OF inv ok] register_next [OF inv ok] coord_inv_not_fixed [OF inv]
    by (cases "baseline_fixed c") (auto simp: committed_seqs_def res(3) next_seq_def)
  then show ?thesis
    using register_start [OF inv ok]
    by (auto simp: coord_abs_def spec_register_def res(3) admitted_end_def)
qed


lemma mark_result:
  assumes inv: "coord_inv c" and ok: "mark_committed c low high = Inr c'"
  obtains us r vs where "pending c = us @ (low, r) # vs" "pr_low r = low" "pr_high r = high"
    "c' = c\<lparr>pending := us @ (low, r\<lparr>sink_committed := True\<rparr>) # vs\<rparr>"
proof -
  obtain r where r: "bt_get low (pending c) = Some r" "pr_high r = high"
    and c': "c' = c\<lparr>pending := bt_insert low (r\<lparr>sink_committed := True\<rparr>) (pending c)\<rparr>"
    using ok by (auto simp: mark_committed_def split: option.splits if_splits)
  have "(low, r) \<in> set (pending c)"
    using bt_get_in [OF coord_invD(3) [OF inv]] r(1) by blast
  then obtain us vs where split: "pending c = us @ (low, r) # vs"
    by (meson split_list)
  moreover have "pr_low r = low"
    using key_is_low [OF coord_invD(1) [OF inv]] split by auto
  moreover have "c' = c\<lparr>pending := us @ (low, r\<lparr>sink_committed := True\<rparr>) # vs\<rparr>"
    using c' split bt_insert_present coord_invD(3) [OF inv] by metis
  ultimately show thesis using that r(2) by blast
qed

lemma mark_seqs:
  assumes "coord_inv c" "mark_committed c low high = Inr c'"
  shows "start_seq c' = start_seq c" "next_seq c' = next_seq c" "admitted_end c' = admitted_end c"
    "baseline_fixed c' = baseline_fixed c" "acked_frontier c' = acked_frontier c"
proof -
  obtain p where "c' = c\<lparr>pending := p\<rparr>"
    using mark_result [OF assms] by metis
  then show "start_seq c' = start_seq c" "next_seq c' = next_seq c"
    "admitted_end c' = admitted_end c" "baseline_fixed c' = baseline_fixed c"
    "acked_frontier c' = acked_frontier c"
    by simp_all
qed

lemma mark_inv:
  assumes inv: "coord_inv c" and ok: "mark_committed c low high = Inr c'"
  shows "coord_inv c'"
proof -
  obtain us r vs where m: "pending c = us @ (low, r) # vs"
    "c' = c\<lparr>pending := us @ (low, r\<lparr>sink_committed := True\<rparr>) # vs\<rparr>"
    using mark_result [OF inv ok] by metis
  have "chain (next_seq c') (map snd (pending c')) (admitted_end c')"
    using coord_invD(2) [OF inv] chain_update mark_seqs [OF inv ok] m by fastforce
  moreover have "keys_are_lows (pending c')"
    using coord_invD(1) [OF inv] m by (simp add: keys_are_lows_def)
  ultimately show ?thesis
    using inv by (simp add: coord_inv_def m(2) cong: option.case_cong)
qed

lemma mark_committed_seqs:
  assumes inv: "coord_inv c" and ok: "mark_committed c low high = Inr c'"
  shows "committed_seqs c' = committed_seqs c \<union> {unat low..unat high}"
proof -
  obtain us r vs where m: "pending c = us @ (low, r) # vs" "pr_low r = low" "pr_high r = high"
    "c' = c\<lparr>pending := us @ (low, r\<lparr>sink_committed := True\<rparr>) # vs\<rparr>"
    using mark_result [OF inv ok] by metis
  have "range_set (r\<lparr>sink_committed := True\<rparr>) = {unat low..unat high}"
    by (simp add: range_set_def m)
  then show ?thesis
    using mark_seqs [OF inv ok]
    by (auto simp: committed_seqs_def m(1) m(4) range_set_def m(2,3) split: if_splits)
qed

lemma mark_abs:
  assumes "coord_inv c" "mark_committed c low high = Inr c'"
  shows "coord_abs c' = spec_commit (unat low) (unat high) (coord_abs c)"
  using mark_seqs [OF assms] mark_committed_seqs [OF assms]
  by (simp add: coord_abs_def spec_commit_def)

lemma mark_accepts_iff:
  assumes inv: "coord_inv c"
  shows "is_ok (mark_committed c low high) \<longleftrightarrow>
    (\<exists>r\<in>set (map snd (pending c)). pr_low r = low \<and> pr_high r = high)"
proof
  assume "is_ok (mark_committed c low high)"
  then obtain c' where "mark_committed c low high = Inr c'" by (auto simp: is_ok_iff)
  from mark_result [OF inv this] show "\<exists>r\<in>set (map snd (pending c)). pr_low r = low \<and> pr_high r = high"
    by fastforce
next
  assume "\<exists>r\<in>set (map snd (pending c)). pr_low r = low \<and> pr_high r = high"
  then obtain k r where kr: "(k, r) \<in> set (pending c)" "pr_low r = low" "pr_high r = high" by auto
  then have "bt_get low (pending c) = Some r"
    using key_is_low [OF coord_invD(1) [OF inv]] bt_get_in [OF coord_invD(3) [OF inv]] by blast
  then show "is_ok (mark_committed c low high)"
    using kr(3) by (simp add: mark_committed_def)
qed

lemma head_is_expected:
  assumes inv: "coord_inv c" and p: "pending c = (k, r) # rest"
  shows "pr_low r = expected_low c"
proof -
  have n: "unat (pr_low r) = next_seq c"
    using coord_invD(2) [OF inv] p by simp
  show ?thesis
  proof (cases "acked_frontier c")
    case (Some f)
    then have "saturating_add f 1 = pr_low r"
      using n unat_bound_len [of "pr_low r"] by (simp add: saturating_add_one_eq next_seq_def)
    with Some show ?thesis by (simp add: expected_low_def)
  next
    case None
    then have "unat (pr_low r) = start_seq c" using n by (simp add: next_seq_def)
    then have "pr_low r = (case effective_baseline c of Some b \<Rightarrow> saturating_add b 1 | None \<Rightarrow> 0)"
      using unat_bound_len [of "pr_low r"]
      by (auto simp: start_seq_def saturating_add_one_eq unat_eq_zero split: option.splits
          intro!: saturating_add_one_eq [THEN iffD2, symmetric])
    with None show ?thesis by (simp add: expected_low_def)
  qed
qed

lemma pop_inv:
  assumes inv: "coord_inv c" and p: "pending c = (k, r) # rest"
  shows "coord_inv (c\<lparr>pending := rest, acked_frontier := Some (pr_high r)\<rparr>)" (is "coord_inv ?d")
proof -
  have ch: "unat (pr_low r) = next_seq c" "next_seq c \<le> unat (pr_high r)"
    "chain (Suc (unat (pr_high r))) (map snd rest) (admitted_end c)"
    using coord_invD(2) [OF inv] p by auto
  have "last_registered_high c \<noteq> None"
    using coord_inv_fresh(1) [OF inv] p by auto
  moreover have "keys_are_lows rest"
    using coord_invD(1) [OF inv] p by (simp add: keys_are_lows_def)
  ultimately show ?thesis
    using inv ch coord_invD(5) [OF inv] by (simp add: coord_inv_def cong: option.case_cong)
qed

lemma pop_abs:
  assumes inv: "coord_inv c" and p: "pending c = (k, r) # rest" and com: "sink_committed r"
  shows "coord_abs (c\<lparr>pending := rest, acked_frontier := Some (pr_high r)\<rparr>) = coord_abs c"
    (is "coord_abs ?d = _")
proof -
  have ch: "unat (pr_low r) = next_seq c" "next_seq c \<le> unat (pr_high r)"
    using coord_invD(2) [OF inv] p by auto
  have "{start_seq c..<Suc (unat (pr_high r))} = {start_seq c..<next_seq c} \<union> range_set r"
    using ch coord_invD(5) [OF inv] by (auto simp: range_set_def)
  then have "committed_seqs ?d = committed_seqs c"
    using com p by (simp add: committed_seqs_def Un_assoc)
  then show ?thesis
    by (simp add: coord_abs_def)
qed


section \<open>Advancing the frontier\<close>

lemma advance_loop_facts:
  assumes "coord_inv c"
  shows "coord_inv (advance_loop c)" "coord_abs (advance_loop c) = coord_abs c"
    "settled (advance_loop c)" "next_seq c \<le> next_seq (advance_loop c)"
    "start_seq (advance_loop c) = start_seq c"
    "last_registered_high (advance_loop c) = last_registered_high c"
    "outstanding (advance_loop c) = outstanding c"
    "seq_below (acked_frontier c) (acked_frontier (advance_loop c))"
  using assms
proof (atomize (full), induction c rule: advance_loop.induct)
  case (1 c)
  show ?case
  proof (cases "pending c")
    case Nil
    with 1 show ?thesis
      by (simp add: advance_loop.simps [of c] settled_def seq_below_def split: option.split)
  next
    case (Cons e rest)
    obtain k r where e: "e = (k, r)" by fastforce
    show ?thesis
    proof (cases "sink_committed r")
      case False
      with 1 Cons e show ?thesis
        by (simp add: advance_loop.simps [of c] settled_def seq_below_def split: option.split)
    next
      case True
      let ?d = "c\<lparr>pending := rest, acked_frontier := Some (pr_high r)\<rparr>"
      note head = Cons [unfolded e]
      have eq: "advance_loop c = advance_loop ?d"
        using True head head_is_expected [OF 1(2) head] by (simp add: advance_loop.simps [of c])
      have "next_seq c \<le> Suc (unat (pr_high r))"
        using coord_invD(2) [OF 1(2)] head by simp
      moreover have "seq_below (acked_frontier c) (Some (pr_high r))"
        using coord_invD(2) [OF 1(2)] head
        by (auto simp: seq_below_def next_seq_def word_le_nat_alt split: option.split)
      moreover have "outstanding ?d = outstanding c"
        using True head by (auto simp: outstanding_def)
      moreover note IH = 1(1) [OF head refl _ _ pop_inv [OF 1(2) head]]
      ultimately show ?thesis
        using True head_is_expected [OF 1(2) head] pop_abs [OF 1(2) head True] IH
        by (auto simp: eq seq_below_def split: option.splits)
    qed
  qed
qed

lemma settled_not_fixed: "coord_inv c \<Longrightarrow> \<not> baseline_fixed c \<Longrightarrow> settled c"
  by (simp add: settled_def coord_inv_not_fixed)

lemma advance_facts:
  assumes "coord_inv c"
  shows "coord_inv (advance_frontier c)" "coord_abs (advance_frontier c) = coord_abs c"
    "settled (advance_frontier c)" "next_seq c \<le> next_seq (advance_frontier c)"
    "start_seq (advance_frontier c) = start_seq c"
    "last_registered_high (advance_frontier c) = last_registered_high c"
    "outstanding (advance_frontier c) = outstanding c"
    "seq_below (acked_frontier c) (acked_frontier (advance_frontier c))"
  using advance_loop_facts [OF assms] settled_not_fixed [OF assms] assms
  by (simp_all add: advance_frontier_def seq_below_def split: option.split)

lemma pending_above:
  assumes "coord_inv c" "r \<in> set (map snd (pending c))"
  shows "next_seq c \<le> unat (pr_low r)" "unat (pr_low r) \<le> unat (pr_high r)"
    "unat (pr_high r) < admitted_end c"
  using chain_member [OF coord_invD(2) [OF assms(1)] assms(2)] by auto

lemma settled_next_uncommitted:
  assumes inv: "coord_inv c" and st: "settled c"
  shows "next_seq c \<notin> committed_seqs c"
proof (cases "pending c")
  case Nil
  then show ?thesis by (simp add: committed_seqs_def)
next
  case (Cons e rest)
  obtain k r where e: "e = (k, r)" by fastforce
  have "Suc (unat (pr_high r)) \<le> unat (pr_low q)" if "q \<in> set (map snd rest)" for q
    using coord_invD(2) [OF inv] Cons e that chain_member by fastforce
  moreover have "next_seq c \<le> unat (pr_high r)"
    using coord_invD(2) [OF inv] Cons e by simp
  ultimately show ?thesis
    using st Cons e by (fastforce simp: committed_seqs_def settled_def range_set_def)
qed

lemma committed_prefix: "{start_seq c..<next_seq c} \<subseteq> committed_seqs c"
  by (auto simp: committed_seqs_def)

lemma committed_within: "coord_inv c \<Longrightarrow> committed_seqs c \<subseteq> {start_seq c..<admitted_end c}"
  using pending_above coord_invD(4,5)
  by (fastforce simp: committed_seqs_def range_set_def split: if_splits)

lemma apply_facts:
  assumes inv: "coord_inv c" and ok: "ack_apply c e = Inr c'"
  shows "coord_inv c'" "coord_abs c' = spec_apply e (coord_abs c)"
    "seq_below (acked_frontier c) (acked_frontier c')"
proof (atomize (full), cases e)
  case (EvRegister low high)
  then have reg: "register_pending c low high = Inr c'" using ok by simp
  have "acked_frontier c' = acked_frontier c"
    by (simp add: register_result(3) [OF inv reg])
  then show "coord_inv c' \<and> coord_abs c' = spec_apply e (coord_abs c)
      \<and> seq_below (acked_frontier c) (acked_frontier c')"
    using register_inv [OF inv reg] register_abs [OF inv reg] EvRegister
    by (simp add: seq_below_def split: option.split)
next
  case (EvCommit low high)
  then obtain d where d: "mark_committed c low high = Inr d" "c' = advance_frontier d"
    using ok by (auto split: sum.splits)
  then show "coord_inv c' \<and> coord_abs c' = spec_apply e (coord_abs c)
      \<and> seq_below (acked_frontier c) (acked_frontier c')"
    using advance_facts [OF mark_inv [OF inv d(1)]] mark_abs [OF inv d(1)] EvCommit
      mark_seqs(5) [OF inv d(1)] by simp
qed

lemma apply_settled:
  assumes inv: "coord_inv c" and st: "settled c" and ok: "ack_apply c e = Inr c'"
  shows "settled c'"
proof (cases e)
  case (EvRegister low high)
  then have reg: "register_pending c low high = Inr c'" using ok by simp
  show ?thesis
    using st by (cases "pending c") (auto simp: settled_def register_result(3) [OF inv reg])
next
  case (EvCommit low high)
  then show ?thesis
    using ok advance_facts(3) mark_inv [OF inv] by (auto split: sum.splits)
qed

lemma run_facts:
  assumes "coord_inv c" "settled c" "ack_run c es = Inr c'"
  shows "coord_inv c' \<and> settled c' \<and> coord_abs c' = fold spec_apply es (coord_abs c)
    \<and> seq_below (acked_frontier c) (acked_frontier c')"
  using assms
proof (induction es arbitrary: c)
  case Nil
  then show ?case by (simp add: seq_below_def split: option.split)
next
  case (Cons e es)
  then obtain d where d: "ack_apply c e = Inr d" "ack_run d es = Inr c'"
    by (auto split: sum.splits)
  have "coord_inv d" "settled d"
    using apply_facts(1) apply_settled Cons.prems d(1) by blast+
  with Cons.IH d(2) have "coord_inv c' \<and> settled c' \<and> coord_abs c' = fold spec_apply es (coord_abs d)
    \<and> seq_below (acked_frontier d) (acked_frontier c')" by blast
  then show ?case
    using apply_facts(2,3) [OF Cons.prems(1) d(1)]
    by (auto simp: seq_below_def split: option.splits)
qed

lemma committed_in_simps [simp]:
  "committed_in [] = {}"
  "committed_in (EvRegister low high # es) = committed_in es"
  "committed_in (EvCommit low high # es) = {unat low..unat high} \<union> committed_in es"
  by (auto simp: committed_in_def) blast

lemma spec_committed_fold:
  "sp_committed (fold spec_apply es s) = sp_committed s \<union> committed_in es"
proof (induction es arbitrary: s)
  case Nil
  then show ?case by simp
next
  case (Cons e es)
  then show ?case by (cases e) (auto simp: spec_register_def spec_commit_def)
qed

lemma abs_new: "coord_abs (ack_new s b) = spec_new b"
  by (auto simp: coord_abs_def ack_new_def spec_new_def start_seq_def admitted_end_def next_seq_def
      committed_seqs_def split: option.split)

lemma settled_new [simp]: "settled (ack_new s b)"
  by (simp add: settled_def ack_new_def)

lemmas run_from_new = run_facts [OF coord_inv_new settled_new, unfolded abs_new]

lemma run_committed:
  assumes "b \<noteq> Some (- 1)" "ack_run (ack_new s b) es = Inr c"
  shows "committed_seqs c = committed_in es"
proof -
  have "committed_seqs c = sp_committed (coord_abs c)" by (simp add: coord_abs_def)
  also have "\<dots> = committed_in es"
    using run_from_new [OF assms] by (simp add: spec_committed_fold spec_new_def)
  finally show ?thesis .
qed

lemma start_fold:
  "sp_start (fold spec_apply es s) = Some n \<Longrightarrow>
     (case sp_start s of Some m \<Rightarrow> n = m | None \<Rightarrow> n = first_seq None es)"
proof (induction es arbitrary: s)
  case Nil
  then show ?case by simp
next
  case (Cons e es)
  show ?case
    using Cons.IH [of "spec_apply e s"] Cons.prems
    by (cases e) (auto simp: spec_register_def spec_commit_def split: option.splits)
qed

lemma run_start:
  assumes b: "b \<noteq> Some (- 1)" and run: "ack_run (ack_new s b) es = Inr c" and "baseline_fixed c"
  shows "start_seq c = first_seq b es"
proof -
  have "sp_start (fold spec_apply es (spec_new b)) = Some (start_seq c)"
    using run_from_new [OF b run] assms(3) by (auto simp: coord_abs_def dest: arg_cong [of _ _ sp_start])
  from start_fold [OF this] show ?thesis
    by (cases b) (auto simp: spec_new_def)
qed

section \<open>What a client of the coordinator relies on\<close>

text \<open>
  The runtime admits ranges, hands them to concurrent stages and commits them in the order in which
  the stages finish. \<open>ack_tracker\<close> is what it needs of the coordinator for that: a range
  that was admitted and not yet committed can be committed, committing it removes just that range
  from the outstanding ones, and the frontier stays below everything outstanding.
\<close>

locale ack_tracker =
  fixes inv :: "'s \<Rightarrow> bool"
    and outst :: "'s \<Rightarrow> 'r set"
    and com :: "'s \<Rightarrow> 'r \<Rightarrow> 'e + 's"
    and front :: "'s \<Rightarrow> nat"
    and lowest :: "'r \<Rightarrow> nat"
  assumes com_ok: "inv c \<Longrightarrow> r \<in> outst c \<Longrightarrow> \<exists>c'. com c r = Inr c'"
    and com_inv: "inv c \<Longrightarrow> com c r = Inr c' \<Longrightarrow> inv c'"
    and com_outst: "inv c \<Longrightarrow> com c r = Inr c' \<Longrightarrow> outst c' = outst c - {r}"
    and com_front: "inv c \<Longrightarrow> com c r = Inr c' \<Longrightarrow> front c \<le> front c'"
    and front_below: "inv c \<Longrightarrow> r \<in> outst c \<Longrightarrow> front c \<le> lowest r"
begin

lemma commit_all_any_order:
  "inv c \<Longrightarrow> distinct rs \<Longrightarrow> set rs \<subseteq> outst c \<Longrightarrow>
     \<exists>c'. commit_all com c rs = Inr c' \<and> inv c' \<and> outst c' = outst c - set rs \<and> front c \<le> front c'"
proof (induction rs arbitrary: c)
  case Nil
  then show ?case by simp
next
  case (Cons r rs)
  then obtain d where d: "com c r = Inr d"
    using com_ok [of c r] by auto
  have "inv d" "outst d = outst c - {r}" "front c \<le> front d"
    using com_inv com_outst com_front Cons.prems(1) d by blast+
  moreover have "set rs \<subseteq> outst d"
    using Cons.prems(2,3) \<open>outst d = outst c - {r}\<close> by auto
  ultimately obtain c' where "commit_all com d rs = Inr c'" "inv c'" "outst c' = outst d - set rs"
    "front d \<le> front c'"
    using Cons.IH Cons.prems(2) by (meson distinct.simps(2))
  then show ?case
    using d \<open>outst d = outst c - {r}\<close> \<open>front c \<le> front d\<close> by auto
qed

lemma frontier_stops_at_missing:
  assumes "inv c" "distinct rs" "set rs \<subseteq> outst c" "r \<in> outst c" "r \<notin> set rs"
    "commit_all com c rs = Inr c'"
  shows "front c' \<le> lowest r"
  using commit_all_any_order [OF assms(1-3)] assms(4-6) front_below by fastforce

end

lemma outstanding_code [code]:
  "outstanding c =
     set (map (\<lambda>r. (pr_low r, pr_high r)) (filter (\<lambda>r. \<not> sink_committed r) (map snd (pending c))))"
  by (force simp: outstanding_def)

lemma outstanding_iff:
  assumes inv: "coord_inv c"
  shows "(low, high) \<in> outstanding c \<longleftrightarrow>
     (\<exists>r. bt_get low (pending c) = Some r \<and> pr_high r = high \<and> \<not> sink_committed r)"
proof
  assume "(low, high) \<in> outstanding c"
  then obtain k r where r: "(k, r) \<in> set (pending c)" "pr_low r = low" "pr_high r = high"
    "\<not> sink_committed r"
    by (auto simp: outstanding_def)
  then show "\<exists>r. bt_get low (pending c) = Some r \<and> pr_high r = high \<and> \<not> sink_committed r"
    using key_is_low [OF coord_invD(1) [OF inv] r(1)] bt_get_in [OF coord_invD(3) [OF inv]] by blast
next
  assume "\<exists>r. bt_get low (pending c) = Some r \<and> pr_high r = high \<and> \<not> sink_committed r"
  then obtain r where r: "(low, r) \<in> set (pending c)" "pr_high r = high" "\<not> sink_committed r"
    using bt_get_in [OF coord_invD(3) [OF inv]] by blast
  then show "(low, high) \<in> outstanding c"
    using key_is_low [OF coord_invD(1) [OF inv] r(1)] image_eqI [OF _ r(1), of r snd]
    by (auto simp: outstanding_def)
qed

lemma mark_outstanding:
  assumes inv: "coord_inv c" and ok: "mark_committed c low high = Inr c'"
  shows "outstanding c' = outstanding c - {(low, high)}"
proof (intro set_eqI)
  fix x :: "u64 \<times> u64"
  obtain l h where x: "x = (l, h)" by fastforce
  obtain r where r: "bt_get low (pending c) = Some r" "pr_high r = high"
    and c': "c' = c\<lparr>pending := bt_insert low (r\<lparr>sink_committed := True\<rparr>) (pending c)\<rparr>"
    using ok by (auto simp: mark_committed_def split: option.splits if_splits)
  show "x \<in> outstanding c' \<longleftrightarrow> x \<in> outstanding c - {(low, high)}"
    using outstanding_iff [OF inv, of l h] outstanding_iff [OF mark_inv [OF inv ok], of l h] r
    by (auto simp: x c' bt_get_insert [OF coord_invD(3) [OF inv]])
qed

lemma ack_commit_ok:
  assumes "ack_commit c r = Inr c'"
  obtains d where "mark_committed c (fst r) (snd r) = Inr d" "c' = advance_frontier d"
  using assms by (auto simp: ack_commit_def split: sum.splits)

interpretation ack: ack_tracker "\<lambda>c. coord_inv c \<and> settled c" outstanding ack_commit next_seq
  "\<lambda>r. unat (fst r)"
proof
  fix c r c'
  assume inv: "coord_inv c \<and> settled c"
  { assume "r \<in> outstanding c"
    then show "\<exists>c'. ack_commit c r = Inr c'"
      using outstanding_iff [of c "fst r" "snd r"] inv
      by (auto simp: ack_commit_def mark_committed_def)
  next
    assume "r \<in> outstanding c"
    then show "next_seq c \<le> unat (fst r)"
      using pending_above(1) [of c] inv by (force simp: outstanding_def)
  next
    assume ok: "ack_commit c r = Inr c'"
    then show "coord_inv c' \<and> settled c'"
      using inv apply_facts(1) apply_settled unfolding ack_commit_def by blast
    from ok obtain d where d: "mark_committed c (fst r) (snd r) = Inr d" "c' = advance_frontier d"
      by (rule ack_commit_ok)
    note adv = advance_facts [OF mark_inv [OF conjunct1 [OF inv] d(1)]]
    show "outstanding c' = outstanding c - {r}"
      using adv(7) mark_outstanding [OF _ d(1)] inv d(2) by simp
    show "next_seq c \<le> next_seq c'"
      using adv(4) mark_seqs(2) [OF _ d(1)] inv d(2) by simp }
qed

lemma drained:
  assumes inv: "coord_inv c" and st: "settled c" and none: "outstanding c = {}"
  shows "pending c = []" "frontier c = last_registered_high c"
proof -
  show empty: "pending c = []"
  proof (cases "pending c")
    case (Cons e rest)
    then have "(pr_low (snd e), pr_high (snd e)) \<in> outstanding c"
      using st by (cases e) (auto simp: outstanding_def settled_def)
    with none show ?thesis by simp
  qed
  have eq: "next_seq c = admitted_end c"
    using coord_invD(2) [OF inv] empty by simp
  show "frontier c = last_registered_high c"
  proof (cases "last_registered_high c")
    case None
    then show ?thesis using coord_inv_fresh [OF inv] by (simp add: frontier_def)
  next
    case (Some h)
    then have "start_seq c \<le> unat h"
      using inv by (simp add: coord_inv_def)
    with Some eq show ?thesis
      by (auto simp: frontier_def next_seq_def admitted_end_def word_unat_eq_iff split: option.splits)
  qed
qed

lemma advance_source [simp]: "ac_source (advance_frontier c) = ac_source c"
proof -
  have "ac_source (advance_loop c) = ac_source c"
    by (induction c rule: advance_loop.induct) (subst advance_loop.simps, auto split: list.split)
  then show ?thesis by (simp add: advance_frontier_def)
qed

lemma advance_initial [simp]:
  "initial_frontier_baseline (advance_frontier c) = initial_frontier_baseline c"
proof -
  have "initial_frontier_baseline (advance_loop c) = initial_frontier_baseline c"
    by (induction c rule: advance_loop.induct) (subst advance_loop.simps, auto split: list.split)
  then show ?thesis by (simp add: advance_frontier_def)
qed

lemma ack_run_append:
  "ack_run c (es @ es') = Inr c' \<Longrightarrow> \<exists>d. ack_run c es = Inr d \<and> ack_run d es' = Inr c'"
  by (induction es arbitrary: c) (auto split: sum.splits)

lemma run_initial:
  "coord_inv c \<Longrightarrow> ack_run c es = Inr c' \<Longrightarrow>
     initial_frontier_baseline c' = initial_frontier_baseline c"
proof (induction es arbitrary: c)
  case Nil
  then show ?case by simp
next
  case (Cons e es)
  then obtain d where d: "ack_apply c e = Inr d" "ack_run d es = Inr c'"
    by (auto split: sum.splits)
  have "initial_frontier_baseline d = initial_frontier_baseline c"
    using d(1) by (cases e)
      (auto simp: register_pending_def mark_committed_def split: option.splits if_splits sum.splits)
  then show ?case
    using Cons.IH [OF apply_facts(1) [OF Cons.prems(1) d(1)] d(2)] by simp
qed

section \<open>Properties\<close>

text \<open>
  C3. Durable acknowledgement is sound and complete: after any sequence of admissions and commits
  that the coordinator accepted, the frontier is exactly the end of the longest run of committed
  sequences that starts at the first sequence (the baseline plus one, or the first admitted one). It
  never passes a sequence without a commit, and it never stops short of one.
\<close>

theorem frontier_exact:
  assumes base: "b \<noteq> Some (- 1)" and run: "ack_run (ack_new s b) es = Inr c"
  shows "case frontier c of
      None \<Rightarrow> first_seq b es \<notin> committed_in es
    | Some f \<Rightarrow> first_seq b es \<le> unat f \<and> {first_seq b es..unat f} \<subseteq> committed_in es
               \<and> Suc (unat f) \<notin> committed_in es"
proof -
  note r = run_from_new [OF base run] and com = run_committed [OF base run]
  have inv: "coord_inv c" and st: "settled c" using r by blast+
  have next_un: "next_seq c \<notin> committed_in es"
    using settled_next_uncommitted [OF inv st] com by simp
  show ?thesis
  proof (cases "baseline_fixed c")
    case False
    then have "committed_in es = {}"
      using com coord_inv_not_fixed [OF inv] by (auto simp: committed_seqs_def next_seq_def start_seq_def)
    then show ?thesis
      using False coord_inv_not_fixed [OF inv] by (simp add: frontier_def)
  next
    case True
    note start = run_start [OF base run True]
    show ?thesis
    proof (cases "acked_frontier c")
      case None
      then show ?thesis
        using next_un start by (simp add: frontier_def next_seq_def)
    next
      case (Some f)
      then have "start_seq c \<le> unat f" "next_seq c = Suc (unat f)"
        using inv by (auto simp: coord_inv_def next_seq_def)
      then show ?thesis
        using Some next_un start committed_prefix [of c] com
        by (simp add: frontier_def atLeastLessThanSuc_atLeastAtMost)
    qed
  qed
qed

theorem frontier_exact_witness:
  "frontier (projr (ack_run (ack_new (SourceId ''s'') None)
      [EvRegister 7 7, EvRegister 8 9, EvRegister 10 10, EvCommit 8 9, EvCommit 7 7])) = Some 9
   \<and> {7..9} \<subseteq> committed_in [EvRegister 7 7, EvRegister 8 9, EvRegister 10 10, EvCommit 8 9, EvCommit 7 7]"
proof -
  let ?es = "[EvRegister 7 7, EvRegister 8 9, EvRegister 10 10, EvCommit 8 9, EvCommit 7 7]"
  let ?c = "projr (ack_run (ack_new (SourceId ''s'') None) ?es)"
  have run: "ack_run (ack_new (SourceId ''s'') None) ?es = Inr ?c"
    by code_simp
  have f: "frontier ?c = Some 9"
    by code_simp
  show ?thesis
    using frontier_exact [OF _ run] f by simp
qed

text \<open>
  C4. Out-of-order completion is safe: whatever was admitted, the ranges that are still outstanding
  can be committed in any order. No commit fails, afterwards nothing is pending, and the frontier is
  the last admitted sequence; while a range is missing, the frontier stays below its first sequence.
\<close>

theorem drain_any_order:
  assumes base: "b \<noteq> Some (- 1)" and run: "ack_run (ack_new s b) es = Inr c"
    and order: "distinct rs" "set rs = outstanding c"
  shows "(\<exists>c'. commit_all ack_commit c rs = Inr c' \<and> pending c' = []
             \<and> frontier c' = last_registered_high c') \<and>
    (\<forall>us r vs. rs = us @ r # vs \<longrightarrow>
       (\<exists>d. commit_all ack_commit c us = Inr d \<and> next_seq d \<le> unat (fst r)))"
proof (intro conjI allI impI)
  have inv: "coord_inv c \<and> settled c"
    using run_from_new [OF base run] by blast
  obtain c' where c': "commit_all ack_commit c rs = Inr c'" "coord_inv c' \<and> settled c'"
    "outstanding c' = {}"
    using ack.commit_all_any_order [OF inv order(1)] order(2) by auto
  then show "\<exists>c'. commit_all ack_commit c rs = Inr c' \<and> pending c' = []
      \<and> frontier c' = last_registered_high c'"
    using drained by blast
  fix us r vs
  assume split: "rs = us @ r # vs"
  then have us: "distinct us" "set us \<subseteq> outstanding c" "r \<in> outstanding c" "r \<notin> set us"
    using order by auto
  then obtain d where "commit_all ack_commit c us = Inr d"
    using ack.commit_all_any_order [OF inv us(1,2)] by blast
  then show "\<exists>d. commit_all ack_commit c us = Inr d \<and> next_seq d \<le> unat (fst r)"
    using ack.frontier_stops_at_missing [OF inv us] by blast
qed

theorem drain_any_order_witness:
  "let c = projr (ack_run (ack_new (SourceId ''s'') (Some 4)) [EvRegister 5 5, EvRegister 6 8])
   in (\<exists>c'. commit_all ack_commit c [(6, 8), (5, 5)] = Inr c' \<and> pending c' = []
        \<and> frontier c' = last_registered_high c')
      \<and> (\<exists>d. commit_all ack_commit c [(6, 8)] = Inr d \<and> next_seq d \<le> 5)"
proof -
  let ?es = "[EvRegister 5 5, EvRegister 6 8]"
  let ?c = "projr (ack_run (ack_new (SourceId ''s'') (Some 4)) ?es)"
  have run: "ack_run (ack_new (SourceId ''s'') (Some 4)) ?es = Inr ?c"
    by code_simp
  have out: "set [(6, 8), (5, 5)] = outstanding ?c"
    by code_simp
  have dist: "distinct [(6, 8), (5, 5 :: u64) :: u64 \<times> u64]" and base: "Some 4 \<noteq> Some (- 1 :: u64)"
    by simp_all
  note all = drain_any_order [OF base run dist out]
  have "\<exists>d. commit_all ack_commit ?c [(6, 8)] = Inr d \<and> next_seq d \<le> unat (fst (5 :: u64, 5 :: u64))"
    by (rule conjunct2 [OF all, rule_format, of _ _ "[]"]) simp
  with conjunct1 [OF all] show ?thesis
    unfolding Let_def by simp
qed

text \<open>
  C5. Admission is exactly contiguous: in every state a coordinator can reach, \<open>register_pending\<close>
  accepts a range precisely when it is not inverted and starts right after the last admitted one (on
  the first call: right after the constructor's baseline, or anywhere when there is none). The
  overlap and already-acknowledged checks never reject a range on their own.
\<close>

theorem register_exactly_contiguous:
  assumes base: "b \<noteq> Some (- 1)" and run: "ack_run (ack_new s b) es = Inr c"
  shows "is_ok (register_pending c low high) \<longleftrightarrow>
    low \<le> high \<and>
    (case last_registered_high c of
       Some h \<Rightarrow> unat low = Suc (unat h)
     | None \<Rightarrow> (case b of Some b' \<Rightarrow> unat low = Suc (unat b') | None \<Rightarrow> True))"
proof -
  have inv: "coord_inv c"
    using run_from_new [OF base run] by blast
  have init: "initial_frontier_baseline c = b"
    using run_initial [OF coord_inv_new [OF base] run] by (simp add: ack_new_def)
  have "is_ok (register_pending c low high) \<longleftrightarrow> register_checks c low high = None"
    by (simp add: register_pending_def split: option.split)
  also have "\<dots> \<longleftrightarrow> low \<le> high \<and> (unat low = admitted_end c \<or> \<not> baseline_fixed c)"
    by (rule register_accepts_iff [OF inv])
  finally show ?thesis
    using inv init
    by (auto simp: coord_inv_def admitted_end_def start_seq_def split: option.splits)
qed

theorem register_exactly_contiguous_witness:
  "is_ok (register_pending (projr (ack_run (ack_new (SourceId ''s'') (Some 4)) [EvRegister 5 7])) 8 9)
   \<and> \<not> is_ok (register_pending (projr (ack_run (ack_new (SourceId ''s'') (Some 4)) [EvRegister 5 7])) 9 9)"
proof -
  let ?c = "projr (ack_run (ack_new (SourceId ''s'') (Some 4)) [EvRegister 5 7])"
  have run: "ack_run (ack_new (SourceId ''s'') (Some 4)) [EvRegister 5 7] = Inr ?c"
    by code_simp
  have "last_registered_high ?c = Some 7"
    by code_simp
  then show ?thesis
    using register_exactly_contiguous [OF _ run, of 8 9] register_exactly_contiguous [OF _ run, of 9 9]
    by simp
qed

text \<open>
  C6. \<open>mark_committed\<close> is idempotent exactly as long as the range is pending: repeating it before
  the frontier has passed the range changes nothing, and once the frontier has passed the range's
  first sequence the same call is an error, although the range was committed.
\<close>

theorem mark_committed_repeat:
  assumes base: "b \<noteq> Some (- 1)" and run: "ack_run (ack_new s b) es = Inr c"
    and ok: "mark_committed c low high = Inr c'"
  shows "mark_committed c' low high = Inr c' \<and>
    (\<forall>f. frontier (advance_frontier c') = Some f \<and> low \<le> f \<longrightarrow>
      mark_committed (advance_frontier c') low high = Inl (ErrAck (NoPendingRange low (ac_source c))))"
proof (intro conjI allI impI)
  have inv: "coord_inv c"
    using run_from_new [OF base run] by blast
  obtain r where "bt_get low (pending c) = Some r" "pr_high r = high"
    and c': "c' = c\<lparr>pending := bt_insert low (r\<lparr>sink_committed := True\<rparr>) (pending c)\<rparr>"
    using ok by (auto simp: mark_committed_def split: option.splits if_splits)
  then show "mark_committed c' low high = Inr c'"
    using coord_invD(3) [OF inv] by (simp add: mark_committed_def bt_get_insert bt_insert_twice)
  fix f
  let ?d = "advance_frontier c'"
  assume f: "frontier ?d = Some f \<and> low \<le> f"
  have d: "coord_inv ?d"
    using advance_facts(1) mark_inv [OF inv ok] by blast
  have "bt_get low (pending ?d) = None"
  proof (rule ccontr)
    assume "bt_get low (pending ?d) \<noteq> None"
    then obtain q where q: "(low, q) \<in> set (pending ?d)"
      using bt_get_in [OF coord_invD(3) [OF d]] by auto
    have "next_seq ?d \<le> unat low"
      using pending_above(1) [OF d, of q] key_is_low [OF coord_invD(1) [OF d] q] q by force
    then show False
      using f by (simp add: next_seq_def frontier_def word_le_nat_alt)
  qed
  moreover have "ac_source ?d = ac_source c"
    by (simp add: advance_source c')
  ultimately show "mark_committed ?d low high = Inl (ErrAck (NoPendingRange low (ac_source c)))"
    by (simp add: mark_committed_def)
qed

theorem mark_committed_repeat_witness:
  "let c = projr (ack_run (ack_new (SourceId ''s'') None) [EvRegister 0 0]);
       c' = projr (mark_committed c 0 0)
   in mark_committed c' 0 0 = Inr c'
      \<and> mark_committed (advance_frontier c') 0 0 = Inl (ErrAck (NoPendingRange 0 (SourceId ''s'')))"
proof -
  let ?c = "projr (ack_run (ack_new (SourceId ''s'') None) [EvRegister 0 0])"
  let ?c' = "projr (mark_committed ?c 0 0)"
  have run: "ack_run (ack_new (SourceId ''s'') None) [EvRegister 0 0] = Inr ?c"
    and ok: "mark_committed ?c 0 0 = Inr ?c'"
    and f: "frontier (advance_frontier ?c') = Some 0"
    and src: "ac_source ?c = SourceId ''s''"
    by code_simp+
  show ?thesis
    using mark_committed_repeat [OF _ run ok] f src by (simp add: Let_def)
qed

lemma pending_total_set:
  assumes "bt_wf r" "acks_get r s = Some c"
  shows "acks_pending_total (acks_set r s c') + pending_count c = acks_pending_total r + pending_count c'"
proof -
  obtain us vs where "r = us @ (s, c) # vs"
    using assms bt_get_in [OF assms(1)] by (metis acks_get_def split_list)
  then have "acks_set r s c' = us @ (s, c') # vs"
    unfolding acks_set_def using bt_insert_present assms(1) by metis
  then show ?thesis
    by (simp add: acks_pending_total_def \<open>r = us @ (s, c) # vs\<close>)
qed



text \<open>
  C8. The coordinator refines its specification: a run the coordinator accepts ends in a state whose
  first sequence, next sequence to admit and set of committed sequences are those that the
  specification computes from the events alone; the gap-free invariant holds and the frontier has not
  moved backwards at any event.
\<close>

theorem coordinator_refines_spec:
  assumes base: "b \<noteq> Some (- 1)" and run: "ack_run (ack_new s b) (es @ es') = Inr c"
  shows "coord_inv c \<and> coord_abs c = fold spec_apply (es @ es') (spec_new b) \<and>
    (\<exists>d. ack_run (ack_new s b) es = Inr d \<and> coord_abs d = fold spec_apply es (spec_new b)
         \<and> seq_below (frontier d) (frontier c))"
proof -
  obtain d where d: "ack_run (ack_new s b) es = Inr d" "ack_run d es' = Inr c"
    using run ack_run_append by blast
  note first = run_from_new [OF base d(1)]
  have "seq_below (frontier d) (frontier c)"
    using run_facts [OF _ _ d(2)] first by (simp add: frontier_def)
  then show ?thesis
    using first run_from_new [OF base run] d(1) by blast
qed

theorem coordinator_refines_spec_witness:
  "\<exists>c. ack_run (ack_new (SourceId ''s'') None) ([EvRegister 2 3] @ [EvRegister 4 4, EvCommit 4 4]) = Inr c
     \<and> coord_abs c = fold spec_apply ([EvRegister 2 3] @ [EvRegister 4 4, EvCommit 4 4]) (spec_new None)
     \<and> coord_inv c"
proof -
  let ?c = "projr (ack_run (ack_new (SourceId ''s'') None) ([EvRegister 2 3] @ [EvRegister 4 4, EvCommit 4 4]))"
  have run: "ack_run (ack_new (SourceId ''s'') None) ([EvRegister 2 3] @ [EvRegister 4 4, EvCommit 4 4]) = Inr ?c"
    by code_simp
  then show ?thesis
    using coordinator_refines_spec [OF _ run] by blast
qed

end
