(* ===== verification/Source_Budget.thy ===== *)
theory Source_Budget
  imports Runtime_Types
begin

text \<open>
  The per-source byte budget (\<open>source_budget.rs\<close>). \<open>budget\<close> is the struct
  \<open>SourceByteBudget\<close> together with the per-stage atomics that reservations may be attached to
  (\<open>stage_bytes\<close>, one counter per address) and a count of the \<open>notify_waiters\<close> calls.
  \<open>reserve_cas\<close> is one iteration of the loop of \<open>reserve\<close> with the value it loaded,
  \<open>try_reserve\<close>, \<open>attach_stage\<close>, \<open>reconcile\<close> and \<open>res_drop\<close> are the
  methods. All counters are 64-bit and wrap as the atomics do.

  The locale \<open>mirrored_counter\<close> states once what makes a counter the sum of what the live
  reservations contribute to it; it is interpreted on \<open>in_flight\<close> and on every stage counter.
  \<open>budget_step\<close> interleaves one parked admission with concurrent operations on the live
  reservations, for the absence of lost wake-ups.
\<close>

section \<open>Definitions\<close>

record budget =
  bud_source :: source_id
  capacity :: u64
  in_flight :: u64
  stage_bytes :: "nat \<Rightarrow> u64"
  notified :: nat

record reservation =
  held :: u64
  stage :: "nat option"

definition budget_new :: "source_id \<Rightarrow> u64 \<Rightarrow> budget" where
  "budget_new source cap =
     \<lparr>bud_source = source, capacity = cap, in_flight = 0, stage_bytes = (\<lambda>_. 0), notified = 0\<rparr>"

definition reserve_cas :: "budget \<Rightarrow> u64 \<Rightarrow> u64 \<Rightarrow> (budget \<times> reservation) option" where
  "reserve_cas b current bytes =
     (if bytes = 0 then Some (b, \<lparr>held = 0, stage = None\<rparr>)
      else if saturating_add current bytes \<le> capacity b \<and> in_flight b = current
      then Some (b\<lparr>in_flight := current + bytes\<rparr>, \<lparr>held = bytes, stage = None\<rparr>)
      else None)"

definition reserve :: "budget \<Rightarrow> u64 \<Rightarrow> (budget \<times> reservation) option" where
  "reserve b bytes = reserve_cas b (in_flight b) bytes"

definition try_reserve_cas :: "budget \<Rightarrow> u64 \<Rightarrow> u64 \<Rightarrow> (budget \<times> reservation) option" where
  "try_reserve_cas b current bytes =
     (if bytes = 0 then Some (b, \<lparr>held = 0, stage = None\<rparr>)
      else
        (case checked_add current bytes of
           None \<Rightarrow> None
         | Some nxt \<Rightarrow>
             if capacity b < nxt then None
             else if in_flight b \<noteq> current then None
             else Some (b\<lparr>in_flight := nxt\<rparr>, \<lparr>held = bytes, stage = None\<rparr>)))"

definition try_reserve :: "budget \<Rightarrow> u64 \<Rightarrow> (budget \<times> reservation) option" where
  "try_reserve b bytes = try_reserve_cas b (in_flight b) bytes"

definition stage_add :: "nat \<Rightarrow> u64 \<Rightarrow> budget \<Rightarrow> budget" where
  "stage_add s n b = b\<lparr>stage_bytes := (stage_bytes b)(s := stage_bytes b s + n)\<rparr>"

definition stage_sub :: "nat \<Rightarrow> u64 \<Rightarrow> budget \<Rightarrow> budget" where
  "stage_sub s n b = b\<lparr>stage_bytes := (stage_bytes b)(s := stage_bytes b s - n)\<rparr>"

definition notify_waiters :: "budget \<Rightarrow> budget" where
  "notify_waiters b = b\<lparr>notified := Suc (notified b)\<rparr>"

definition attach_stage :: "nat \<Rightarrow> budget \<Rightarrow> reservation \<Rightarrow> budget \<times> reservation" where
  "attach_stage s b r =
     (let b1 = (case stage r of
                  Some prev \<Rightarrow> if 0 < held r then stage_sub prev (held r) b else b
                | None \<Rightarrow> b);
          b2 = (if 0 < held r then stage_add s (held r) b1 else b1)
      in (b2, r\<lparr>stage := Some s\<rparr>))"

definition reconcile :: "u64 \<Rightarrow> budget \<Rightarrow> reservation \<Rightarrow> budget \<times> reservation" where
  "reconcile actual b r =
     (if actual = held r then (b, r)
      else if actual < held r then
        (let delta = held r - actual;
             b1 = b\<lparr>in_flight := in_flight b - delta\<rparr>;
             b2 = (case stage r of Some s \<Rightarrow> stage_sub s delta b1 | None \<Rightarrow> b1)
         in (notify_waiters b2, r\<lparr>held := actual\<rparr>))
      else
        (let delta = actual - held r;
             b1 = b\<lparr>in_flight := in_flight b + delta\<rparr>;
             b2 = (case stage r of Some s \<Rightarrow> stage_add s delta b1 | None \<Rightarrow> b1)
         in (b2, r\<lparr>held := actual\<rparr>)))"

definition res_drop :: "budget \<Rightarrow> reservation \<Rightarrow> budget" where
  "res_drop b r =
     (if 0 < held r then
        (let b1 = (case stage r of Some s \<Rightarrow> stage_sub s (held r) b | None \<Rightarrow> b)
         in notify_waiters (b1\<lparr>in_flight := in_flight b1 - held r\<rparr>))
      else b)"

text \<open>The operations of a live reservation, uniformly: the reservation after it, or none.\<close>

datatype res_op = OpAttach nat | OpReconcile u64 | OpDrop

fun res_apply :: "budget \<Rightarrow> reservation \<Rightarrow> res_op \<Rightarrow> budget \<times> reservation option" where
  "res_apply b r (OpAttach s) = (let (b', r') = attach_stage s b r in (b', Some r'))"
| "res_apply b r (OpReconcile n) = (let (b', r') = reconcile n b r in (b', Some r'))"
| "res_apply b r OpDrop = (res_drop b r, None)"

datatype budget_event = EvReserve u64 | EvTryReserve u64 | EvRes nat res_op

definition replace_at :: "nat \<Rightarrow> 'a option \<Rightarrow> 'a list \<Rightarrow> 'a list" where
  "replace_at i x xs = (case x of Some y \<Rightarrow> xs[i := y] | None \<Rightarrow> take i xs @ drop (Suc i) xs)"

fun budget_apply :: "budget \<times> reservation list \<Rightarrow> budget_event \<Rightarrow> budget \<times> reservation list" where
  "budget_apply (b, rs) (EvReserve n) =
     (case reserve b n of Some (b', r) \<Rightarrow> (b', rs @ [r]) | None \<Rightarrow> (b, rs))"
| "budget_apply (b, rs) (EvTryReserve n) =
     (case try_reserve b n of Some (b', r) \<Rightarrow> (b', rs @ [r]) | None \<Rightarrow> (b, rs))"
| "budget_apply (b, rs) (EvRes i x) =
     (if i < length rs then
        (let (b', r') = res_apply b (rs ! i) x in (b', replace_at i r' rs))
      else (b, rs))"

definition stage_part :: "nat \<Rightarrow> reservation \<Rightarrow> u64" where
  "stage_part s r = (if stage r = Some s then held r else 0)"

definition held_total :: "reservation list \<Rightarrow> nat" where
  "held_total rs = sum_list (map (unat \<circ> held) rs)"

text \<open>
  One admission that goes through the loop of \<open>reserve\<close> while other tasks operate on the live
  reservations: it subscribes to the notifier, loads, tries the exchange, and parks when that fails.
\<close>

datatype waiter = Idle | Subscribed nat | Loaded nat u64 | Parked nat

record budget_sys =
  bs_budget :: budget
  bs_live :: "reservation list"
  bs_waiter :: waiter

inductive budget_step :: "u64 \<Rightarrow> budget_sys \<Rightarrow> budget_sys \<Rightarrow> bool" for bytes :: u64 where
  subscribe:
    "bs_waiter s = Idle \<Longrightarrow>
       budget_step bytes s (s\<lparr>bs_waiter := Subscribed (notified (bs_budget s))\<rparr>)"
| load:
    "bs_waiter s = Subscribed g \<Longrightarrow>
       budget_step bytes s (s\<lparr>bs_waiter := Loaded g (in_flight (bs_budget s))\<rparr>)"
| claim:
    "bs_waiter s = Loaded g cur \<Longrightarrow> reserve_cas (bs_budget s) cur bytes = Some (b', r) \<Longrightarrow>
       budget_step bytes s
         (s\<lparr>bs_budget := b', bs_live := bs_live s @ [r], bs_waiter := Idle\<rparr>)"
| park:
    "bs_waiter s = Loaded g cur \<Longrightarrow> reserve_cas (bs_budget s) cur bytes = None \<Longrightarrow>
       budget_step bytes s (s\<lparr>bs_waiter := Parked g\<rparr>)"
| wake:
    "bs_waiter s = Parked g \<Longrightarrow> notified (bs_budget s) \<noteq> g \<Longrightarrow>
       budget_step bytes s (s\<lparr>bs_waiter := Idle\<rparr>)"
| other:
    "budget_apply (bs_budget s, bs_live s) ev = (b', rs') \<Longrightarrow> held_total rs' < 2 ^ 64 \<Longrightarrow>
       budget_step bytes s (s\<lparr>bs_budget := b', bs_live := rs'\<rparr>)"

inductive budget_reach :: "u64 \<Rightarrow> u64 \<Rightarrow> budget_sys \<Rightarrow> bool" for cap :: u64 and bytes :: u64 where
  start: "budget_reach cap bytes \<lparr>bs_budget = budget_new src cap, bs_live = [], bs_waiter = Idle\<rparr>"
| step: "budget_reach cap bytes s \<Longrightarrow> budget_step bytes s t \<Longrightarrow> budget_reach cap bytes t"

section \<open>Counters that mirror the live reservations\<close>

text \<open>
  \<open>mirrored_counter\<close>: a counter of the budget and what one reservation contributes to it. The laws
  are one per way the program changes a reservation; the sum over the live ones then follows.
\<close>

locale mirrored_counter =
  fixes counter :: "budget \<Rightarrow> u64" and part :: "reservation \<Rightarrow> u64"
  assumes admit: "reserve_cas b cur n = Some (b', r) \<Longrightarrow> counter b' = counter b + part r"
    and try_admit: "try_reserve_cas b cur n = Some (b', r) \<Longrightarrow> counter b' = counter b + part r"
    and change: "res_apply b r x = (b', r') \<Longrightarrow>
      counter b' + part r = counter b + (case r' of Some q \<Rightarrow> part q | None \<Rightarrow> 0)"
begin

definition mirrors :: "budget \<times> reservation list \<Rightarrow> bool" where
  "mirrors w \<longleftrightarrow> counter (fst w) = sum_list (map part (snd w))"

lemma sum_replace:
  assumes "i < length rs"
  shows "sum_list (map part (replace_at i x rs)) + part (rs ! i) =
    sum_list (map part rs) + (case x of Some q \<Rightarrow> part q | None \<Rightarrow> 0)"
proof -
  have "rs = take i rs @ rs ! i # drop (Suc i) rs"
    using assms by (rule id_take_nth_drop)
  then have "sum_list (map part rs) =
      sum_list (map part (take i rs)) + part (rs ! i) + sum_list (map part (drop (Suc i) rs))"
    by (metis (no_types, lifting) add.assoc list.simps(9) map_append sum_list.Cons sum_list_append)
  then show ?thesis
    using assms by (simp add: replace_at_def upd_conv_take_nth_drop split: option.split)
qed

lemma mirrors_apply: "mirrors (b, rs) \<Longrightarrow> mirrors (budget_apply (b, rs) ev)"
proof (cases ev)
  case (EvRes i x)
  assume m: "mirrors (b, rs)"
  show ?thesis
  proof (cases "i < length rs")
    case True
    obtain b' r' where r: "res_apply b (rs ! i) x = (b', r')" by fastforce
    have "counter b' + part (rs ! i) = sum_list (map part (replace_at i r' rs)) + part (rs ! i)"
      using change [OF r] sum_replace [OF True, of r'] m by (simp add: mirrors_def)
    then show ?thesis
      using EvRes True r by (simp add: mirrors_def)
  qed (use m EvRes in simp)
qed (auto simp: mirrors_def reserve_def try_reserve_def admit try_admit split: option.split)

lemma mirrors_fold: "mirrors w \<Longrightarrow> mirrors (fold (\<lambda>ev w. budget_apply w ev) evs w)"
proof (induction evs arbitrary: w)
  case (Cons ev evs)
  then show ?case using mirrors_apply by (cases w) simp
qed simp

end

lemma stage_change_simps [simp]:
  "in_flight (stage_add s n b) = in_flight b" "in_flight (stage_sub s n b) = in_flight b"
  "capacity (stage_add s n b) = capacity b" "capacity (stage_sub s n b) = capacity b"
  "notified (stage_add s n b) = notified b" "notified (stage_sub s n b) = notified b"
  "stage_bytes (stage_add s n b) = (stage_bytes b)(s := stage_bytes b s + n)"
  "stage_bytes (stage_sub s n b) = (stage_bytes b)(s := stage_bytes b s - n)"
  by (simp_all add: stage_add_def stage_sub_def)

lemma notify_simps [simp]:
  "in_flight (notify_waiters b) = in_flight b" "capacity (notify_waiters b) = capacity b"
  "stage_bytes (notify_waiters b) = stage_bytes b" "notified (notify_waiters b) = Suc (notified b)"
  by (simp_all add: notify_waiters_def)

lemma word_not_pos_zero: "\<not> 0 < w \<longleftrightarrow> w = 0" for w :: u64
  using word_neq_0_conv [of w] by blast

lemmas budget_op_defs = attach_stage_def reconcile_def res_drop_def Let_def

interpretation flight: mirrored_counter in_flight held
proof
  fix b b' r r' x
  assume "res_apply b r x = (b', r')"
  then show "in_flight b' + held r = in_flight b + (case r' of Some q \<Rightarrow> held q | None \<Rightarrow> 0)"
    by (cases x) (auto simp: budget_op_defs word_not_pos_zero split: option.splits if_splits)
qed (auto simp: reserve_cas_def try_reserve_cas_def checked_add_def split: if_splits option.splits)

interpretation stg: mirrored_counter "\<lambda>b. stage_bytes b s" "stage_part s" for s
proof
  fix b b' r r' x
  assume "res_apply b r x = (b', r')"
  then show "stage_bytes b' s + stage_part s r =
      stage_bytes b s + (case r' of Some q \<Rightarrow> stage_part s q | None \<Rightarrow> 0)"
    by (cases x)
      (auto simp: budget_op_defs stage_part_def word_not_pos_zero split: option.splits if_splits)
qed (auto simp: reserve_cas_def try_reserve_cas_def stage_part_def split: if_splits option.splits)

section \<open>Admission\<close>

lemma try_reserve_Some_iff:
  "try_reserve b n = Some (b', r) \<longleftrightarrow>
     (n = 0 \<or> unat (in_flight b) + unat n \<le> unat (capacity b)) \<and>
     b' = b\<lparr>in_flight := in_flight b + n\<rparr> \<and> r = \<lparr>held = n, stage = None\<rparr>"
proof -
  have "capacity b < in_flight b + n \<longleftrightarrow> unat (capacity b) < unat (in_flight b) + unat n"
    if "unat (in_flight b) + unat n < 2 ^ 64"
    using that by (simp add: word_less_nat_alt word_to_nat)
  moreover have "\<not> unat (in_flight b) + unat n \<le> unat (capacity b)"
    if "\<not> unat (in_flight b) + unat n < 2 ^ 64"
    using that unat_bound_len [of "capacity b"] by simp
  ultimately show ?thesis
    by (auto simp: try_reserve_def try_reserve_cas_def checked_add_def not_less)
qed

lemma try_reserve_None_iff:
  "try_reserve b n = None \<longleftrightarrow> n \<noteq> 0 \<and> unat (capacity b) < unat (in_flight b) + unat n"
proof -
  have "try_reserve b n = None \<longleftrightarrow> (\<nexists>b' r. try_reserve b n = Some (b', r))"
    by (cases "try_reserve b n") auto
  then show ?thesis by (simp add: try_reserve_Some_iff not_le)
qed

lemma reserve_eq_try_reserve:
  assumes "capacity b \<noteq> - 1"
  shows "reserve b n = try_reserve b n"
proof -
  have "\<not> saturating_add (in_flight b) n \<le> capacity b"
    if "\<not> unat (in_flight b) + unat n < 2 ^ 64"
    using that assms u64_max_le by (auto simp: saturating_add_def)
  then show ?thesis
    by (auto simp: reserve_def reserve_cas_def try_reserve_def try_reserve_cas_def checked_add_def
        saturating_add_def not_less)
qed

lemma held_total_simps [simp]:
  "held_total [] = 0" "held_total (r # rs) = unat (held r) + held_total rs"
  "held_total (rs @ rs') = held_total rs + held_total rs'"
  by (simp_all add: held_total_def)

lemma unat_sum_held:
  "held_total rs < 2 ^ 64 \<Longrightarrow> unat (sum_list (map held rs)) = held_total rs"
proof (induction rs)
  case (Cons r rs)
  then show ?case by (simp add: word_to_nat)
qed simp

text \<open>
  C9. Every counter is exact: after any interleaving of blocking and non-blocking reservations, stage
  changes, reconciliations and drops, \<open>in_flight\<close> is the sum of what the live reservations hold
  and every stage gauge is the sum over the reservations attached to that stage (modulo the width of
  the atomics), so that nothing leaks once all reservations are dropped.
\<close>

theorem budget_counters_exact:
  "case fold (\<lambda>ev w. budget_apply w ev) evs (budget_new src cap, []) of
     (b, rs) \<Rightarrow> in_flight b = sum_list (map held rs) \<and>
       (\<forall>s. stage_bytes b s = sum_list (map held [r \<leftarrow> rs. stage r = Some s])) \<and>
       (held_total rs < 2 ^ 64 \<longrightarrow> unat (in_flight b) = held_total rs)"
proof -
  obtain b rs where w: "fold (\<lambda>ev w. budget_apply w ev) evs (budget_new src cap, []) = (b, rs)"
    by fastforce
  have "flight.mirrors (b, rs)"
    using flight.mirrors_fold [of "(budget_new src cap, [])" evs] w
    by (simp add: flight.mirrors_def budget_new_def)
  moreover have "stg.mirrors s (b, rs)" for s
    using stg.mirrors_fold [of s "(budget_new src cap, [])" evs] w
    by (simp add: stg.mirrors_def budget_new_def)
  moreover have "sum_list (map (stage_part s) rs) = sum_list (map held [r \<leftarrow> rs. stage r = Some s])" for s
    by (induction rs) (auto simp: stage_part_def)
  ultimately show ?thesis
    using w unat_sum_held by (simp add: flight.mirrors_def stg.mirrors_def)
qed

theorem budget_counters_exact_witness:
  "case fold (\<lambda>ev w. budget_apply w ev)
      [EvReserve 60, EvTryReserve 30, EvRes 0 (OpAttach 1), EvRes 0 (OpReconcile 90), EvRes 1 OpDrop]
      (budget_new (SourceId ''s'') 100, []) of
     (b, rs) \<Rightarrow> in_flight b = 90 \<and> stage_bytes b 1 = 90 \<and> unat (in_flight b) = held_total rs"
proof -
  let ?w = "fold (\<lambda>ev w. budget_apply w ev)
      [EvReserve 60, EvTryReserve 30, EvRes 0 (OpAttach 1), EvRes 0 (OpReconcile 90), EvRes 1 OpDrop]
      (budget_new (SourceId ''s'') 100, [])"
  have rs: "snd ?w = [\<lparr>held = 90, stage = Some 1\<rparr>]"
    by code_simp
  obtain b where w: "?w = (b, [\<lparr>held = 90, stage = Some 1\<rparr>])"
    using rs by (metis prod.collapse)
  show ?thesis
    using budget_counters_exact [of "[EvReserve 60, EvTryReserve 30, EvRes 0 (OpAttach 1),
        EvRes 0 (OpReconcile 90), EvRes 1 OpDrop]" "SourceId ''s''" 100]
    unfolding w by simp
qed

text \<open>
  C10. Admission is exact: a reservation of a positive size is granted precisely when it fits under the
  capacity next to what is in flight, and then exactly that many bytes are added. For a capacity
  below \<open>u64::MAX\<close> the blocking and the non-blocking variant grant the same requests.
\<close>

theorem admission_exact:
  assumes cap: "capacity b \<noteq> - 1" and pos: "0 < n"
  shows "reserve b n = try_reserve b n \<and>
    (try_reserve b n = None \<longleftrightarrow> unat (capacity b) < unat (in_flight b) + unat n) \<and>
    (\<forall>b' r. try_reserve b n = Some (b', r) \<longrightarrow>
       unat (in_flight b') = unat (in_flight b) + unat n \<and> in_flight b' \<le> capacity b
       \<and> capacity b' = capacity b \<and> held r = n \<and> res_drop b' r = b\<lparr>notified := Suc (notified b)\<rparr>)"
proof (intro conjI allI impI)
  have nz: "n \<noteq> 0" using pos by auto
  show "reserve b n = try_reserve b n"
    by (rule reserve_eq_try_reserve [OF cap])
  show "try_reserve b n = None \<longleftrightarrow> unat (capacity b) < unat (in_flight b) + unat n"
    using nz by (simp add: try_reserve_None_iff)
  fix b' r
  assume "try_reserve b n = Some (b', r)"
  then have le: "unat (in_flight b) + unat n \<le> unat (capacity b)"
    and b': "b' = b\<lparr>in_flight := in_flight b + n\<rparr>" and r: "r = \<lparr>held = n, stage = None\<rparr>"
    using nz by (simp_all add: try_reserve_Some_iff)
  have eq: "unat (in_flight b + n) = unat (in_flight b) + unat n"
    using le unat_bound_len [of "capacity b"] by (intro unat_add_small) simp
  show "unat (in_flight b') = unat (in_flight b) + unat n" "in_flight b' \<le> capacity b"
    "capacity b' = capacity b" "held r = n" "res_drop b' r = b\<lparr>notified := Suc (notified b)\<rparr>"
    using pos le eq by (simp_all add: b' r word_le_nat_alt res_drop_def notify_waiters_def)
qed

theorem admission_exact_witness:
  "try_reserve (budget_new (SourceId ''s'') 100) 101 = None \<and>
   reserve (budget_new (SourceId ''s'') 100) 100 = try_reserve (budget_new (SourceId ''s'') 100) 100"
  using admission_exact [of "budget_new (SourceId ''s'') 100" 101]
    admission_exact [of "budget_new (SourceId ''s'') 100" 100]
  by (simp add: budget_new_def)

section \<open>No lost wake-up\<close>

definition waiter_inv :: "u64 \<Rightarrow> budget \<Rightarrow> waiter \<Rightarrow> bool" where
  "waiter_inv bytes b w =
     (case w of
        Idle \<Rightarrow> True
      | Subscribed g \<Rightarrow> g \<le> notified b
      | Loaded g cur \<Rightarrow> g \<le> notified b \<and> (notified b = g \<longrightarrow> cur \<le> in_flight b)
      | Parked g \<Rightarrow>
          g \<le> notified b \<and> (notified b = g \<longrightarrow> in_flight b \<noteq> 0 \<or> capacity b < bytes))"

definition sys_inv :: "u64 \<Rightarrow> u64 \<Rightarrow> budget_sys \<Rightarrow> bool" where
  "sys_inv cap bytes s =
     (flight.mirrors (bs_budget s, bs_live s) \<and> held_total (bs_live s) < 2 ^ 64 \<and>
      capacity (bs_budget s) = cap \<and> waiter_inv bytes (bs_budget s) (bs_waiter s))"

lemma apply_capacity: "budget_apply (b, rs) ev = (b', rs') \<Longrightarrow> capacity b' = capacity b"
proof (cases ev)
  case (EvRes i x)
  assume "budget_apply (b, rs) ev = (b', rs')"
  with EvRes show ?thesis
    by (cases x) (auto simp: budget_op_defs split: if_splits option.splits)
qed (auto simp: reserve_def reserve_cas_def try_reserve_def try_reserve_cas_def
    split: option.splits if_splits)

lemma notified_mono: "budget_apply (b, rs) ev = (b', rs') \<Longrightarrow> notified b \<le> notified b'"
proof (cases ev)
  case (EvRes i x)
  assume "budget_apply (b, rs) ev = (b', rs')"
  with EvRes show ?thesis
    by (cases x) (auto simp: budget_op_defs split: if_splits option.splits)
qed (auto simp: reserve_def reserve_cas_def try_reserve_def try_reserve_cas_def
    split: option.splits if_splits)

lemma held_total_replace:
  assumes "i < length rs"
  shows "held_total (replace_at i x rs) + unat (held (rs ! i)) =
    held_total rs + (case x of Some q \<Rightarrow> unat (held q) | None \<Rightarrow> 0)"
proof -
  have rs: "rs = take i rs @ rs ! i # drop (Suc i) rs"
    using assms by (rule id_take_nth_drop)
  have "held_total rs = held_total (take i rs) + unat (held (rs ! i)) + held_total (drop (Suc i) rs)"
    by (subst rs) simp
  then show ?thesis
    using assms by (simp add: replace_at_def upd_conv_take_nth_drop split: option.split)
qed

lemma res_apply_quiet:
  assumes "res_apply b r x = (b', r')" "notified b' = notified b"
  shows "unat (held r) \<le> (case r' of Some q \<Rightarrow> unat (held q) | None \<Rightarrow> 0)"
  using assms
  by (cases x) (auto simp: budget_op_defs word_le_nat_alt [symmetric] word_not_pos_zero not_less
      split: if_splits option.splits)

lemma apply_quiet_grows:
  assumes ev: "budget_apply (b, rs) ev = (b', rs')" and quiet: "notified b' = notified b"
  shows "held_total rs \<le> held_total rs'"
proof (cases ev)
  case (EvRes i x)
  show ?thesis
  proof (cases "i < length rs")
    case True
    obtain d r' where r: "res_apply b (rs ! i) x = (d, r')" by fastforce
    then have "d = b'" "rs' = replace_at i r' rs"
      using ev EvRes True by simp_all
    then show ?thesis
      using res_apply_quiet [OF r] quiet held_total_replace [OF True, of r'] by simp
  qed (use ev EvRes in simp)
qed (use ev in \<open>auto split: option.splits\<close>)

lemma mirrors_unat:
  "flight.mirrors (b, rs) \<Longrightarrow> held_total rs < 2 ^ 64 \<Longrightarrow> unat (in_flight b) = held_total rs"
  by (simp add: flight.mirrors_def unat_sum_held)

lemma reserve_cas_facts:
  assumes "reserve_cas b cur n = Some (b', r)" "capacity b \<noteq> - 1"
  shows "n \<noteq> 0 \<longrightarrow> unat (in_flight b) + unat n < 2 ^ 64" "held r = n" "capacity b' = capacity b"
    "stage r = None"
proof -
  have "saturating_add cur n \<noteq> - 1" if "saturating_add cur n \<le> capacity b"
    using that assms(2) u64_max_le by metis
  then show "n \<noteq> 0 \<longrightarrow> unat (in_flight b) + unat n < 2 ^ 64" "held r = n" "capacity b' = capacity b"
    "stage r = None"
    using assms(1) by (auto simp: reserve_cas_def saturating_add_def split: if_splits)
qed

lemma sys_inv_step:
  assumes inv: "sys_inv cap bytes s" and cap: "cap \<noteq> - 1" and step: "budget_step bytes s t"
  shows "sys_inv cap bytes t"
  using step
proof (cases rule: budget_step.cases)
  case (claim g cur b' r)
  have "in_flight b' = in_flight (bs_budget s) + held r"
    by (rule flight.admit [OF claim(3)])
  moreover have "held_total (bs_live s) = unat (in_flight (bs_budget s))"
    using inv mirrors_unat [of "bs_budget s" "bs_live s"] by (simp add: sys_inv_def)
  ultimately show ?thesis
    using reserve_cas_facts [OF claim(3)] inv cap unat_bound_len [of bytes] claim(1)
    by (cases "bytes = 0") (auto simp: sys_inv_def flight.mirrors_def waiter_inv_def)
next
  case (park g cur)
  have "in_flight (bs_budget s) \<noteq> 0 \<or> cap < bytes"
    if "notified (bs_budget s) = g"
  proof (rule ccontr)
    assume "\<not> ?thesis"
    then have fl: "in_flight (bs_budget s) = 0" "bytes \<le> cap" by (simp_all add: not_less)
    then have "cur = 0"
      using inv park(2) that by (simp add: sys_inv_def waiter_inv_def)
    then have "saturating_add cur bytes = bytes"
      using unat_bound_len [of bytes] by (simp add: saturating_add_def)
    then show False
      using park(3) fl inv \<open>cur = 0\<close> by (auto simp: reserve_cas_def sys_inv_def split: if_splits)
  qed
  then show ?thesis
    using inv park(1,2) by (simp add: sys_inv_def waiter_inv_def)
next
  case (other ev b' rs')
  have m: "flight.mirrors (b', rs')"
    using flight.mirrors_apply [of "bs_budget s" "bs_live s" ev] other(2) inv
    by (simp add: sys_inv_def)
  have "in_flight (bs_budget s) \<le> in_flight b'" if "notified b' = notified (bs_budget s)"
    using apply_quiet_grows [OF other(2) that] mirrors_unat [OF m other(3)]
      mirrors_unat [of "bs_budget s" "bs_live s"] inv
    by (simp add: sys_inv_def word_le_nat_alt)
  then show ?thesis
    using inv m other apply_capacity [OF other(2)] notified_mono [OF other(2)]
    by (cases "bs_waiter s") (auto simp: sys_inv_def waiter_inv_def)
qed (use inv in \<open>simp_all add: sys_inv_def waiter_inv_def\<close>)

lemma sys_inv_reach: "budget_reach cap bytes s \<Longrightarrow> cap \<noteq> - 1 \<Longrightarrow> sys_inv cap bytes s"
proof (induction rule: budget_reach.induct)
  case (start src)
  then show ?case
    by (simp add: sys_inv_def flight.mirrors_def budget_new_def waiter_inv_def)
next
  case (step s t)
  then show ?case using sys_inv_step by blast
qed

lemma sum_list_pos:
  "sum_list (map held rs) \<noteq> 0 \<Longrightarrow> \<exists>i < length rs. 0 < held (rs ! i)"
proof (induction rs)
  case (Cons r rs)
  show ?case
  proof (cases "held r = 0")
    case True
    then show ?thesis using Cons by fastforce
  next
    case False
    then show ?thesis using word_neq_0_conv [of "held r"] by fastforce
  qed
qed simp

text \<open>
  C11. No wake-up is lost: in every state that an admission reaches while other tasks reserve,
  reconcile and drop concurrently, a parked request that fits the capacity either has been notified
  already, so that it can run again, or some live reservation still holds bytes, and dropping that
  reservation wakes it.
\<close>

theorem parked_reserve_not_stranded:
  assumes reach: "budget_reach cap bytes s" and cap: "cap \<noteq> - 1" "bytes \<le> cap"
    and parked: "bs_waiter s = Parked g"
  shows "(\<exists>t. budget_step bytes s t \<and> bs_waiter t = Idle) \<or>
    (\<exists>i < length (bs_live s). 0 < held (bs_live s ! i) \<and>
       (\<exists>t u. budget_step bytes s t \<and> bs_live t = replace_at i None (bs_live s) \<and>
              budget_step bytes t u \<and> bs_waiter u = Idle))"
proof (cases "notified (bs_budget s) = g")
  case False
  then show ?thesis
    using budget_step.wake [OF parked False, of bytes]
    by (intro disjI1 exI [of _ "s\<lparr>bs_waiter := Idle\<rparr>"]) simp
next
  case True
  note inv = sys_inv_reach [OF reach cap(1)]
  have "in_flight (bs_budget s) \<noteq> 0"
    using inv parked True cap(2) by (auto simp: sys_inv_def waiter_inv_def)
  then obtain i where i: "i < length (bs_live s)" "0 < held (bs_live s ! i)"
    using inv sum_list_pos by (auto simp: sys_inv_def flight.mirrors_def)
  let ?b = "res_drop (bs_budget s) (bs_live s ! i)" and ?rs = "replace_at i None (bs_live s)"
  let ?t = "s\<lparr>bs_budget := ?b, bs_live := ?rs\<rparr>"
  have "budget_apply (bs_budget s, bs_live s) (EvRes i OpDrop) = (?b, ?rs)"
    using i(1) by simp
  moreover have "held_total ?rs < 2 ^ 64"
    using held_total_replace [OF i(1), of None] inv by (simp add: sys_inv_def)
  ultimately have "budget_step bytes s ?t"
    by (rule budget_step.other)
  moreover have "notified ?b \<noteq> g"
    using True i(2) by (auto simp: res_drop_def Let_def split: option.splits)
  then have "budget_step bytes ?t (?t\<lparr>bs_waiter := Idle\<rparr>)"
    using parked by (intro budget_step.wake [where g = g]) simp_all
  ultimately show ?thesis
    using i
    by (intro disjI2 exI [of _ i] conjI exI [of _ ?t] exI [of _ "?t\<lparr>bs_waiter := Idle\<rparr>"]) simp_all
qed

lemma parked_example:
  "\<exists>b. budget_reach 10 8 \<lparr>bs_budget = b, bs_live = [\<lparr>held = 5, stage = None\<rparr>], bs_waiter = Parked 0\<rparr>"
proof -
  let ?init = "\<lparr>bs_budget = budget_new (SourceId ''s'') 10, bs_live = [], bs_waiter = Idle\<rparr>"
  let ?b = "(budget_new (SourceId ''s'') 10)\<lparr>in_flight := 5\<rparr>"
  let ?s = "\<lambda>w. \<lparr>bs_budget = ?b, bs_live = [\<lparr>held = 5, stage = None\<rparr>], bs_waiter = w\<rparr>"
  have "budget_reach 10 8 ?init" by (rule budget_reach.start)
  moreover have "budget_step 8 ?init (?s Idle)"
    using budget_step.other [of ?init "EvReserve 5" ?b "[\<lparr>held = 5, stage = None\<rparr>]" 8]
    by (simp add: reserve_def reserve_cas_def budget_new_def saturating_add_def)
  moreover have "budget_step 8 (?s Idle) (?s (Subscribed 0))"
    using budget_step.subscribe [of "?s Idle" 8] by (simp add: budget_new_def)
  moreover have "budget_step 8 (?s (Subscribed 0)) (?s (Loaded 0 5))"
    using budget_step.load [of "?s (Subscribed 0)" 0 8] by simp
  moreover have "budget_step 8 (?s (Loaded 0 5)) (?s (Parked 0))"
    using budget_step.park [of "?s (Loaded 0 5)" 0 5 8]
    by (simp add: reserve_cas_def budget_new_def saturating_add_def)
  ultimately show ?thesis
    using budget_reach.step by blast
qed

theorem parked_reserve_not_stranded_witness:
  "\<exists>s. budget_reach 10 8 s \<and> bs_waiter s = Parked 0 \<and>
     ((\<exists>t. budget_step 8 s t \<and> bs_waiter t = Idle) \<or>
      (\<exists>i < length (bs_live s). 0 < held (bs_live s ! i) \<and>
         (\<exists>t u. budget_step 8 s t \<and> bs_live t = replace_at i None (bs_live s) \<and>
                budget_step 8 t u \<and> bs_waiter u = Idle)))"
proof -
  obtain b where r: "budget_reach 10 8 \<lparr>bs_budget = b, bs_live = [\<lparr>held = 5, stage = None\<rparr>], bs_waiter = Parked 0\<rparr>"
    using parked_example by blast
  have "(10 :: u64) \<noteq> - 1" "(8 :: u64) \<le> 10" by simp_all
  from parked_reserve_not_stranded [OF r this, of 0] r show ?thesis
    by fastforce
qed

end
