(* ===== verification/Buffer_Source.thy ===== *)
theory Buffer_Source
  imports Runtime_Types
begin

text \<open>
  The buffer source (\<open>source.rs\<close>): attaching the buffer's per-range metadata to each entry,
  descriptors, the fetch handle, and the two-level acknowledgement (in memory by \<open>ack_through\<close>,
  durable by \<open>flush_acks\<close>). The \<open>buffer\<close> crate is a parameter: \<open>consumer_ops\<close>
  holds the calls this repository makes on a consumer whose state is of type \<open>'k\<close>.
\<close>

section \<open>Definitions\<close>

record 'k consumer_ops =
  co_next_descriptors :: "nat \<Rightarrow> 'k \<Rightarrow> (string + batch_descriptor list) \<times> 'k"
  co_ack_through :: "u64 \<Rightarrow> 'k \<Rightarrow> (string + unit) \<times> 'k"
  co_len :: "'k \<Rightarrow> nat"
  co_fetch :: "batch_descriptor \<Rightarrow> string + consumed_batch"

record source_budget_arg =
  bytes_remaining :: u64
  batches_remaining :: u32

function advance_range :: "buf_metadata list \<Rightarrow> u32 \<Rightarrow> nat \<Rightarrow> nat" where
  "advance_range metadata entry_idx range_idx =
     (if range_idx + 1 < length metadata \<and> start_index (metadata ! (range_idx + 1)) \<le> entry_idx
      then advance_range metadata entry_idx (range_idx + 1)
      else range_idx)"
  by pat_completeness auto
termination
  by (relation "measure (\<lambda>(md, _, k). length md - k)") auto

declare advance_range.simps [simp del]

definition range_fields :: "buf_metadata list \<Rightarrow> nat \<Rightarrow> bytes \<times> i64" where
  "range_fields metadata k =
     (if k < length metadata
      then (bm_payload (metadata ! k), bm_ingestion_time_ms (metadata ! k))
      else ([], 0))"

fun split_entries :: "buf_metadata list \<Rightarrow> nat \<Rightarrow> nat \<Rightarrow> bytes list \<Rightarrow> source_entry list" where
  "split_entries metadata i range_idx [] = []"
| "split_entries metadata i range_idx (payload # rest) =
     (let entry_idx = word_of_nat i;
          k = advance_range metadata entry_idx range_idx;
          (meta, ingest_ms) = range_fields metadata k
      in \<lparr>entry_index = entry_idx, raw_bytes = payload, raw_metadata = meta,
          se_ingestion_time_ms = ingest_ms\<rparr> # split_entries metadata (Suc i) k rest)"

definition split_into_raw_entries :: "consumed_batch \<Rightarrow> source_id \<Rightarrow> string \<Rightarrow> source_batch" where
  "split_into_raw_entries batch source path =
     \<lparr>sb_source = source, sb_sequence = cb_sequence batch, sb_manifest_path = path,
      sb_data_object_path = cb_location batch,
      sb_entries = split_entries (cb_metadata batch) 0 0 (cb_entries batch)\<rparr>"

record fetch_handle =
  fh_source :: source_id
  fh_manifest_path :: string

definition handle_fetch ::
  "'k consumer_ops \<Rightarrow> fetch_handle \<Rightarrow> source_batch_descriptor \<Rightarrow> runtime_error + source_batch" where
  "handle_fetch ops h d =
     (case co_fetch ops \<lparr>bd_sequence = sd_sequence d, bd_location = sd_location d,
                         bd_metadata = sd_buffer_metadata d\<rparr> of
        Inl e \<Rightarrow> Inl (ErrSource e)
      | Inr consumed \<Rightarrow> Inr (split_into_raw_entries consumed (fh_source h) (fh_manifest_path h)))"

record 'k buffer_source =
  src_id :: source_id
  src_consumer :: 'k
  src_manifest_path :: string
  last_acked :: "u64 option"
  pending_durable_ack :: "u64 option"

definition source_new :: "'k \<Rightarrow> source_id \<Rightarrow> string \<Rightarrow> u64 option \<Rightarrow> 'k buffer_source" where
  "source_new consumer i path last_acked_sequence =
     \<lparr>src_id = i, src_consumer = consumer, src_manifest_path = path,
      last_acked = last_acked_sequence, pending_durable_ack = None\<rparr>"

definition source_pending_count :: "'k consumer_ops \<Rightarrow> 'k buffer_source \<Rightarrow> nat" where
  "source_pending_count ops s = co_len ops (src_consumer s)"

definition describe :: "source_id \<Rightarrow> batch_descriptor \<Rightarrow> source_batch_descriptor" where
  "describe i d =
     \<lparr>sd_source = i, sd_sequence = bd_sequence d, sd_location = bd_location d,
      sd_per_range_metadata =
        map (\<lambda>m. \<lparr>rm_raw_metadata = bm_payload m, rm_ingestion_time_ms = bm_ingestion_time_ms m\<rparr>)
          (bd_metadata d),
      sd_buffer_metadata = bd_metadata d\<rparr>"

definition next_descriptors ::
  "'k consumer_ops \<Rightarrow> nat \<Rightarrow> source_budget_arg \<Rightarrow> 'k buffer_source \<Rightarrow>
   (runtime_error + source_batch_descriptor list) \<times> 'k buffer_source" where
  "next_descriptors ops n budget s =
     (case co_next_descriptors ops n (src_consumer s) of
        (Inl e, k) \<Rightarrow> (Inl (ErrSource e), s\<lparr>src_consumer := k\<rparr>)
      | (Inr raw, k) \<Rightarrow> (Inr (map (describe (src_id s)) raw), s\<lparr>src_consumer := k\<rparr>))"

definition source_fetch_handle :: "'k buffer_source \<Rightarrow> fetch_handle" where
  "source_fetch_handle s = \<lparr>fh_source = src_id s, fh_manifest_path = src_manifest_path s\<rparr>"

definition ack_through :: "u64 \<Rightarrow> 'k buffer_source \<Rightarrow> 'k buffer_source" where
  "ack_through sequence s =
     s\<lparr>pending_durable_ack := Some sequence, last_acked := Some sequence\<rparr>"

definition flush_acks ::
  "'k consumer_ops \<Rightarrow> 'k buffer_source \<Rightarrow> (runtime_error + unit) \<times> 'k buffer_source" where
  "flush_acks ops s =
     (case pending_durable_ack s of
        None \<Rightarrow> (Inr (), s)
      | Some seq \<Rightarrow>
          (case co_ack_through ops seq (src_consumer s) of
             (Inr _, k) \<Rightarrow> (Inr (), s\<lparr>pending_durable_ack := None, src_consumer := k\<rparr>)
           | (Inl e, k) \<Rightarrow>
               (Inl (ErrSource e), s\<lparr>pending_durable_ack := Some seq, src_consumer := k\<rparr>)))"

text \<open>Reference: the range that covers an entry, and what the consumer was told durably.\<close>

definition covering :: "buf_metadata list \<Rightarrow> u32 \<Rightarrow> buf_metadata option" where
  "covering metadata e =
     (case [m \<leftarrow> metadata. start_index m \<le> e] of
        [] \<Rightarrow> (case metadata of [] \<Rightarrow> None | m # _ \<Rightarrow> Some m)
      | ms \<Rightarrow> Some (last ms))"

datatype source_event = SrcAck u64 | SrcFlush

definition durable_call :: "'k consumer_ops \<Rightarrow> 'k buffer_source \<Rightarrow> u64 list" where
  "durable_call ops s =
     (case pending_durable_ack s of
        None \<Rightarrow> []
      | Some seq \<Rightarrow> if is_ok (fst (co_ack_through ops seq (src_consumer s))) then [seq] else [])"

fun source_run ::
  "'k consumer_ops \<Rightarrow> 'k buffer_source \<Rightarrow> source_event list \<Rightarrow> 'k buffer_source \<times> u64 list" where
  "source_run ops s [] = (s, [])"
| "source_run ops s (SrcAck seq # es) = source_run ops (ack_through seq s) es"
| "source_run ops s (SrcFlush # es) =
     (let (s', log) = source_run ops (snd (flush_acks ops s)) es in (s', durable_call ops s @ log))"

definition acks_of :: "source_event list \<Rightarrow> u64 list" where
  "acks_of es = concat (map (\<lambda>e. case e of SrcAck q \<Rightarrow> [q] | SrcFlush \<Rightarrow> []) es)"

section \<open>Metadata ranges\<close>

lemma advance_range_last:
  assumes "sorted (map start_index metadata)" "k < length metadata"
    and "k = 0 \<or> start_index (metadata ! k) \<le> e"
  shows "advance_range metadata e k = length [m \<leftarrow> metadata. start_index m \<le> e] - 1"
  using assms
proof (induction metadata e k rule: advance_range.induct)
  case (1 metadata e k)
  let ?n = "length [m \<leftarrow> metadata. start_index m \<le> e]"
  note nth = sorted_filter_nth [OF 1(2), where e = e]
  show ?case
  proof (cases "k + 1 < length metadata \<and> start_index (metadata ! (k + 1)) \<le> e")
    case True
    then show ?thesis
      using 1 by (simp add: advance_range.simps [of metadata e k])
  next
    case False
    then have "?n \<le> k + 1"
      using nth [of "k + 1"] length_filter_le [of "\<lambda>m. start_index m \<le> e" metadata] by linarith
    moreover have "k = 0 \<or> k < ?n"
      using 1(3,4) nth by blast
    ultimately show ?thesis
      using False by (subst advance_range.simps) auto
  qed
qed

lemma advance_range_empty [simp]: "advance_range [] e 0 = 0"
  by (simp add: advance_range.simps)

lemma range_fields_covering:
  assumes "sorted (map start_index metadata)"
  shows "range_fields metadata (length [m \<leftarrow> metadata. start_index m \<le> e] - 1) =
    (case covering metadata e of
       None \<Rightarrow> ([], 0) | Some m \<Rightarrow> (bm_payload m, bm_ingestion_time_ms m))"
proof -
  obtain f where f: "f = [m \<leftarrow> metadata. start_index m \<le> e]" by blast
  have len: "length f \<le> length metadata" by (simp add: f)
  show ?thesis
  proof (cases "f = []")
    case True
    then show ?thesis
      by (simp add: covering_def range_fields_def flip: f) (cases metadata; simp)
  next
    case False
    have "last f = last (take (length f) metadata)"
      using sorted_filter_take [OF assms, of e] by (simp add: f)
    also have "\<dots> = metadata ! (length f - 1)"
      using False len by (subst last_conv_nth) (auto simp: min_def)
    finally have "last f = metadata ! (length f - 1)" .
    moreover have "length f - 1 < length metadata"
      using False len by (cases f) auto
    ultimately show ?thesis
      using False by (cases f) (auto simp: covering_def range_fields_def simp flip: f)
  qed
qed

definition covered_entry :: "buf_metadata list \<Rightarrow> u32 \<Rightarrow> bytes \<Rightarrow> source_entry" where
  "covered_entry metadata e payload =
     (let (meta, ms) = (case covering metadata e of
                          None \<Rightarrow> ([], 0) | Some m \<Rightarrow> (bm_payload m, bm_ingestion_time_ms m))
      in \<lparr>entry_index = e, raw_bytes = payload, raw_metadata = meta, se_ingestion_time_ms = ms\<rparr>)"

lemma split_entries_covering:
  assumes md: "sorted (map start_index metadata)" and fits: "i + length entries \<le> 2 ^ 32"
    and k: "k = 0 \<or> k < length metadata \<and> start_index (metadata ! k) \<le> word_of_nat i"
  shows "split_entries metadata i k entries =
    map2 (\<lambda>j. covered_entry metadata (word_of_nat j)) [i..<i + length entries] entries"
  using fits k
proof (induction entries arbitrary: i k)
  case (Cons payload rest)
  let ?e = "word_of_nat i :: u32"
  let ?k = "length [m \<leftarrow> metadata. start_index m \<le> ?e] - 1"
  have adv: "advance_range metadata ?e k = ?k"
    using advance_range_last [OF md, of k ?e] Cons.prems(2) by (cases "metadata = []") auto
  have "?k = 0 \<or> ?k < length metadata \<and> start_index (metadata ! ?k) \<le> word_of_nat (Suc i)"
    if "rest \<noteq> []"
  proof -
    have "?e \<le> word_of_nat (Suc i)"
      using Cons.prems(1) that
      by (cases rest) (simp_all add: word_le_nat_alt unat_of_nat take_bit_nat_eq_self del: of_nat_Suc)
    moreover have "?k = 0 \<or> ?k < length metadata \<and> start_index (metadata ! ?k) \<le> ?e"
      using sorted_filter_nth [OF md, of ?k ?e]
        length_filter_le [of "\<lambda>m. start_index m \<le> ?e" metadata] by linarith
    ultimately show ?thesis by auto
  qed
  then have "split_entries metadata (Suc i) ?k rest =
      map2 (\<lambda>j. covered_entry metadata (word_of_nat j)) [Suc i..<Suc i + length rest] rest"
    using Cons.IH [of "Suc i" ?k] Cons.prems(1) by (cases "rest = []") auto
  then show ?case
    using range_fields_covering [OF md, of ?e]
    by (simp add: adv covered_entry_def upt_conv_Cons del: upt_Suc split: prod.split)
qed simp

text \<open>
  C12. \<open>split_into_raw_entries\<close> attaches to every entry of a buffer batch the metadata range that
  covers it: with the ranges in order, the lockstep scan gives entry \<open>i\<close> the last range that
  starts at or before \<open>i\<close> (the first range for entries before it, nothing when there is no range),
  keeps all payloads in order and numbers them from 0.
\<close>

theorem split_into_raw_entries_covering:
  assumes "sorted (map start_index (cb_metadata batch))" "length (cb_entries batch) \<le> 2 ^ 32"
  shows "sb_entries (split_into_raw_entries batch source path) =
    map2 (\<lambda>i. covered_entry (cb_metadata batch) (word_of_nat i))
      [0..<length (cb_entries batch)] (cb_entries batch)"
  using split_entries_covering [OF assms(1), of 0 "cb_entries batch" 0] assms(2)
  by (simp add: split_into_raw_entries_def)

theorem split_into_raw_entries_covering_witness:
  "let m = (\<lambda>i t. \<lparr>start_index = i, bm_ingestion_time_ms = t, bm_payload = [7]\<rparr>);
       batch = \<lparr>cb_entries = [[1], [2], [3]], cb_sequence = 5, cb_location = ''obj'',
                cb_metadata = [m 0 10, m 2 20]\<rparr>
   in map se_ingestion_time_ms (sb_entries (split_into_raw_entries batch (SourceId ''s'') ''m'')) = [10, 10, 20]"
  by (simp add: Let_def split_into_raw_entries_covering covered_entry_def covering_def upt_rec
      word_le_nat_alt)

section \<open>Two-level acknowledgement\<close>

definition ack_state_ok :: "u64 option \<Rightarrow> 'k buffer_source \<Rightarrow> bool" where
  "ack_state_ok durable s =
     (case pending_durable_ack s of None \<Rightarrow> last_acked s = durable | Some q \<Rightarrow> last_acked s = Some q)"

definition last_opt :: "'a option \<Rightarrow> 'a list \<Rightarrow> 'a option" where
  "last_opt d xs = (if xs = [] then d else Some (last xs))"

lemma last_opt_append [simp]: "last_opt d (xs @ ys) = last_opt (last_opt d xs) ys"
  by (simp add: last_opt_def)

lemma last_opt_simps [simp]: "last_opt d [] = d" "last_opt d (x # xs) = last_opt (Some x) xs"
  by (simp_all add: last_opt_def)

lemma flush_state:
  assumes "ack_state_ok d s"
  shows "ack_state_ok (last_opt d (durable_call ops s)) (snd (flush_acks ops s))"
    "last_acked (snd (flush_acks ops s)) = last_acked s"
    "is_ok (fst (flush_acks ops s)) \<longleftrightarrow> pending_durable_ack (snd (flush_acks ops s)) = None"
    "set (durable_call ops s) \<subseteq> set_option (last_acked s)"
  using assms
  by (auto simp: flush_acks_def ack_state_ok_def durable_call_def split: option.splits sum.splits prod.splits)

lemma source_run_append:
  "source_run ops s (es @ es') =
     (let (d, log) = source_run ops s es; (s', log') = source_run ops d es' in (s', log @ log'))"
proof (induction es arbitrary: s)
  case (Cons e es)
  then show ?case by (cases e) (auto simp: Let_def split: prod.splits)
qed simp

lemma source_run_facts:
  assumes "ack_state_ok d s" "source_run ops s es = (s', log)"
  shows "ack_state_ok (last_opt d log) s' \<and> last_acked s' = last_opt (last_acked s) (acks_of es) \<and>
    set log \<subseteq> set_option (last_acked s) \<union> set (acks_of es)"
  using assms
proof (induction es arbitrary: d s s' log)
  case Nil
  then show ?case by (simp add: acks_of_def)
next
  case (Cons e es)
  show ?case
  proof (cases e)
    case (SrcAck q)
    have "ack_state_ok d (ack_through q s)" "last_acked (ack_through q s) = Some q"
      by (simp_all add: ack_state_ok_def ack_through_def)
    moreover have "acks_of (e # es) = [q] @ acks_of es"
      by (simp add: acks_of_def SrcAck)
    ultimately show ?thesis
      using Cons.IH [of d "ack_through q s" s' log] Cons.prems(2) SrcAck by auto
  next
    case SrcFlush
    obtain log' where run: "source_run ops (snd (flush_acks ops s)) es = (s', log')"
      and log: "log = durable_call ops s @ log'"
      using Cons.prems(2) SrcFlush by (auto split: prod.splits)
    note fl = flush_state [OF Cons.prems(1), of ops]
    have "acks_of (e # es) = acks_of es"
      by (simp add: acks_of_def SrcFlush)
    then show ?thesis
      using Cons.IH [OF fl(1) run] fl(2,4) log by auto
  qed
qed

text \<open>
  C13. Durable acknowledgement trails the in-memory one and never loses it: in any sequence of
  \<open>ack_through\<close> and \<open>flush_acks\<close> calls, with a consumer that may fail any durable
  acknowledgement, only sequences that were acknowledged reach the consumer; a failed flush re-arms
  the sequence; and whenever a flush returns without error, the last durable acknowledgement is the
  last sequence acknowledged in memory.
\<close>

theorem flush_makes_last_ack_durable:
  assumes run: "source_run ops (source_new k i path None) (es @ [SrcFlush]) = (s, log)"
    and ok: "is_ok (fst (flush_acks ops (fst (source_run ops (source_new k i path None) es))))"
  shows "last_opt None log = last_acked s \<and> last_acked s = last_opt None (acks_of es)
    \<and> set log \<subseteq> set (acks_of es) \<and> pending_durable_ack s = None"
proof -
  let ?init = "source_new k i path None"
  have init: "ack_state_ok None ?init" "last_acked ?init = None"
    by (simp_all add: ack_state_ok_def source_new_def)
  obtain d dlog where d: "source_run ops ?init es = (d, dlog)" by fastforce
  note facts = source_run_facts [OF init(1) d]
  have s: "s = snd (flush_acks ops d)"
    using run source_run_append [of ops ?init es "[SrcFlush]"] d by simp
  have "acks_of (es @ [SrcFlush]) = acks_of es" by (simp add: acks_of_def)
  moreover have "pending_durable_ack s = None"
    using ok flush_state(3) facts d s by (metis fst_conv)
  ultimately show ?thesis
    using source_run_facts [OF init(1) run] init(2) by (auto simp: ack_state_ok_def)
qed

theorem flush_makes_last_ack_durable_witness:
  "let ops = \<lparr>co_next_descriptors = (\<lambda>n k. (Inr [], k)),
              co_ack_through = (\<lambda>q k. (if k = 0 then Inl ''io'' else Inr (), Suc k)),
              co_len = (\<lambda>k. 0), co_fetch = (\<lambda>d. Inl ''none'')\<rparr>;
       (s, log) = source_run ops (source_new (0 :: nat) (SourceId ''s'') ''m'' None)
                    ([SrcAck 3, SrcFlush, SrcAck 5] @ [SrcFlush])
   in last_opt None log = Some 5 \<and> set log \<subseteq> {3, 5}"
proof -
  let ?ops = "\<lparr>co_next_descriptors = (\<lambda>n k. (Inr [], k)),
              co_ack_through = (\<lambda>q k. (if k = 0 then Inl ''io'' else Inr (), Suc k)),
              co_len = (\<lambda>k. 0), co_fetch = (\<lambda>d. Inl ''none'')\<rparr> :: nat consumer_ops"
  let ?init = "source_new (0 :: nat) (SourceId ''s'') ''m'' None" and ?es = "[SrcAck 3, SrcFlush, SrcAck 5]"
  obtain s log where run: "source_run ?ops ?init (?es @ [SrcFlush]) = (s, log)" by fastforce
  have "is_ok (fst (flush_acks ?ops (fst (source_run ?ops ?init ?es))))"
    by (simp add: source_new_def flush_acks_def ack_through_def Let_def)
  from flush_makes_last_ack_durable [OF run this] show ?thesis
    unfolding Let_def run by (simp add: acks_of_def)
qed

end
