(* ===== verification/Runtime_Options.thy ===== *)
theory Runtime_Options
  imports Ack_Coordinator Source_Budget Buffer_Source
begin

text \<open>
  The options of the runtime and its builder (\<open>runtime.rs\<close>): the option structs with their
  defaults, the resolution of per-source backpressure and of the retry knobs,
  \<open>validate_backpressure\<close>, and \<open>RuntimeBuilder::build\<close>. Durations are milliseconds.
  \<open>source_overrides\<close> is the map's entries in iteration order. The lemmas show that what the
  builder accepts cannot deadlock at the admission gate.
\<close>

section \<open>Definitions\<close>

datatype ack_flush_policy = EveryCommitGroup | EveryN u32

record backpressure_options =
  max_inflight_batches :: u32
  max_inflight_bytes :: u64
  estimated_max_batch_bytes :: u64
  fetch_concurrency :: u32
  decode_concurrency :: u32
  oversize_fault_multiplier :: u32

definition backpressure_default :: backpressure_options where
  "backpressure_default =
     \<lparr>max_inflight_batches = 64, max_inflight_bytes = 256 * 1024 * 1024,
      estimated_max_batch_bytes = 4 * 1024 * 1024, fetch_concurrency = 8, decode_concurrency = 4,
      oversize_fault_multiplier = 4\<rparr>"

definition backpressure_serial :: backpressure_options where
  "backpressure_serial =
     \<lparr>max_inflight_batches = 1, max_inflight_bytes = 256 * 1024 * 1024,
      estimated_max_batch_bytes = 4 * 1024 * 1024, fetch_concurrency = 1, decode_concurrency = 1,
      oversize_fault_multiplier = 4\<rparr>"

record sink_pool_options =
  max_concurrent_commits :: u32
  retry_max_attempts :: u32
  retry_initial_backoff_ms :: u64

definition sink_pool_default :: sink_pool_options where
  "sink_pool_default =
     \<lparr>max_concurrent_commits = 4, retry_max_attempts = 6, retry_initial_backoff_ms = 100\<rparr>"

record runtime_options =
  ack_flush_policy :: ack_flush_policy
  dry_run :: bool
  poll_interval :: nat
  max_descriptors_per_poll :: nat
  max_retry_attempts :: u32
  retry_backoff :: nat
  source_defaults :: backpressure_options
  source_overrides :: "(source_id \<times> backpressure_options) list"
  sink_options :: sink_pool_options

definition runtime_options_default :: runtime_options where
  "runtime_options_default =
     \<lparr>ack_flush_policy = EveryCommitGroup, dry_run = True, poll_interval = 250,
      max_descriptors_per_poll = 8, max_retry_attempts = 3, retry_backoff = 100,
      source_defaults = backpressure_default, source_overrides = [],
      sink_options = sink_pool_default\<rparr>"

definition backpressure_for :: "runtime_options \<Rightarrow> source_id \<Rightarrow> backpressure_options" where
  "backpressure_for opts source =
     (case map_of (source_overrides opts) source of Some bp \<Rightarrow> bp | None \<Rightarrow> source_defaults opts)"

definition effective_retry_max_attempts :: "runtime_options \<Rightarrow> u32" where
  "effective_retry_max_attempts opts =
     (if retry_max_attempts (sink_options opts) \<noteq> retry_max_attempts sink_pool_default
      then retry_max_attempts (sink_options opts) else max_retry_attempts opts)"

definition effective_retry_backoff :: "runtime_options \<Rightarrow> nat" where
  "effective_retry_backoff opts =
     (if retry_initial_backoff_ms (sink_options opts) \<noteq> retry_initial_backoff_ms sink_pool_default
      then unat (retry_initial_backoff_ms (sink_options opts)) else retry_backoff opts)"

definition validate_backpressure ::
  "source_id \<Rightarrow> backpressure_options \<Rightarrow> runtime_error + unit" where
  "validate_backpressure source bp =
     (if max_inflight_bytes bp < estimated_max_batch_bytes bp
      then Inl (ErrConfig (ReservationTooLarge source (estimated_max_batch_bytes bp) (max_inflight_bytes bp)))
      else if max_inflight_batches bp = 0 then Inl (ErrConfig (ZeroMaxInflightBatches source))
      else if fetch_concurrency bp = 0 then Inl (ErrConfig (ZeroFetchConcurrency source))
      else if decode_concurrency bp = 0 then Inl (ErrConfig (ZeroDecodeConcurrency source))
      else Inr ())"

record ('k, 'd, 's) runtime_builder =
  rb_source :: "'k buffer_source option"
  rb_decoder :: "'d option"
  rb_sink :: "'s option"
  rb_options :: runtime_options

record ('k, 'd, 's) runtime =
  rt_source :: "'k buffer_source"
  rt_decoder :: 'd
  rt_sink :: 's
  rt_coordinators :: ack_coordinators
  rt_options :: runtime_options
  rt_budget :: budget

definition builder_new :: "('k, 'd, 's) runtime_builder" where
  "builder_new =
     \<lparr>rb_source = None, rb_decoder = None, rb_sink = None, rb_options = runtime_options_default\<rparr>"

definition add_source :: "'k buffer_source \<Rightarrow> ('k, 'd, 's) runtime_builder \<Rightarrow> ('k, 'd, 's) runtime_builder" where
  "add_source s b = b\<lparr>rb_source := Some s\<rparr>"

definition add_decoder :: "'d \<Rightarrow> ('k, 'd, 's) runtime_builder \<Rightarrow> ('k, 'd, 's) runtime_builder" where
  "add_decoder d b = b\<lparr>rb_decoder := Some d\<rparr>"

definition set_sink :: "'s \<Rightarrow> ('k, 'd, 's) runtime_builder \<Rightarrow> ('k, 'd, 's) runtime_builder" where
  "set_sink s b = b\<lparr>rb_sink := Some s\<rparr>"

definition with_options ::
  "runtime_options \<Rightarrow> ('k, 'd, 's) runtime_builder \<Rightarrow> ('k, 'd, 's) runtime_builder" where
  "with_options opts b = b\<lparr>rb_options := opts\<rparr>"

definition build_parts ::
  "'k buffer_source \<Rightarrow> 'd \<Rightarrow> 's \<Rightarrow> runtime_options \<Rightarrow> runtime_error + ('k, 'd, 's) runtime" where
  "build_parts source decoder sink opts =
     (let primary_bp = backpressure_for opts (src_id source) in
      case validate_backpressure (src_id source) primary_bp of
        Inl e \<Rightarrow> Inl e
      | Inr _ \<Rightarrow>
          (case try_map (\<lambda>(s, bp). validate_backpressure s bp) (source_overrides opts) of
             Inl e \<Rightarrow> Inl e
           | Inr _ \<Rightarrow>
               (case acks_register_source acks_new (src_id source) (last_acked source) of
                  Inl e \<Rightarrow> Inl e
                | Inr coordinators \<Rightarrow>
                    Inr \<lparr>rt_source = source, rt_decoder = decoder, rt_sink = sink,
                         rt_coordinators = coordinators, rt_options = opts,
                         rt_budget = budget_new (src_id source) (max_inflight_bytes primary_bp)\<rparr>)))"

definition build :: "('k, 'd, 's) runtime_builder \<Rightarrow> runtime_error + ('k, 'd, 's) runtime" where
  "build b =
     (case rb_source b of
        None \<Rightarrow> Inl (ErrConfig NoSourceConfigured)
      | Some source \<Rightarrow>
          (case rb_decoder b of
             None \<Rightarrow> Inl (ErrConfig NoDecoderConfigured)
           | Some decoder \<Rightarrow>
               (case rb_sink b of
                  None \<Rightarrow> Inl (ErrConfig NoSinkConfigured)
                | Some sink \<Rightarrow> build_parts source decoder sink (rb_options b))))"

definition option_max1 :: "u32 \<Rightarrow> nat" where
  "option_max1 w = unat (max w 1)"

section \<open>What the builder accepts\<close>

lemma validate_ok_iff:
  "is_ok (validate_backpressure s bp) \<longleftrightarrow>
     estimated_max_batch_bytes bp \<le> max_inflight_bytes bp \<and> max_inflight_batches bp \<noteq> 0 \<and>
     fetch_concurrency bp \<noteq> 0 \<and> decode_concurrency bp \<noteq> 0"
  by (auto simp: validate_backpressure_def not_less)

lemma try_map_ok_iff: "is_ok (try_map f xs) \<longleftrightarrow> (\<forall>x\<in>set xs. is_ok (f x))"
  by (induction xs) (auto split: sum.splits simp: is_ok_def)

lemma build_ok:
  assumes "build b = Inr rt"
  obtains source decoder sink where
    "rb_source b = Some source" "rb_decoder b = Some decoder" "rb_sink b = Some sink"
    "is_ok (validate_backpressure (src_id source) (backpressure_for (rb_options b) (src_id source)))"
    "\<forall>(s, bp) \<in> set (source_overrides (rb_options b)). is_ok (validate_backpressure s bp)"
    "rt = \<lparr>rt_source = source, rt_decoder = decoder, rt_sink = sink,
           rt_coordinators = [(src_id source, ack_new (src_id source) (last_acked source))],
           rt_options = rb_options b,
           rt_budget = budget_new (src_id source)
             (max_inflight_bytes (backpressure_for (rb_options b) (src_id source)))\<rparr>"
proof -
  obtain source decoder sink where p:
    "rb_source b = Some source" "rb_decoder b = Some decoder" "rb_sink b = Some sink"
    "build_parts source decoder sink (rb_options b) = Inr rt"
    using assms by (auto simp: build_def split: option.splits)
  have "is_ok (try_map (\<lambda>(s, bp). validate_backpressure s bp) (source_overrides (rb_options b)))"
    using p(4) by (auto simp: build_parts_def Let_def split: sum.splits)
  then have "\<forall>(s, bp) \<in> set (source_overrides (rb_options b)). is_ok (validate_backpressure s bp)"
    by (auto simp: try_map_ok_iff)
  moreover have "is_ok (validate_backpressure (src_id source) (backpressure_for (rb_options b) (src_id source)))"
    using p(4) by (auto simp: build_parts_def Let_def split: sum.splits)
  ultimately show thesis
    using that p
    by (auto simp: build_parts_def Let_def acks_register_source_def acks_new_def bt_get_def
        split: sum.splits)
qed

text \<open>
  C14. What the builder accepts cannot deadlock at the admission gate, and what it rejects for its
  byte budget would: from a runtime that was built, the first pessimistic reservation is granted and
  there is at least one batch slot, fetch worker and decode worker; whereas with an estimate above the
  capacity the blocking reservation is refused in every state, however little is in flight.
\<close>

theorem build_avoids_admission_deadlock:
  assumes cap: "max_inflight_bytes bp \<noteq> - 1"
  shows "(build \<lparr>rb_source = Some source, rb_decoder = Some d, rb_sink = Some s,
                 rb_options = opts\<rparr> = Inr rt \<and> bp = backpressure_for opts (src_id source) \<longrightarrow>
            reserve (rt_budget rt) (estimated_max_batch_bytes bp) \<noteq> None \<and> 0 < max_inflight_batches bp
            \<and> 0 < fetch_concurrency bp \<and> 0 < decode_concurrency bp)
    \<and> (validate_backpressure sid bp =
          Inl (ErrConfig (ReservationTooLarge sid (estimated_max_batch_bytes bp) (max_inflight_bytes bp)))
        \<longrightarrow> capacity b = max_inflight_bytes bp \<longrightarrow> reserve b (estimated_max_batch_bytes bp) = None)"
proof (intro conjI impI)
  assume built: "build \<lparr>rb_source = Some source, rb_decoder = Some d, rb_sink = Some s,
                 rb_options = opts\<rparr> = Inr rt \<and> bp = backpressure_for opts (src_id source)"
  then have ok: "is_ok (validate_backpressure (src_id source) bp)"
    and rt: "rt_budget rt = budget_new (src_id source) (max_inflight_bytes bp)"
    by (auto elim!: build_ok)
  then show "0 < max_inflight_batches bp" "0 < fetch_concurrency bp" "0 < decode_concurrency bp"
    by (simp_all add: validate_ok_iff word_neq_0_conv)
  have "try_reserve (rt_budget rt) (estimated_max_batch_bytes bp) \<noteq> None"
    using ok by (simp add: try_reserve_None_iff rt budget_new_def validate_ok_iff word_le_nat_alt)
  then show "reserve (rt_budget rt) (estimated_max_batch_bytes bp) \<noteq> None"
    using reserve_eq_try_reserve [of "rt_budget rt"] cap by (simp add: rt budget_new_def)
next
  assume bad: "validate_backpressure sid bp =
      Inl (ErrConfig (ReservationTooLarge sid (estimated_max_batch_bytes bp) (max_inflight_bytes bp)))"
    and b: "capacity b = max_inflight_bytes bp"
  have "max_inflight_bytes bp < estimated_max_batch_bytes bp"
    using bad by (auto simp: validate_backpressure_def split: if_splits)
  then have "try_reserve b (estimated_max_batch_bytes bp) = None"
    using b by (auto simp: try_reserve_None_iff word_less_nat_alt)
  then show "reserve b (estimated_max_batch_bytes bp) = None"
    using reserve_eq_try_reserve [of b] cap b by simp
qed

theorem build_avoids_admission_deadlock_witness:
  "reserve (budget_new (SourceId ''s'') 1024) 4096 = None \<and>
   (\<exists>rt. build \<lparr>rb_source = Some (source_new () (SourceId ''s'') ''m'' None), rb_decoder = Some (),
                rb_sink = Some (), rb_options = runtime_options_default\<rparr> = Inr rt \<and>
         reserve (rt_budget rt) (estimated_max_batch_bytes backpressure_default) \<noteq> None)"
proof -
  let ?b = "\<lparr>rb_source = Some (source_new () (SourceId ''s'') ''m'' None), rb_decoder = Some (),
                rb_sink = Some (), rb_options = runtime_options_default\<rparr>"
  let ?bad = "backpressure_default\<lparr>max_inflight_bytes := 1024, estimated_max_batch_bytes := 4096\<rparr>"
  obtain rt where rt: "build ?b = Inr rt"
    by (simp add: build_def build_parts_def runtime_options_default_def backpressure_for_def
        backpressure_default_def validate_backpressure_def acks_register_source_def acks_new_def
        bt_get_def)
  have caps: "max_inflight_bytes ?bad \<noteq> - 1" "max_inflight_bytes backpressure_default \<noteq> - 1"
    by (simp_all add: backpressure_default_def)
  have bp: "backpressure_default =
      backpressure_for runtime_options_default (src_id (source_new () (SourceId ''s'') ''m'' None))"
    by (simp add: runtime_options_default_def backpressure_for_def)
  have bad: "validate_backpressure (SourceId ''s'') ?bad =
      Inl (ErrConfig (ReservationTooLarge (SourceId ''s'') (estimated_max_batch_bytes ?bad) (max_inflight_bytes ?bad)))"
    and c: "capacity (budget_new (SourceId ''s'') 1024) = max_inflight_bytes ?bad"
    and est: "estimated_max_batch_bytes ?bad = 4096"
    by (simp_all add: validate_backpressure_def budget_new_def)
  have "reserve (budget_new (SourceId ''s'') 1024) (estimated_max_batch_bytes ?bad) = None"
    by (rule conjunct2 [OF build_avoids_admission_deadlock [OF caps(1)], rule_format, OF bad c])
  moreover have "reserve (rt_budget rt) (estimated_max_batch_bytes backpressure_default) \<noteq> None"
    using conjunct1 [OF build_avoids_admission_deadlock [OF caps(2)], rule_format, OF conjI, OF rt bp]
    by blast
  ultimately show ?thesis
    using rt est by auto
qed

end
