(* ===== verification/Sink_Writer.thy ===== *)
theory Sink_Writer
  imports Runtime_Options
begin

text \<open>
  The retry loop of the sink writer pool (\<open>runtime.rs\<close>, \<open>write_with_retry\<close>) over the
  \<open>Sink\<close> trait (\<open>sink.rs\<close>). A sink is a record of its methods over a state \<open>'s\<close>
  (\<open>sink_ops\<close>). The hard-abort token is asked once per \<open>select!\<close>: \<open>abort p\<close> says
  what the \<open>p\<close>-th one sees, nothing, a cancellation before the call is made, or one while the
  call is running, whose effect on the sink then stays and whose result is lost.

  The locale \<open>sink_contract\<close> is what the trait promises the runtime, and \<open>write_with_retry\<close>
  is verified once against it; \<open>Clickhouse_Sink\<close> interprets it on the ClickHouse sink.
\<close>

section \<open>Definitions\<close>

record ('r, 's) sink_ops =
  so_id :: sink_id
  so_write :: "'r sink_commit \<Rightarrow> 's \<Rightarrow> (sink_commit_failure + sink_commit_result) \<times> 's"
  so_check_committed :: "commit_identity \<Rightarrow> 's \<Rightarrow> (runtime_error + commit_status) \<times> 's"

datatype sink_commit_outcome =
  OutcomeCommitted | OutcomeVerifiedAlreadyCommitted | OutcomeFailedRetryable | OutcomeFailedFatal

fun outcome_label :: "sink_commit_outcome \<Rightarrow> string" where
  "outcome_label OutcomeCommitted = ''committed''"
| "outcome_label OutcomeVerifiedAlreadyCommitted = ''verified_already_committed''"
| "outcome_label OutcomeFailedRetryable = ''failed_retryable''"
| "outcome_label OutcomeFailedFatal = ''failed_fatal''"

datatype write_success = WroteCommitted sink_commit_result | VerifiedAlreadyCommitted

record write_attempt =
  wa_inner :: "runtime_error + write_success"
  wa_outcome :: sink_commit_outcome

datatype abort_point = NoAbort | AbortBefore | AbortDuring

definition aborted_attempt :: "pipeline_message \<Rightarrow> write_attempt" where
  "aborted_attempt m = \<lparr>wa_inner = Inl (ErrPipeline m), wa_outcome = OutcomeFailedFatal\<rparr>"

definition sleep_with_abort :: "abort_point \<Rightarrow> bool" where
  "sleep_with_abort a = (a = NoAbort)"

definition select_call :: "abort_point \<Rightarrow> ('s \<Rightarrow> 'a \<times> 's) \<Rightarrow> 's \<Rightarrow> 'a option \<times> 's" where
  "select_call a call s =
     (case a of
        AbortBefore \<Rightarrow> (None, s)
      | AbortDuring \<Rightarrow> (None, snd (call s))
      | NoAbort \<Rightarrow> (let (x, s') = call s in (Some x, s')))"

text \<open>One pass through the loop body: the attempt's result, or go on to the next attempt.\<close>

datatype loop_exit = Finished write_attempt | Again

definition retry_or_give_up :: "bool \<Rightarrow> string \<Rightarrow> abort_point \<Rightarrow> loop_exit" where
  "retry_or_give_up exhausted e a =
     (if exhausted
      then Finished \<lparr>wa_inner = Inl (ErrSink e), wa_outcome = OutcomeFailedRetryable\<rparr>
      else if \<not> sleep_with_abort a then Finished (aborted_attempt HardAbortDuringSleep)
      else Again)"

definition resolve_maybe ::
  "('r, 's) sink_ops \<Rightarrow> 'r sink_commit \<Rightarrow> bool \<Rightarrow> (nat \<Rightarrow> abort_point) \<Rightarrow> nat \<Rightarrow> string \<Rightarrow> 's \<Rightarrow>
   loop_exit \<times> nat \<times> 's" where
  "resolve_maybe sink commit exhausted abort p e s =
     (case select_call (abort p) (so_check_committed sink (sc_identity commit)) s of
        (None, s') \<Rightarrow> (Finished (aborted_attempt HardAbortDuringCheck), p + 1, s')
      | (Some (Inr StatusCommitted), s') \<Rightarrow>
          (Finished \<lparr>wa_inner = Inr VerifiedAlreadyCommitted,
                     wa_outcome = OutcomeVerifiedAlreadyCommitted\<rparr>, p + 1, s')
      | (Some (Inr StatusNotCommitted), s') \<Rightarrow>
          (retry_or_give_up exhausted e (abort (p + 1)), p + 2, s')
      | (Some (Inr StatusUnknown), s') \<Rightarrow>
          (retry_or_give_up exhausted e (abort (p + 1)), p + 2, s')
      | (Some (Inl check_err), s') \<Rightarrow>
          (Finished \<lparr>wa_inner = Inl check_err, wa_outcome = OutcomeFailedFatal\<rparr>, p + 1, s'))"

definition write_once ::
  "('r, 's) sink_ops \<Rightarrow> 'r sink_commit \<Rightarrow> bool \<Rightarrow> (nat \<Rightarrow> abort_point) \<Rightarrow> nat \<Rightarrow> 's \<Rightarrow>
   loop_exit \<times> nat \<times> 's" where
  "write_once sink commit exhausted abort p s =
     (case select_call (abort p) (so_write sink commit) s of
        (None, s') \<Rightarrow> (Finished (aborted_attempt HardAbortDuringWrite), p + 1, s')
      | (Some (Inr result), s') \<Rightarrow>
          (Finished \<lparr>wa_inner = Inr (WroteCommitted result), wa_outcome = OutcomeCommitted\<rparr>, p + 1, s')
      | (Some (Inl (Fatal e)), s') \<Rightarrow>
          (Finished \<lparr>wa_inner = Inl (ErrSink e), wa_outcome = OutcomeFailedFatal\<rparr>, p + 1, s')
      | (Some (Inl (NotCommitted e)), s') \<Rightarrow>
          (retry_or_give_up exhausted e (abort (p + 1)), p + 2, s')
      | (Some (Inl (MaybeCommitted e)), s') \<Rightarrow>
          resolve_maybe sink commit exhausted abort (p + 1) e s')"

function write_loop ::
  "('r, 's) sink_ops \<Rightarrow> 'r sink_commit \<Rightarrow> u32 \<Rightarrow> (nat \<Rightarrow> abort_point) \<Rightarrow> u32 \<Rightarrow> nat \<Rightarrow> 's \<Rightarrow>
   write_attempt \<times> 's" where
  "write_loop sink commit max_attempts abort attempt p s =
     (case write_once sink commit (max_attempts \<le> attempt) abort p s of
        (Finished w, _, s') \<Rightarrow> (w, s')
      | (Again, p', s') \<Rightarrow>
          write_loop sink commit max_attempts abort (saturating_add attempt 1) p' s')"
  by pat_completeness auto

lemma retry_exhausted: "retry_or_give_up True e a \<noteq> Again"
  by (simp add: retry_or_give_up_def)

lemma write_once_exhausted: "fst (write_once sink commit True abort p s) \<noteq> Again"
  by (auto simp: write_once_def resolve_maybe_def retry_exhausted
      split: prod.splits option.splits sum.splits sink_commit_failure.splits commit_status.splits)

lemma attempt_increases:
  "\<not> max_attempts \<le> attempt \<Longrightarrow>
     unat max_attempts - unat (saturating_add attempt 1) < unat max_attempts - unat (attempt :: u32)"
  using unat_bound_len [of max_attempts] by (simp add: word_to_nat word_le_nat_alt min_def)

lemma again_not_exhausted:
  "(Again, p', s') = write_once sink commit ex abort p s \<Longrightarrow> \<not> ex"
  using write_once_exhausted [of sink commit abort p s] by (metis (full_types) fst_conv)

termination write_loop
  by (relation "measure (\<lambda>(_, _, max_attempts, _, attempt, _, _). unat max_attempts - unat attempt)")
    (auto dest!: again_not_exhausted intro: attempt_increases)

declare write_loop.simps [simp del]

definition write_with_retry ::
  "('r, 's) sink_ops \<Rightarrow> 'r sink_commit \<Rightarrow> runtime_options \<Rightarrow> (nat \<Rightarrow> abort_point) \<Rightarrow> 's \<Rightarrow>
   write_attempt \<times> 's" where
  "write_with_retry sink commit opts abort s =
     write_loop sink commit (effective_retry_max_attempts opts) abort 0 0 s"

text \<open>The calls a sink sees, as a sink whose state also keeps the calls and their answers.\<close>

datatype 'r sink_call =
    CallWrite "'r sink_commit" "sink_commit_failure + sink_commit_result"
  | CallCheck commit_identity "runtime_error + commit_status"

definition logged :: "('r, 's) sink_ops \<Rightarrow> ('r, 's \<times> 'r sink_call list) sink_ops" where
  "logged sink =
     \<lparr>so_id = so_id sink,
      so_write = (\<lambda>c (s, log). let (x, s') = so_write sink c s in (x, s', log @ [CallWrite c x])),
      so_check_committed =
        (\<lambda>i (s, log). let (x, s') = so_check_committed sink i s in (x, s', log @ [CallCheck i x]))\<rparr>"

fun retry_protocol :: "'r sink_commit \<Rightarrow> 'r sink_call list \<Rightarrow> bool" where
  "retry_protocol c [] = True"
| "retry_protocol c [x] =
     (case x of CallWrite d r \<Rightarrow> d = c | CallCheck _ _ \<Rightarrow> False)"
| "retry_protocol c (CallWrite d r # CallCheck i st # rest) =
     (d = c \<and> i = sc_identity c \<and> (\<exists>e. r = Inl (MaybeCommitted e)) \<and>
      (rest \<noteq> [] \<longrightarrow> st = Inr StatusNotCommitted \<or> st = Inr StatusUnknown) \<and> retry_protocol c rest)"
| "retry_protocol c (CallWrite d r # CallWrite d' r' # rest) =
     (d = c \<and> (\<exists>e. r = Inl (NotCommitted e)) \<and> retry_protocol c (CallWrite d' r' # rest))"
| "retry_protocol c (CallCheck _ _ # _ # _) = False"

fun is_write_call :: "'r sink_call \<Rightarrow> bool" where
  "is_write_call (CallWrite _ _) = True"
| "is_write_call (CallCheck _ _) = False"

definition write_calls :: "'r sink_call list \<Rightarrow> nat" where
  "write_calls log = length (filter is_write_call log)"

section \<open>The protocol of the retry loop\<close>

lemma write_loop_exit:
  assumes "\<forall>ex p s p' s'. write_once sink c ex abort p s = (Again, p', s') \<longrightarrow> P s \<longrightarrow> P s'"
    and "P s" and "write_loop sink c m abort a p s = (w, s')"
  shows "\<exists>ex p1 s1 p2. P s1 \<and> write_once sink c ex abort p1 s1 = (Finished w, p2, s')"
  using assms
proof (induction sink c m abort a p s rule: write_loop.induct)
  case (1 sink c m abort a p s)
  obtain e p1 s1 where once: "write_once sink c (m \<le> a) abort p s = (e, p1, s1)"
    by (metis prod_cases3)
  show ?case
  proof (cases e)
    case (Finished v)
    then have "v = w" "s1 = s'"
      using 1(4) once by (simp_all add: write_loop.simps [of sink c m abort a p s])
    then show ?thesis using once Finished 1(3) by blast
  next
    case Again
    have "write_loop sink c m abort (saturating_add a 1) p1 s1 = (w, s')"
      using 1(4) once Again by (simp add: write_loop.simps [of sink c m abort a p s])
    then show ?thesis
      using 1(1) [OF once [symmetric] Again refl 1(2)] 1(2) [rule_format, OF once [unfolded Again] 1(3)] by blast
  qed
qed


text \<open>How much one run of the loop can add to a measure of the sink's state.\<close>

lemma select_call_growth:
  assumes "f (snd (call s)) \<le> f s + (n :: nat)" "select_call a call s = (v, s')"
  shows "f s' \<le> f s + n"
  using assms by (auto simp: select_call_def split: abort_point.splits prod.splits)

lemma write_once_growth:
  assumes wr: "\<And>s. f (snd (so_write sink c s)) \<le> f s + (n :: nat)"
    and ch: "\<And>s. f (snd (so_check_committed sink (sc_identity c) s)) \<le> f s"
    and run: "write_once sink c ex abort p s = (e, p', s')"
  shows "f s' \<le> f s + n"
proof -
  obtain v s1 where w: "select_call (abort p) (so_write sink c) s = (v, s1)" by fastforce
  have s1: "f s1 \<le> f s + n" by (rule select_call_growth [where f = f, OF wr w])
  obtain v2 s2 where k: "select_call (abort (Suc p)) (so_check_committed sink (sc_identity c)) s1 = (v2, s2)"
    by fastforce
  have "f s2 \<le> f s1" using select_call_growth [of f _ s1 0, OF _ k] ch by simp
  moreover have "s' = s1 \<or> s' = s2"
    using run
    by (auto simp: write_once_def w resolve_maybe_def k
        split: option.splits sum.splits sink_commit_failure.splits commit_status.splits)
  ultimately show ?thesis using s1 by auto
qed

lemma write_loop_growth:
  assumes wr: "\<And>s. f (snd (so_write sink c s)) \<le> f s + (n :: nat)"
    and ch: "\<And>s. f (snd (so_check_committed sink (sc_identity c) s)) \<le> f s"
    and "attempt \<le> limit" "write_loop sink c limit abort attempt p s = (w, s')"
  shows "f s' \<le> f s + Suc (unat limit - unat attempt) * n"
  using assms(3,4)
proof (induction "unat limit - unat attempt" arbitrary: attempt p s rule: less_induct)
  case less
  obtain e p1 s1 where once: "write_once sink c (limit \<le> attempt) abort p s = (e, p1, s1)"
    by (metis prod_cases3)
  have s1: "f s1 \<le> f s + n" by (rule write_once_growth [OF wr ch once])
  show ?case
  proof (cases e)
    case (Finished v)
    then have "s' = s1" using less.prems(2) once by (simp add: write_loop.simps)
    then show ?thesis using s1 by simp
  next
    case Again
    have lt: "\<not> limit \<le> attempt" using again_not_exhausted [OF once [unfolded Again, symmetric]] .
    let ?next = "saturating_add attempt 1"
    have n: "unat ?next = Suc (unat attempt)" "?next \<le> limit"
      using lt unat_bound_len [of limit] by (simp_all add: word_to_nat word_le_nat_alt)
    have "f s' \<le> f s1 + Suc (unat limit - unat ?next) * n"
      using less.hyps [OF attempt_increases [OF lt] n(2)] less.prems(2) once Again
      by (simp add: write_loop.simps [of _ _ _ _ attempt])
    moreover have "Suc (unat limit - unat ?next) = unat limit - unat attempt"
      using lt n(1) by (simp add: word_le_nat_alt)
    ultimately show ?thesis using s1 by simp
  qed
qed

definition pass_log :: "'r sink_commit \<Rightarrow> loop_exit \<Rightarrow> 'r sink_call list \<Rightarrow> bool" where
  "pass_log c exit ext =
     (case exit of
        Again \<Rightarrow>
          (\<exists>e. ext = [CallWrite c (Inl (NotCommitted e))]) \<or>
          (\<exists>e st. ext = [CallWrite c (Inl (MaybeCommitted e)), CallCheck (sc_identity c) (Inr st)] \<and>
                  st \<noteq> StatusCommitted)
      | Finished w \<Rightarrow>
          (ext = [] \<or> (\<exists>r. ext = [CallWrite c r]) \<or>
           (\<exists>e st. ext = [CallWrite c (Inl (MaybeCommitted e)), CallCheck (sc_identity c) st])) \<and>
          (\<forall>r. wa_inner w = Inr (WroteCommitted r) \<longrightarrow> ext = [CallWrite c (Inr r)]) \<and>
          (wa_inner w = Inr VerifiedAlreadyCommitted \<longrightarrow>
             (\<exists>e. ext = [CallWrite c (Inl (MaybeCommitted e)), CallCheck (sc_identity c) (Inr StatusCommitted)])) \<and>
          (wa_outcome w = OutcomeFailedRetryable \<longrightarrow> ext \<noteq> []))"

lemma retry_cases:
  "retry_or_give_up ex e a = Again \<Longrightarrow> \<not> ex"
  "retry_or_give_up ex e a = Finished w \<Longrightarrow>
     \<exists>x. wa_inner w = Inl x \<and> (wa_outcome w = OutcomeFailedRetryable \<longrightarrow> ex)"
  by (auto simp: retry_or_give_up_def aborted_attempt_def split: if_splits)

lemma resolve_maybe_log:
  assumes "resolve_maybe (logged sink) c ex abort p e (s, log) = (exit, p', (s', log'))"
  shows "\<exists>ext. log' = log @ ext \<and> pass_log c exit (CallWrite c (Inl (MaybeCommitted e)) # ext) \<and>
    (exit = Again \<longrightarrow> \<not> ex) \<and>
    (\<forall>w. exit = Finished w \<longrightarrow> wa_outcome w = OutcomeFailedRetryable \<longrightarrow> ex)"
  using assms
  by (intro exI [of _ "drop (length log) log'"])
    (auto simp: resolve_maybe_def select_call_def logged_def pass_log_def aborted_attempt_def
      retry_exhausted dest: retry_cases
      split: abort_point.splits prod.splits option.splits sum.splits commit_status.splits loop_exit.splits)

lemma write_once_log:
  assumes "write_once (logged sink) c ex abort p (s, log) = (exit, p', (s', log'))"
  shows "\<exists>ext. log' = log @ ext \<and> pass_log c exit ext \<and> (exit = Again \<longrightarrow> \<not> ex) \<and>
    (\<forall>w. exit = Finished w \<longrightarrow> wa_outcome w = OutcomeFailedRetryable \<longrightarrow> ex)"
proof (cases "\<exists>e s1 l1. select_call (abort p) (so_write (logged sink) c) (s, log) =
    (Some (Inl (MaybeCommitted e)), (s1, l1))")
  case True
  then obtain e s1 l1 where w:
    "select_call (abort p) (so_write (logged sink) c) (s, log) = (Some (Inl (MaybeCommitted e)), (s1, l1))"
    by blast
  then have l1: "l1 = log @ [CallWrite c (Inl (MaybeCommitted e))]"
    by (auto simp: select_call_def logged_def split: abort_point.splits prod.splits)
  have "resolve_maybe (logged sink) c ex abort (p + 1) e (s1, l1) = (exit, p', (s', log'))"
    using assms w by (simp add: write_once_def)
  from resolve_maybe_log [OF this] show ?thesis
    unfolding l1 by fastforce
next
  case False
  then show ?thesis
    using assms
    by (intro exI [of _ "drop (length log) log'"])
      (auto simp: write_once_def select_call_def logged_def pass_log_def aborted_attempt_def
        dest: retry_cases
        split: abort_point.splits prod.splits option.splits sum.splits sink_commit_failure.splits
          loop_exit.splits)
qed

lemma protocol_starts_with_write:
  "retry_protocol c tr \<Longrightarrow> tr = [] \<or> (\<exists>r rest. tr = CallWrite c r # rest)"
  by (induction c tr rule: retry_protocol.induct) (auto split: sink_call.splits)

lemma protocol_prepend:
  "pass_log c Again ext \<Longrightarrow> retry_protocol c tr \<Longrightarrow> retry_protocol c (ext @ tr)"
  using protocol_starts_with_write [of c tr] by (auto simp: pass_log_def) (case_tac st; simp)+

lemma pass_log_protocol: "pass_log c exit ext \<Longrightarrow> retry_protocol c ext"
  by (auto simp: pass_log_def split: loop_exit.splits)

lemma write_calls_simps [simp]:
  "write_calls [] = 0" "write_calls (xs @ ys) = write_calls xs + write_calls ys"
  "write_calls (CallWrite c r # xs) = Suc (write_calls xs)"
  "write_calls (CallCheck i st # xs) = write_calls xs"
  by (simp_all add: write_calls_def)

lemma pass_log_writes:
  "pass_log c exit ext \<Longrightarrow> write_calls ext \<le> 1" "pass_log c Again ext \<Longrightarrow> write_calls ext = 1"
  "pass_log c (Finished w) ext \<Longrightarrow> wa_outcome w = OutcomeFailedRetryable \<Longrightarrow> write_calls ext = 1"
  by (auto simp: pass_log_def split: loop_exit.splits)

definition loop_log :: "'r sink_commit \<Rightarrow> nat \<Rightarrow> write_attempt \<Rightarrow> 'r sink_call list \<Rightarrow> bool" where
  "loop_log c n w tr =
     (retry_protocol c tr \<and> write_calls tr \<le> Suc n \<and>
      (wa_outcome w = OutcomeFailedRetryable \<longrightarrow> write_calls tr = Suc n) \<and>
      (\<forall>r. wa_inner w = Inr (WroteCommitted r) \<longrightarrow> tr \<noteq> [] \<and> last tr = CallWrite c (Inr r)) \<and>
      (wa_inner w = Inr VerifiedAlreadyCommitted \<longrightarrow>
         tr \<noteq> [] \<and> last tr = CallCheck (sc_identity c) (Inr StatusCommitted)))"

lemma write_loop_log:
  assumes "attempt \<le> max_attempts"
    and "write_loop (logged sink) c max_attempts abort attempt p (s, log) = (w, (s', log'))"
  shows "\<exists>tr. log' = log @ tr \<and> loop_log c (unat max_attempts - unat attempt) w tr"
  using assms
proof (induction "unat max_attempts - unat attempt" arbitrary: attempt p s log rule: less_induct)
  case less
  obtain exit p1 s1 l1 where once:
    "write_once (logged sink) c (max_attempts \<le> attempt) abort p (s, log) = (exit, p1, (s1, l1))"
    by (metis prod_cases4)
  from write_once_log [OF once] obtain ext where l1: "l1 = log @ ext" and pl: "pass_log c exit ext"
    and go: "exit = Again \<longrightarrow> \<not> max_attempts \<le> attempt"
    and ex: "\<forall>w. exit = Finished w \<longrightarrow> wa_outcome w = OutcomeFailedRetryable \<longrightarrow> max_attempts \<le> attempt"
    by blast
  show ?case
  proof (cases exit)
    case (Finished v)
    then have v: "v = w" "l1 = log'"
      using less.prems(2) once by (simp_all add: write_loop.simps)
    have "loop_log c (unat max_attempts - unat attempt) w ext"
      using pl ex pass_log_protocol [OF pl] pass_log_writes(1) [OF pl] pass_log_writes(3) Finished v(1) less.prems(1)
      by (auto simp: loop_log_def pass_log_def word_le_nat_alt)
    then show ?thesis using l1 v by blast
  next
    case Again
    let ?next = "saturating_add attempt 1"
    have lt: "\<not> max_attempts \<le> attempt" using go Again by simp
    then have n: "unat ?next = Suc (unat attempt)" "?next \<le> max_attempts"
      using unat_bound_len [of max_attempts] by (simp_all add: word_to_nat word_le_nat_alt)
    have "write_loop (logged sink) c max_attempts abort ?next p1 (s1, l1) = (w, (s', log'))"
      using less.prems(2) once Again by (simp add: write_loop.simps [of _ _ _ _ attempt])
    then obtain tr where tr: "log' = l1 @ tr" "loop_log c (unat max_attempts - unat ?next) w tr"
      using less.hyps attempt_increases [OF lt] n(2) by blast
    have "loop_log c (unat max_attempts - unat attempt) w (ext @ tr)"
      using tr(2) protocol_prepend [of c ext tr] pass_log_writes(2) [of c ext] pl Again n lt
      by (auto simp: loop_log_def word_le_nat_alt)
    then show ?thesis using tr(1) l1 by auto
  qed
qed

text \<open>
  C15. The retry protocol: whatever the sink answers and whenever the hard abort strikes,
  \<open>write_with_retry\<close> returns, every write it issues is for the same commit with the same identity,
  there are at most \<open>max_attempts + 1\<close> of them (exactly that many when it gives up on a retryable
  failure), a write that may have committed is followed by \<open>check_committed\<close> for that identity
  before any further write, and it reports success only after a write that returned \<open>Ok\<close> or a
  check that returned \<open>Committed\<close>. (INV-SINK-RETRY-IDEMPOTENT, INV-MAYBE-COMMITTED-RESOLVES.)
\<close>

theorem write_with_retry_protocol:
  "case write_with_retry (logged sink) c opts abort (s, []) of
     (w, (s', tr)) \<Rightarrow>
       retry_protocol c tr \<and>
       write_calls tr \<le> Suc (unat (effective_retry_max_attempts opts)) \<and>
       (wa_outcome w = OutcomeFailedRetryable \<longrightarrow>
          write_calls tr = Suc (unat (effective_retry_max_attempts opts))) \<and>
       (\<forall>r. wa_inner w = Inr (WroteCommitted r) \<longrightarrow> tr \<noteq> [] \<and> last tr = CallWrite c (Inr r)) \<and>
       (wa_inner w = Inr VerifiedAlreadyCommitted \<longrightarrow>
          tr \<noteq> [] \<and> last tr = CallCheck (sc_identity c) (Inr StatusCommitted))"
proof -
  obtain w s' tr where run: "write_with_retry (logged sink) c opts abort (s, []) = (w, (s', tr))"
    by (metis prod_cases3)
  have "loop_log c (unat (effective_retry_max_attempts opts)) w tr"
    using write_loop_log [of 0 "effective_retry_max_attempts opts" sink c abort 0 s "[]" w s' tr] run
    by (simp add: write_with_retry_def)
  then show ?thesis
    unfolding run by (simp add: loop_log_def)
qed

definition flaky_sink :: "(unit, nat) sink_ops" where
  "flaky_sink =
     \<lparr>so_id = SinkId ''flaky'',
      so_write = (\<lambda>c n. (if n = 0 then Inl (NotCommitted ''refused'') else Inl (MaybeCommitted ''timeout''), Suc n)),
      so_check_committed = (\<lambda>i n. (Inr (if n < 3 then StatusUnknown else StatusCommitted), n))\<rparr>"

definition example_commit :: "unit sink_commit" where
  "example_commit =
     \<lparr>sc_identity = \<lparr>ci_source = SourceId ''s'', ci_sink = SinkId ''flaky'',
                      ci_range = sequence_range_new 4 4, ci_schema_version = SchemaVersion 1\<rparr>,
      sc_batch = \<lparr>db_source = SourceId ''s'', db_low_sequence = 4, db_high_sequence = 4,
                   db_source_entry_count = 0,
                   db_records = Typed \<lparr>tr_as_any = (), tr_record_count = 0, tr_estimated_bytes = 0,
                                       tr_schema = \<lparr>schema_name = ''logs'', schema_ver = SchemaVersion 1\<rparr>\<rparr>,
                   db_source_columns = \<lparr>sc_manifest_path = ''m'', sc_data_path = ''d'', sc_sequences = [],
                                         sc_entry_indices = [], sc_record_indices = [],
                                         sc_ingestion_time_ms = []\<rparr>,
                   db_stats = \<lparr>source_byte_count = 0, decoded_byte_estimate = 0\<rparr>,
                   db_schema_version = SchemaVersion 1\<rparr>\<rparr>"

theorem write_with_retry_protocol_witness:
  "\<exists>w n tr. write_with_retry (logged flaky_sink) example_commit runtime_options_default
      (\<lambda>_. NoAbort) (0, []) = (w, (n, tr)) \<and> retry_protocol example_commit tr \<and>
     wa_inner w = Inr VerifiedAlreadyCommitted \<and> write_calls tr = 3 \<and>
     last tr = CallCheck (sc_identity example_commit) (Inr StatusCommitted)"
proof -
  let ?r = "write_with_retry (logged flaky_sink) example_commit runtime_options_default
      (\<lambda>_. NoAbort) (0, [])"
  obtain w n tr where run: "?r = (w, (n, tr))" by (metis prod_cases3)
  have "wa_inner (fst ?r) = Inr VerifiedAlreadyCommitted" "write_calls (snd (snd ?r)) = 3"
    by code_simp+
  then show ?thesis
    using write_with_retry_protocol [where sink = flaky_sink and c = example_commit and s = 0
        and opts = runtime_options_default and abort = "\<lambda>_. NoAbort"] run by simp
qed

section \<open>What the sink trait promises\<close>

text \<open>
  \<open>sink_contract\<close>: the trait's documented promises, over a notion of what is durable in the sink's
  state. \<open>Ok\<close> from \<open>write\<close> and \<open>Committed\<close> from \<open>check_committed\<close> mean that the
  commit is durable, and no call takes durability away.
\<close>

locale sink_contract =
  fixes sink :: "('r, 's) sink_ops" and durable :: "'r sink_commit \<Rightarrow> 's \<Rightarrow> bool"
  assumes write_durable: "so_write sink c s = (Inr r, s') \<Longrightarrow> durable c s'"
    and check_durable:
      "so_check_committed sink (sc_identity c) s = (Inr StatusCommitted, s') \<Longrightarrow> durable c s'"
    and write_keeps: "durable c s \<Longrightarrow> durable c (snd (so_write sink d s))"
    and check_keeps: "durable c s \<Longrightarrow> durable c (snd (so_check_committed sink i s))"
begin

lemma select_write_keeps:
  "select_call a (so_write sink d) s = (x, s') \<Longrightarrow> durable c s \<Longrightarrow> durable c s'"
  using write_keeps [of c s d] by (auto simp: select_call_def split: abort_point.splits prod.splits)

lemma select_check_keeps:
  "select_call a (so_check_committed sink i) s = (x, s') \<Longrightarrow> durable c s \<Longrightarrow> durable c s'"
  using check_keeps [of c s i] by (auto simp: select_call_def split: abort_point.splits prod.splits)

lemma once_keeps:
  "write_once sink d ex abort p s = (e, p', s') \<Longrightarrow> durable c s \<Longrightarrow> durable c s'"
  by (auto simp: write_once_def resolve_maybe_def
      dest!: select_write_keeps [where c = c] select_check_keeps [where c = c]
      split: prod.splits option.splits sum.splits sink_commit_failure.splits commit_status.splits)

lemma once_durable:
  assumes "write_once sink c ex abort p s = (Finished w, p', s')" "is_ok (wa_inner w)"
  shows "durable c s'"
  using assms
  by (auto simp: write_once_def resolve_maybe_def select_call_def aborted_attempt_def is_ok_iff
      retry_or_give_up_def dest: write_durable check_durable
      split: prod.splits option.splits sum.splits sink_commit_failure.splits commit_status.splits
        abort_point.splits if_splits)

lemma retry_keeps_durable:
  assumes "durable d s" "write_with_retry sink c opts abort s = (w, s')"
  shows "durable d s'"
  using write_loop_exit [where P = "durable d", OF _ assms(1) assms(2) [unfolded write_with_retry_def]]
    once_keeps by blast

lemma retry_success_durable:
  assumes "write_with_retry sink c opts abort s = (w, s')" "is_ok (wa_inner w)"
  shows "durable c s'"
  using write_loop_exit [where P = "\<lambda>_. True", OF _ _ assms(1) [unfolded write_with_retry_def]]
    once_durable assms(2) by blast

end

end
