(* ===== verification/Decode_Stage.thy ===== *)
theory Decode_Stage
  imports Sink_Writer
begin

text \<open>
  The decode stage (\<open>runtime.rs\<close>: \<open>source_coords_bytes\<close>, \<open>decode_one\<close>,
  \<open>build_commit\<close>) over the \<open>Decoder\<close> trait (\<open>decoder.rs\<close>). A decoder is a record of
  its two methods. The locale \<open>decoder_contract\<close> is what the trait asks of an implementation;
  \<open>Otel_Logs\<close> interprets it on the OTLP logs decoder.
\<close>

section \<open>Definitions\<close>

record 'r decoder_ops =
  dec_accepts :: "bytes \<Rightarrow> bool"
  dec_decode :: "source_batch \<Rightarrow> runtime_error + 'r decoded_batch list"

definition records_estimated_bytes :: "'r decoded_records \<Rightarrow> nat" where
  "records_estimated_bytes r = (case r of Typed t \<Rightarrow> tr_estimated_bytes t)"

definition records_count :: "'r decoded_records \<Rightarrow> nat" where
  "records_count r = (case r of Typed t \<Rightarrow> tr_record_count t)"

definition source_coords_bytes :: "source_coordinate_columns \<Rightarrow> u64" where
  "source_coords_bytes coords =
     (let strings = length (sc_manifest_path coords) + length (sc_data_path coords);
          n = length (sc_sequences coords);
          per_row = 8 + 4 + 4 + 8
      in word_of_nat (strings + n * per_row))"

definition build_commit ::
  "sink_id \<Rightarrow> u64 \<Rightarrow> u64 \<Rightarrow> 'r decoded_batch \<Rightarrow> 'r sink_commit" where
  "build_commit sink low high batch =
     \<lparr>sc_identity = \<lparr>ci_source = db_source batch, ci_sink = sink,
                     ci_range = sequence_range_new low high,
                     ci_schema_version = db_schema_version batch\<rparr>,
      sc_batch = batch\<rparr>"

datatype 'r decode_outcome = Live "'r sink_commit" "u64 \<times> u64" | DryRun "u64 \<times> u64" u64

definition actual_bytes :: "'r decoded_batch \<Rightarrow> u64" where
  "actual_bytes decoded =
     word_of_nat (records_estimated_bytes (db_records decoded)) +
     source_coords_bytes (db_source_columns decoded)"

definition fault_limit :: "backpressure_options \<Rightarrow> u64" where
  "fault_limit bp =
     saturating_mul (estimated_max_batch_bytes bp) (ucast (oversize_fault_multiplier bp))"

definition finish_decode ::
  "runtime_options \<Rightarrow> sink_id \<Rightarrow> 'r decoded_batch \<Rightarrow> 'r decode_outcome" where
  "finish_decode opts sink decoded =
     (let low = db_low_sequence decoded; high = db_high_sequence decoded;
          row_count = word_of_nat (records_count (db_records decoded))
      in if dry_run opts then DryRun (low, high) row_count
         else Live (build_commit sink low high decoded) (low, high))"

definition check_decoded ::
  "u64 \<Rightarrow> backpressure_options \<Rightarrow> 'r decoded_batch list \<Rightarrow> runtime_error + 'r decoded_batch" where
  "check_decoded admitted bp batches =
     (case batches of
        [] \<Rightarrow> Inl (ErrDecoder EmptyDecodedBatches)
      | [decoded] \<Rightarrow>
          (let low = db_low_sequence decoded; high = db_high_sequence decoded in
           if low \<noteq> admitted \<or> high \<noteq> admitted
           then Inl (ErrPipeline (RangeMismatch low high admitted))
           else if fault_limit bp < actual_bytes decoded
           then Inl (ErrPipeline (OversizeBatch low high (actual_bytes decoded) (fault_limit bp)
                       (estimated_max_batch_bytes bp) (oversize_fault_multiplier bp)))
           else Inr decoded)
      | _ \<Rightarrow> Inl (ErrDecoder (NotOneDecodedBatch (length batches))))"

definition decode_one ::
  "'r decoder_ops \<Rightarrow> runtime_options \<Rightarrow> sink_id \<Rightarrow> source_batch \<Rightarrow> u64 \<Rightarrow> backpressure_options \<Rightarrow>
   budget \<Rightarrow> reservation \<Rightarrow> (runtime_error + 'r decode_outcome) \<times> budget \<times> reservation" where
  "decode_one decoder opts sink batch admitted bp b r =
     (if sb_entries batch \<noteq> [] \<and> \<not> dec_accepts decoder (raw_metadata (hd (sb_entries batch)))
      then (Inl (ErrDecoder MetadataRejected), b, r)
      else
        (case dec_decode decoder batch of
           Inl e \<Rightarrow> (Inl e, b, r)
         | Inr batches \<Rightarrow>
             (case check_decoded admitted bp batches of
                Inl e \<Rightarrow> (Inl e, b, r)
              | Inr decoded \<Rightarrow>
                  (let (b', r') = reconcile (actual_bytes decoded) b r
                   in (Inr (finish_decode opts sink decoded), b', r')))))"

section \<open>Decoding one batch\<close>

lemma reconcile_held [simp]: "held (snd (reconcile n b r)) = n"
  by (simp add: reconcile_def Let_def)

lemma check_decoded_ok:
  "check_decoded admitted bp batches = Inr decoded \<longleftrightarrow>
     batches = [decoded] \<and> db_low_sequence decoded = admitted \<and> db_high_sequence decoded = admitted \<and>
     actual_bytes decoded \<le> fault_limit bp"
  by (auto simp: check_decoded_def Let_def not_less split: list.splits if_splits)

lemma decode_one_ok:
  assumes "decode_one decoder opts sink batch admitted bp b r = (Inr out, b', r')"
  obtains decoded where "dec_decode decoder batch = Inr [decoded]"
    "db_low_sequence decoded = admitted" "db_high_sequence decoded = admitted"
    "actual_bytes decoded \<le> fault_limit bp" "reconcile (actual_bytes decoded) b r = (b', r')"
    "out = finish_decode opts sink decoded"
  using assms by (auto simp: decode_one_def check_decoded_ok split: sum.splits prod.splits if_splits)

lemma decode_one_error:
  "decode_one decoder opts sink batch admitted bp b r = (Inl e, b', r') \<Longrightarrow> b' = b \<and> r' = r"
  by (auto simp: decode_one_def split: sum.splits prod.splits if_splits)

lemma fault_limit_bound:
  "unat (fault_limit bp) =
     min (unat (estimated_max_batch_bytes bp) * unat (oversize_fault_multiplier bp)) (2 ^ 64 - 1)"
  by (simp add: fault_limit_def word_to_nat)

text \<open>
  C16. The decode stage delivers what admission registered or fails without trace: for any decoder, if
  \<open>decode_one\<close> succeeds, the decoder produced exactly one batch for exactly the admitted sequence,
  the outcome carries that range and, outside dry-run, a commit whose identity is that source, this
  sink, that range and the batch's schema version; the reservation now holds the real size, which is
  at most the multiple of the estimate that the oversize gate allows. If it fails, the budget and the
  reservation are unchanged.
\<close>

theorem decode_one_sound:
  "case decode_one decoder opts sink batch admitted bp b r of
     (Inl e, b', r') \<Rightarrow> b' = b \<and> r' = r
   | (Inr out, b', r') \<Rightarrow>
       (\<exists>d. dec_decode decoder batch = Inr [d] \<and> held r' = actual_bytes d \<and>
          unat (held r') \<le> unat (estimated_max_batch_bytes bp) * unat (oversize_fault_multiplier bp) \<and>
          in_flight b' + held r = in_flight b + held r' \<and>
          (if dry_run opts
           then out = DryRun (admitted, admitted) (word_of_nat (records_count (db_records d)))
           else \<exists>c. out = Live c (admitted, admitted) \<and> sc_batch c = d \<and>
                  display_commit_identity (sc_identity c) =
                    display_source_id (db_source d) @ '':'' @ display_sink_id sink @ '':'' @
                    display_sequence_range (sequence_range_new admitted admitted) @ '':'' @
                    display_schema_version (db_schema_version d)))"
proof -
  obtain res b' r' where run: "decode_one decoder opts sink batch admitted bp b r = (res, b', r')"
    by (metis prod_cases3)
  show ?thesis
  proof (cases res)
    case (Inl e)
    then show ?thesis using run decode_one_error [of decoder opts sink batch admitted bp b r e b' r'] by simp
  next
    case (Inr out)
    then obtain d where d: "dec_decode decoder batch = Inr [d]" "db_low_sequence d = admitted"
      "db_high_sequence d = admitted" "actual_bytes d \<le> fault_limit bp"
      "reconcile (actual_bytes d) b r = (b', r')" "out = finish_decode opts sink d"
      using run decode_one_ok by metis
    have h: "held r' = actual_bytes d"
      using reconcile_held [of "actual_bytes d" b r] d(5) by simp
    have "in_flight b' + held r = in_flight b + held r'"
      using flight.change [of b r "OpReconcile (actual_bytes d)" b' "Some r'"] d(5) by simp
    moreover have "unat (actual_bytes d) \<le> unat (estimated_max_batch_bytes bp) * unat (oversize_fault_multiplier bp)"
      using d(4) fault_limit_bound [of bp] by (simp add: word_le_nat_alt)
    ultimately show ?thesis
      using d h
      by (auto simp: run Inr finish_decode_def Let_def build_commit_def display_commit_identity_def)
  qed
qed

theorem decode_one_sound_witness:
  "let d = sc_batch example_commit;
       decoder = \<lparr>dec_accepts = (\<lambda>m. True), dec_decode = (\<lambda>b. Inr [d])\<rparr>;
       batch = \<lparr>sb_source = SourceId ''s'', sb_sequence = 4, sb_manifest_path = ''m'',
                sb_data_object_path = ''d'', sb_entries = []\<rparr>;
       (res, b', r') = decode_one decoder (runtime_options_default\<lparr>dry_run := False\<rparr>) (SinkId ''ch'') batch 4
          backpressure_default (budget_new (SourceId ''s'') 100) \<lparr>held = 0, stage = Some 2\<rparr>
   in (\<exists>c. res = Inr (Live c (4, 4)) \<and> sc_batch c = d) \<and> in_flight b' = 2"
proof -
  let ?d = "sc_batch example_commit"
  let ?decoder = "\<lparr>dec_accepts = (\<lambda>m. True), dec_decode = (\<lambda>b. Inr [?d])\<rparr>"
  let ?batch = "\<lparr>sb_source = SourceId ''s'', sb_sequence = 4, sb_manifest_path = ''m'',
                sb_data_object_path = ''d'', sb_entries = []\<rparr>"
  let ?opts = "runtime_options_default\<lparr>dry_run := False\<rparr>"
  let ?b = "budget_new (SourceId ''s'') 100" and ?r = "\<lparr>held = 0, stage = Some 2\<rparr>"
  let ?run = "decode_one ?decoder ?opts (SinkId ''ch'') ?batch 4 backpressure_default ?b ?r"
  obtain res b' r' where run: "?run = (res, b', r')" by (metis prod_cases3)
  have "is_ok (fst ?run)" "held (snd (snd ?run)) = 2" "in_flight ?b = 0"
    by code_simp+
  then obtain out where res: "res = Inr out" and h: "held r' = 2"
    using run by (auto simp: is_ok_iff)
  show ?thesis
    using decode_one_sound [where decoder = ?decoder and opts = ?opts and sink = "SinkId ''ch''"
        and batch = ?batch and admitted = 4 and bp = backpressure_default and b = ?b and r = ?r]
      \<open>in_flight ?b = 0\<close> h
    unfolding Let_def run res by auto
qed

section \<open>What the decoder trait asks\<close>

text \<open>
  \<open>decoder_contract\<close>: a decoder returns exactly one batch that covers exactly the input sequence and
  keeps the source. Then the stage can only fail for the three reasons that are not the decoder's
  fault: metadata it does not accept, a batch it cannot decode, or a batch above the oversize limit.
\<close>

locale decoder_contract =
  fixes decoder :: "'r decoder_ops"
  assumes one_batch: "dec_decode decoder batch = Inr ds \<Longrightarrow>
    \<exists>d. ds = [d] \<and> db_low_sequence d = sb_sequence batch \<and> db_high_sequence d = sb_sequence batch \<and>
        db_source d = sb_source batch"
begin

lemma decode_one_errors:
  assumes "decode_one decoder opts sink batch (sb_sequence batch) bp b r = (Inl e, b', r')"
  shows "e = ErrDecoder MetadataRejected \<or> dec_decode decoder batch = Inl e \<or>
    (\<exists>d. dec_decode decoder batch = Inr [d] \<and> fault_limit bp < actual_bytes d)"
proof (cases "dec_decode decoder batch")
  case (Inl x)
  then show ?thesis using assms by (auto simp: decode_one_def split: if_splits)
next
  case (Inr ds)
  then obtain d where d: "ds = [d]" "db_low_sequence d = sb_sequence batch"
    "db_high_sequence d = sb_sequence batch" "db_source d = sb_source batch"
    using one_batch by blast
  then show ?thesis
    using assms Inr by (auto simp: decode_one_def check_decoded_def Let_def split: if_splits prod.splits)
qed

end

end
