(* ===== verification/Otel_Envelope.thy ===== *)
theory Otel_Envelope
  imports Decode_Stage
begin

text \<open>
  The per-entry metadata envelope of the OTLP decoder (\<open>envelope.rs\<close>): the four-byte header
  \<open>{version, signal_type, encoding, reserved}\<close>, its parser with one error per check in the order
  of the source, and the validation against the configured envelope.
\<close>

section \<open>Definitions\<close>

datatype signal_type = SignalMetrics | SignalLogs | SignalTraces

fun signal_as_byte :: "signal_type \<Rightarrow> u8" where
  "signal_as_byte SignalMetrics = 1"
| "signal_as_byte SignalLogs = 2"
| "signal_as_byte SignalTraces = 3"

definition signal_from_byte :: "u8 \<Rightarrow> signal_type option" where
  "signal_from_byte b =
     (if b = 1 then Some SignalMetrics else if b = 2 then Some SignalLogs
      else if b = 3 then Some SignalTraces else None)"

fun signal_name :: "signal_type \<Rightarrow> string" where
  "signal_name SignalMetrics = ''metrics''"
| "signal_name SignalLogs = ''logs''"
| "signal_name SignalTraces = ''traces''"

datatype payload_encoding = OtlpProtobuf

fun encoding_as_byte :: "payload_encoding \<Rightarrow> u8" where
  "encoding_as_byte OtlpProtobuf = 1"

definition encoding_from_byte :: "u8 \<Rightarrow> payload_encoding option" where
  "encoding_from_byte b = (if b = 1 then Some OtlpProtobuf else None)"

fun encoding_name :: "payload_encoding \<Rightarrow> string" where
  "encoding_name OtlpProtobuf = ''otlp_protobuf''"

record metadata_envelope =
  env_version :: u8
  env_signal :: signal_type
  env_encoding :: payload_encoding
  env_reserved :: u8

record configured_envelope =
  cfg_version :: u8
  cfg_signal :: signal_type
  cfg_encoding :: payload_encoding

definition envelope_matches :: "configured_envelope \<Rightarrow> metadata_envelope \<Rightarrow> bool" where
  "envelope_matches c env =
     (cfg_version c = env_version env \<and> cfg_signal c = env_signal env \<and>
      cfg_encoding c = env_encoding env)"

datatype envelope_error =
    TooShort u32 nat nat
  | UnsupportedVersion u32 u8
  | UnsupportedSignal u32 u8
  | UnsupportedEncoding u32 u8
  | EnvelopeMismatch u32 u8 string string u8 string string

definition envelope_len :: nat where
  "envelope_len = 4"

definition decode_envelope :: "u32 \<Rightarrow> bytes \<Rightarrow> envelope_error + metadata_envelope" where
  "decode_envelope idx payload =
     (if length payload < envelope_len then Inl (TooShort idx (length payload) envelope_len)
      else if payload ! 0 \<noteq> 1 then Inl (UnsupportedVersion idx (payload ! 0))
      else
        (case signal_from_byte (payload ! 1) of
           None \<Rightarrow> Inl (UnsupportedSignal idx (payload ! 1))
         | Some sig \<Rightarrow>
             (case encoding_from_byte (payload ! 2) of
                None \<Rightarrow> Inl (UnsupportedEncoding idx (payload ! 2))
              | Some enc \<Rightarrow>
                  Inr \<lparr>env_version = payload ! 0, env_signal = sig, env_encoding = enc,
                       env_reserved = payload ! 3\<rparr>)))"

definition decode_envelopes :: "source_batch \<Rightarrow> envelope_error + metadata_envelope list" where
  "decode_envelopes batch =
     try_map (\<lambda>entry. decode_envelope (entry_index entry) (raw_metadata entry)) (sb_entries batch)"

fun validate_from ::
  "nat \<Rightarrow> metadata_envelope list \<Rightarrow> configured_envelope \<Rightarrow> envelope_error + unit" where
  "validate_from i [] c = Inr ()"
| "validate_from i (env # envs) c =
     (if \<not> envelope_matches c env
      then Inl (EnvelopeMismatch (word_of_nat i) (env_version env) (signal_name (env_signal env))
                  (encoding_name (env_encoding env)) (cfg_version c) (signal_name (cfg_signal c))
                  (encoding_name (cfg_encoding c)))
      else validate_from (Suc i) envs c)"

definition validate_consistent ::
  "metadata_envelope list \<Rightarrow> configured_envelope \<Rightarrow> envelope_error + unit" where
  "validate_consistent envs c = validate_from 0 envs c"

definition display_envelope_error :: "envelope_error \<Rightarrow> string" where
  "display_envelope_error e =
     (case e of
        TooShort i n m \<Rightarrow>
          ''entry '' @ show_word i @ '': envelope is '' @ show_nat n @ '' bytes; expected at least '' @ show_nat m
      | UnsupportedVersion i v \<Rightarrow> ''entry '' @ show_word i @ '': unsupported version '' @ show_word v
      | UnsupportedSignal i b \<Rightarrow> ''entry '' @ show_word i @ '': unsupported signal_type byte '' @ show_word b
      | UnsupportedEncoding i b \<Rightarrow> ''entry '' @ show_word i @ '': unsupported encoding byte '' @ show_word b
      | EnvelopeMismatch i v s en v' s' en' \<Rightarrow>
          ''entry '' @ show_word i @ '': envelope (v'' @ show_word v @ '', signal='' @ s @ '', encoding='' @ en @
          '') does not match configured (v'' @ show_word v' @ '', signal='' @ s' @ '', encoding='' @ en' @ '')'')"

section \<open>Parsing\<close>

lemma signal_from_byte_iff: "signal_from_byte b = Some s \<longleftrightarrow> b = signal_as_byte s"
  by (cases s) (auto simp: signal_from_byte_def)

lemma encoding_from_byte_iff: "encoding_from_byte b = Some x \<longleftrightarrow> b = encoding_as_byte x"
  by (cases x) (auto simp: encoding_from_byte_def)

lemma signal_names_distinct: "signal_name s = signal_name t \<Longrightarrow> s = t"
  by (cases s; cases t) simp_all

lemma length_ge_4: "\<not> length xs < 4 \<Longrightarrow> \<exists>a b c d rest. xs = a # b # c # d # rest"
  by (auto simp: not_less Suc_le_length_iff eval_nat_numeral)

lemma envelope_bytes:
  "decode_envelope i payload = Inr env \<longleftrightarrow>
     env_version env = 1 \<and>
     (\<exists>rest. payload = [1, signal_as_byte (env_signal env), encoding_as_byte (env_encoding env),
                         env_reserved env] @ rest)"
proof (cases "length payload < 4")
  case True
  then show ?thesis by (auto simp: decode_envelope_def envelope_len_def)
next
  case False
  then obtain a b c d rest where p: "payload = a # b # c # d # rest"
    using length_ge_4 by blast
  show ?thesis
  proof
    assume "decode_envelope i payload = Inr env"
    then show "env_version env = 1 \<and>
     (\<exists>rest. payload = [1, signal_as_byte (env_signal env), encoding_as_byte (env_encoding env),
                         env_reserved env] @ rest)"
      by (auto simp: decode_envelope_def p envelope_len_def signal_from_byte_iff encoding_from_byte_iff
          split: if_splits option.splits)
  next
    assume "env_version env = 1 \<and>
     (\<exists>rest. payload = [1, signal_as_byte (env_signal env), encoding_as_byte (env_encoding env),
                         env_reserved env] @ rest)"
    moreover have "signal_from_byte (signal_as_byte (env_signal env)) = Some (env_signal env)"
      "encoding_from_byte (encoding_as_byte (env_encoding env)) = Some (env_encoding env)"
      by (simp_all add: signal_from_byte_iff encoding_from_byte_iff)
    ultimately show "decode_envelope i payload = Inr env"
      by (auto simp: decode_envelope_def envelope_len_def)
  qed
qed

lemma validate_from_ok: "validate_from i envs c = Inr () \<longleftrightarrow> list_all (envelope_matches c) envs"
  by (induction i envs c rule: validate_from.induct) auto

lemma decode_envelopes_ok:
  "decode_envelopes batch = Inr envs \<longleftrightarrow>
     list_all2 (\<lambda>entry env. decode_envelope (entry_index entry) (raw_metadata entry) = Inr env)
       (sb_entries batch) envs"
  by (simp add: decode_envelopes_def try_map_Inr_iff)

text \<open>
  C21. The envelope parser accepts exactly the encodings: an envelope is returned precisely when the
  payload is the version byte 1, the signal's byte, the encoding's byte and the reserved byte, followed
  by anything; so parsing what the byte functions print gives the envelope back, and two different
  envelopes never have the same bytes.
\<close>

theorem decode_envelope_iff:
  "(decode_envelope i payload = Inr env \<longleftrightarrow>
     env_version env = 1 \<and>
     (\<exists>rest. payload = [1, signal_as_byte (env_signal env), encoding_as_byte (env_encoding env),
                         env_reserved env] @ rest)) \<and>
   decode_envelope i ([1, signal_as_byte sig, encoding_as_byte enc, r] @ rest) =
     Inr \<lparr>env_version = 1, env_signal = sig, env_encoding = enc, env_reserved = r\<rparr>"
  by (simp add: envelope_bytes)

end
