(* ===== verification/Otel_Logs.thy ===== *)
theory Otel_Logs
  imports Otel_Envelope
begin

text \<open>
  The OTLP logs decoder (\<open>logs.rs\<close>). The message types are the fields of the OTLP protobuf that
  this repository reads; decoding a protobuf message (\<open>prost\<close>), hexadecimal encoding
  (\<open>hex\<close>), the text of a double and the size of the Rust struct are parameters
  (\<open>otel_externs\<close>). \<open>otlp_logs_decoder\<close> is the \<open>Decoder\<close> instance; it is shown to meet
  \<open>decoder_contract\<close>, and its records to be in strictly increasing coordinate order with the
  coordinate columns in lockstep.
\<close>

section \<open>Definitions\<close>

datatype any_value = AnyValue "otlp_value option"
and otlp_value =
    StringValue string
  | BoolValue bool
  | IntValue i64
  | DoubleValue u64
  | BytesValue bytes
  | ArrayValue "any_value list"
  | KvlistValue "(string \<times> any_value option) list"

record key_value =
  kv_key :: string
  kv_value :: "any_value option"

record otlp_scope =
  scope_name_field :: string
  scope_attributes :: "key_value list"

record log_record =
  time_unix_nano :: u64
  observed_time_unix_nano :: u64
  lr_severity_number :: i32
  lr_severity_text :: string
  lr_body :: "any_value option"
  lr_attributes :: "key_value list"
  lr_trace_id :: bytes
  lr_span_id :: bytes

record scope_logs =
  sl_scope :: "otlp_scope option"
  sl_log_records :: "log_record list"

record resource_logs =
  rl_resource :: "key_value list option"
  rl_scope_logs :: "scope_logs list"

type_synonym export_request = "resource_logs list"

record otel_externs =
  ox_decode :: "bytes \<Rightarrow> string + export_request"
  ox_hex :: "bytes \<Rightarrow> string"
  ox_f64 :: "u64 \<Rightarrow> string"
  ox_record_size :: nat

type_synonym string_map = "(string, string) btree"

record row_source_coordinates =
  buffer_sequence :: u64
  rs_entry_index :: u32
  rs_record_index :: u32
  rs_manifest_path :: string
  rs_data_path :: string
  rs_ingestion_time_ms :: i64

record decoded_log_record =
  dl_source :: row_source_coordinates
  timestamp_unix_nano :: u64
  observed_timestamp_unix_nano :: u64
  severity_number :: i32
  severity_text :: string
  body :: string
  service_name :: "string option"
  resource_attributes :: string_map
  scope_name :: "string option"
  log_attributes :: string_map
  trace_id_hex :: string
  span_id_hex :: string

definition attributes_size :: "string_map \<Rightarrow> nat" where
  "attributes_size m = sum_list (map (\<lambda>(k, v). length k + length v) m)"

definition approx_size_bytes :: "otel_externs \<Rightarrow> decoded_log_record \<Rightarrow> nat" where
  "approx_size_bytes x r =
     ox_record_size x + length (severity_text r) + length (body r) +
     (case service_name r of Some s \<Rightarrow> length s | None \<Rightarrow> 0) +
     (case scope_name r of Some s \<Rightarrow> length s | None \<Rightarrow> 0) +
     (length (trace_id_hex r) + length (span_id_hex r)) +
     attributes_size (resource_attributes r) + attributes_size (log_attributes r)"

definition string_value :: "otel_externs \<Rightarrow> any_value option \<Rightarrow> string option" where
  "string_value x value =
     (case (case value of None \<Rightarrow> None | Some (AnyValue v) \<Rightarrow> v) of
        Some (StringValue s) \<Rightarrow> Some s
      | Some (BoolValue b) \<Rightarrow> Some (show_bool b)
      | Some (IntValue i) \<Rightarrow> Some (show_int (sint i))
      | Some (DoubleValue d) \<Rightarrow> Some (ox_f64 x d)
      | Some (BytesValue bs) \<Rightarrow> Some (ox_hex x bs)
      | Some (ArrayValue _) \<Rightarrow> Some ''<complex>''
      | Some (KvlistValue _) \<Rightarrow> Some ''<complex>''
      | None \<Rightarrow> None)"

definition any_value_to_string :: "otel_externs \<Rightarrow> any_value option \<Rightarrow> string" where
  "any_value_to_string x value = (case string_value x value of Some s \<Rightarrow> s | None \<Rightarrow> [])"

fun merge_attributes :: "otel_externs \<Rightarrow> key_value list \<Rightarrow> string_map \<Rightarrow> string_map" where
  "merge_attributes x [] dst = dst"
| "merge_attributes x (kv # kvs) dst =
     merge_attributes x kvs
       (case string_value x (kv_value kv) of
          Some v \<Rightarrow> bt_insert (kv_key kv) v dst
        | None \<Rightarrow> dst)"

fun resource_fields ::
  "otel_externs \<Rightarrow> key_value list \<Rightarrow> string_map \<times> string option \<Rightarrow> string_map \<times> string option" where
  "resource_fields x [] acc = acc"
| "resource_fields x (kv # kvs) (attrs, svc) =
     resource_fields x kvs
       (case string_value x (kv_value kv) of
          Some v \<Rightarrow>
            (bt_insert (kv_key kv) v attrs, if kv_key kv = ''service.name'' then Some v else svc)
        | None \<Rightarrow> (attrs, svc))"

definition log_to_record ::
  "otel_externs \<Rightarrow> source_batch \<Rightarrow> source_entry \<Rightarrow> string_map \<Rightarrow> string option \<Rightarrow> otlp_scope option \<Rightarrow>
   log_record \<Rightarrow> u32 \<Rightarrow> decoded_log_record" where
  "log_to_record x batch entry attrs svc scope log idx =
     \<lparr>dl_source = \<lparr>buffer_sequence = sb_sequence batch, rs_entry_index = entry_index entry,
                   rs_record_index = idx, rs_manifest_path = sb_manifest_path batch,
                   rs_data_path = sb_data_object_path batch,
                   rs_ingestion_time_ms = se_ingestion_time_ms entry\<rparr>,
      timestamp_unix_nano = time_unix_nano log,
      observed_timestamp_unix_nano = observed_time_unix_nano log,
      severity_number = lr_severity_number log,
      severity_text = lr_severity_text log,
      body = any_value_to_string x (lr_body log),
      service_name = svc,
      resource_attributes = attrs,
      scope_name = map_option scope_name_field scope,
      log_attributes =
        (let m = merge_attributes x (lr_attributes log) [] in
         case scope of Some s \<Rightarrow> merge_attributes x (scope_attributes s) m | None \<Rightarrow> m),
      trace_id_hex = ox_hex x (lr_trace_id log),
      span_id_hex = ox_hex x (lr_span_id log)\<rparr>"

fun decode_logs_from ::
  "otel_externs \<Rightarrow> source_batch \<Rightarrow> source_entry \<Rightarrow> string_map \<Rightarrow> string option \<Rightarrow> otlp_scope option \<Rightarrow>
   log_record list \<Rightarrow> u32 \<Rightarrow> decoded_log_record list \<times> u32" where
  "decode_logs_from x batch entry attrs svc scope [] idx = ([], idx)"
| "decode_logs_from x batch entry attrs svc scope (log # logs) idx =
     (let (rs, idx') = decode_logs_from x batch entry attrs svc scope logs (idx + 1)
      in (log_to_record x batch entry attrs svc scope log idx # rs, idx'))"

fun decode_scopes ::
  "otel_externs \<Rightarrow> source_batch \<Rightarrow> source_entry \<Rightarrow> string_map \<Rightarrow> string option \<Rightarrow> scope_logs list \<Rightarrow> u32 \<Rightarrow>
   decoded_log_record list \<times> u32" where
  "decode_scopes x batch entry attrs svc [] idx = ([], idx)"
| "decode_scopes x batch entry attrs svc (s # ss) idx =
     (let (rs, idx1) = decode_logs_from x batch entry attrs svc (sl_scope s) (sl_log_records s) idx;
          (rs', idx2) = decode_scopes x batch entry attrs svc ss idx1
      in (rs @ rs', idx2))"

fun decode_resources ::
  "otel_externs \<Rightarrow> source_batch \<Rightarrow> source_entry \<Rightarrow> resource_logs list \<Rightarrow> u32 \<Rightarrow>
   decoded_log_record list \<times> u32" where
  "decode_resources x batch entry [] idx = ([], idx)"
| "decode_resources x batch entry (r # rls) idx =
     (let (attrs, svc) =
            (case rl_resource r of Some kvs \<Rightarrow> resource_fields x kvs ([], None) | None \<Rightarrow> ([], None));
          (rs, idx1) = decode_scopes x batch entry attrs svc (rl_scope_logs r) idx;
          (rs', idx2) = decode_resources x batch entry rls idx1
      in (rs @ rs', idx2))"

datatype otel_decode_error = LogsDecodeFailed u64 u32 string

definition display_otel_decode_error :: "otel_decode_error \<Rightarrow> string" where
  "display_otel_decode_error e =
     (case e of LogsDecodeFailed q i src \<Rightarrow>
        ''OTLP logs decode failed for sequence='' @ show_word q @ '' entry_index='' @ show_word i @
        '': '' @ src)"

definition decode_entry ::
  "otel_externs \<Rightarrow> source_batch \<Rightarrow> source_entry \<Rightarrow> otel_decode_error + decoded_log_record list" where
  "decode_entry x batch entry =
     (case ox_decode x (raw_bytes entry) of
        Inl e \<Rightarrow> Inl (LogsDecodeFailed (sb_sequence batch) (entry_index entry) e)
      | Inr req \<Rightarrow> Inr (fst (decode_resources x batch entry req 0)))"

definition decode_logs ::
  "otel_externs \<Rightarrow> source_batch \<Rightarrow> otel_decode_error + decoded_log_record list" where
  "decode_logs x batch =
     (case try_map (decode_entry x batch) (sb_entries batch) of
        Inl e \<Rightarrow> Inl e
      | Inr rss \<Rightarrow> Inr (concat rss))"

definition logs_expected :: configured_envelope where
  "logs_expected = \<lparr>cfg_version = 1, cfg_signal = SignalLogs, cfg_encoding = OtlpProtobuf\<rparr>"

definition logs_accepts :: "bytes \<Rightarrow> bool" where
  "logs_accepts m =
     (case decode_envelope 0 m of Inl _ \<Rightarrow> False | Inr env \<Rightarrow> envelope_matches logs_expected env)"

definition typed_decoded_logs ::
  "otel_externs \<Rightarrow> decoded_log_record list \<Rightarrow> decoded_log_record list typed_records" where
  "typed_decoded_logs x records =
     \<lparr>tr_as_any = records, tr_record_count = length records,
      tr_estimated_bytes = sum_list (map (approx_size_bytes x) records),
      tr_schema = \<lparr>schema_name = ''opendata.otel.logs.v1'', schema_ver = SchemaVersion 1\<rparr>\<rparr>"

definition logs_batch ::
  "otel_externs \<Rightarrow> source_batch \<Rightarrow> decoded_log_record list \<Rightarrow> decoded_log_record list decoded_batch" where
  "logs_batch x batch records =
     \<lparr>db_source = sb_source batch, db_low_sequence = sb_sequence batch,
      db_high_sequence = sb_sequence batch,
      db_source_entry_count = word_of_nat (length (sb_entries batch)),
      db_records = Typed (typed_decoded_logs x records),
      db_source_columns =
        \<lparr>sc_manifest_path = sb_manifest_path batch, sc_data_path = sb_data_object_path batch,
         sc_sequences = map (buffer_sequence \<circ> dl_source) records,
         sc_entry_indices = map (rs_entry_index \<circ> dl_source) records,
         sc_record_indices = map (rs_record_index \<circ> dl_source) records,
         sc_ingestion_time_ms = map (rs_ingestion_time_ms \<circ> dl_source) records\<rparr>,
      db_stats = \<lparr>source_byte_count = 0,
                  decoded_byte_estimate = sum_list (map (word_of_nat \<circ> approx_size_bytes x) records)\<rparr>,
      db_schema_version = SchemaVersion 1\<rparr>"

definition logs_decode ::
  "otel_externs \<Rightarrow> source_batch \<Rightarrow> runtime_error + decoded_log_record list decoded_batch list" where
  "logs_decode x batch =
     (case decode_envelopes batch of
        Inl e \<Rightarrow> Inl (ErrDecoder (DecoderFailed (display_envelope_error e)))
      | Inr envs \<Rightarrow>
          (case validate_consistent envs logs_expected of
             Inl e \<Rightarrow> Inl (ErrDecoder (DecoderFailed (display_envelope_error e)))
           | Inr _ \<Rightarrow>
               (case decode_logs x batch of
                  Inl e \<Rightarrow> Inl (ErrDecoder (DecoderFailed (display_otel_decode_error e)))
                | Inr records \<Rightarrow> Inr [logs_batch x batch records])))"

definition otlp_logs_decoder :: "otel_externs \<Rightarrow> decoded_log_record list decoder_ops" where
  "otlp_logs_decoder x = \<lparr>dec_accepts = logs_accepts, dec_decode = logs_decode x\<rparr>"

text \<open>Reference notions: how many log records an entry holds, and the coordinates of a record.\<close>

definition request_size :: "export_request \<Rightarrow> nat" where
  "request_size req =
     sum_list (map (\<lambda>r. sum_list (map (length \<circ> sl_log_records) (rl_scope_logs r))) req)"

definition coordinates :: "decoded_log_record \<Rightarrow> nat \<times> nat \<times> nat" where
  "coordinates r =
     (unat (buffer_sequence (dl_source r)), unat (rs_entry_index (dl_source r)),
      unat (rs_record_index (dl_source r)))"

definition coord_less :: "nat \<times> nat \<times> nat \<Rightarrow> nat \<times> nat \<times> nat \<Rightarrow> bool" where
  "coord_less a b =
     (fst a < fst b \<or> fst a = fst b \<and>
       (fst (snd a) < fst (snd b) \<or> fst (snd a) = fst (snd b) \<and> snd (snd a) < snd (snd b)))"

section \<open>The decoder meets the contract\<close>

interpretation otlp: decoder_contract "otlp_logs_decoder x" for x
  by unfold_locales
    (auto simp: otlp_logs_decoder_def logs_decode_def logs_batch_def split: sum.splits)

section \<open>Records and coordinates\<close>

definition numbered :: "source_batch \<Rightarrow> source_entry \<Rightarrow> nat \<Rightarrow> nat \<Rightarrow> decoded_log_record list \<Rightarrow> bool" where
  "numbered batch entry i n rs =
     (map dl_source rs =
        map (\<lambda>j. \<lparr>buffer_sequence = sb_sequence batch, rs_entry_index = entry_index entry,
                  rs_record_index = word_of_nat j, rs_manifest_path = sb_manifest_path batch,
                  rs_data_path = sb_data_object_path batch,
                  rs_ingestion_time_ms = se_ingestion_time_ms entry\<rparr>) [i..<i + n])"

lemma numbered_append:
  assumes "numbered batch entry i m rs" "numbered batch entry (i + m) n rs'"
  shows "numbered batch entry i (m + n) (rs @ rs')"
proof -
  have "[i..<i + (m + n)] = [i..<i + m] @ [i + m..<i + m + n]"
    using upt_add_eq_append [of i "i + m" n] by (simp add: add.assoc)
  then show ?thesis
    using assms by (simp add: numbered_def add.assoc)
qed

lemma decode_logs_from_numbered:
  "decode_logs_from x batch entry attrs svc scope logs (word_of_nat i) = (rs, idx) \<Longrightarrow>
     numbered batch entry i (length logs) rs \<and> idx = word_of_nat (i + length logs)"
proof (induction logs arbitrary: i rs idx)
  case (Cons log logs)
  obtain rs' where r: "decode_logs_from x batch entry attrs svc scope logs (word_of_nat (Suc i)) = (rs', idx)"
    and rs: "rs = log_to_record x batch entry attrs svc scope log (word_of_nat i) # rs'"
    using Cons.prems by (auto simp: Let_def add.commute split: prod.splits)
  then show ?case
    using Cons.IH [OF r] by (simp add: numbered_def log_to_record_def upt_conv_Cons add.commute del: upt_Suc of_nat_Suc)
qed (simp add: numbered_def)

lemma decode_scopes_numbered:
  "decode_scopes x batch entry attrs svc ss (word_of_nat i) = (rs, idx) \<Longrightarrow>
     numbered batch entry i (sum_list (map (length \<circ> sl_log_records) ss)) rs \<and>
     idx = word_of_nat (i + sum_list (map (length \<circ> sl_log_records) ss))"
proof (induction ss arbitrary: i rs idx)
  case (Cons s ss)
  obtain r1 i1 r2 where a: "decode_logs_from x batch entry attrs svc (sl_scope s) (sl_log_records s) (word_of_nat i) = (r1, i1)"
    and b: "decode_scopes x batch entry attrs svc ss i1 = (r2, idx)" and rs: "rs = r1 @ r2"
    using Cons.prems by (auto simp: Let_def split: prod.splits)
  note d = decode_logs_from_numbered [OF a]
  show ?case
    using Cons.IH [OF b [unfolded conjunct2 [OF d]]] d
    by (auto simp: rs add.assoc intro: numbered_append)
qed (simp add: numbered_def)

lemma decode_resources_numbered:
  "decode_resources x batch entry req (word_of_nat i) = (rs, idx) \<Longrightarrow>
     numbered batch entry i (request_size req) rs \<and> idx = word_of_nat (i + request_size req)"
proof (induction req arbitrary: i rs idx)
  case (Cons r req)
  obtain attrs svc r1 i1 r2 where a: "decode_scopes x batch entry attrs svc (rl_scope_logs r) (word_of_nat i) = (r1, i1)"
    and b: "decode_resources x batch entry req i1 = (r2, idx)" and rs: "rs = r1 @ r2"
    using Cons.prems by (auto simp: Let_def split: prod.splits)
  note d = decode_scopes_numbered [OF a]
  show ?case
    using Cons.IH [OF b [unfolded conjunct2 [OF d]]] d
    by (auto simp: rs request_size_def add.assoc intro: numbered_append)
qed (simp add: numbered_def request_size_def)

lemma decode_entry_numbered:
  assumes "decode_entry x batch entry = Inr rs"
  obtains req where "ox_decode x (raw_bytes entry) = Inr req" "numbered batch entry 0 (request_size req) rs"
proof -
  obtain req where "ox_decode x (raw_bytes entry) = Inr req" "rs = fst (decode_resources x batch entry req 0)"
    using assms by (auto simp: decode_entry_def split: sum.splits)
  then show thesis
    using that decode_resources_numbered [of x batch entry req 0 rs] by (cases "decode_resources x batch entry req 0") simp
qed

lemma numbered_facts:
  assumes "numbered batch entry 0 n rs" "n \<le> 2 ^ 32"
  shows "length rs = n"
    "map coordinates rs = map (\<lambda>j. (unat (sb_sequence batch), unat (entry_index entry), j)) [0..<n]"
proof -
  show len: "length rs = n"
    using arg_cong [OF assms(1) [unfolded numbered_def], of length] by simp
  show "map coordinates rs = map (\<lambda>j. (unat (sb_sequence batch), unat (entry_index entry), j)) [0..<n]"
  proof (rule nth_equalityI)
    fix j assume "j < length (map coordinates rs)"
    then have j: "j < n" "j < length rs" using len by simp_all
    then have "dl_source (rs ! j) = \<lparr>buffer_sequence = sb_sequence batch, rs_entry_index = entry_index entry,
        rs_record_index = word_of_nat j, rs_manifest_path = sb_manifest_path batch,
        rs_data_path = sb_data_object_path batch, rs_ingestion_time_ms = se_ingestion_time_ms entry\<rparr>"
      using arg_cong [OF assms(1) [unfolded numbered_def], of "\<lambda>xs. xs ! j"] by simp
    then show "map coordinates rs ! j =
        map (\<lambda>j. (unat (sb_sequence batch), unat (entry_index entry), j)) [0..<n] ! j"
      using j assms(2) by (simp add: coordinates_def unat_of_nat take_bit_nat_eq_self)
  qed (simp add: len)
qed

definition entry_records :: "otel_externs \<Rightarrow> source_entry \<Rightarrow> nat" where
  "entry_records x entry = (case ox_decode x (raw_bytes entry) of Inl _ \<Rightarrow> 0 | Inr req \<Rightarrow> request_size req)"

lemma concat_entries:
  assumes "list_all2 (\<lambda>entry rs. decode_entry x batch entry = Inr rs) entries rss"
    "\<forall>entry\<in>set entries. entry_records x entry \<le> 2 ^ 32" "sorted_wrt (<) (map entry_index entries)"
  shows "length (concat rss) = sum_list (map (entry_records x) entries) \<and>
    sorted_wrt coord_less (map coordinates (concat rss)) \<and>
    (\<forall>c\<in>set (map coordinates (concat rss)).
       \<exists>entry\<in>set entries. fst (snd c) = unat (entry_index entry) \<and> fst c = unat (sb_sequence batch))"
  using assms
proof (induction rule: list_all2_induct)
  case (Cons entry entries rs rss)
  obtain req where req: "ox_decode x (raw_bytes entry) = Inr req" "numbered batch entry 0 (request_size req) rs"
    using Cons.hyps(1) by (rule decode_entry_numbered)
  have n: "entry_records x entry = request_size req" "request_size req \<le> 2 ^ 32"
    using req(1) Cons.prems(1) by (auto simp: entry_records_def)
  note f = numbered_facts [OF req(2) n(2)]
  have IH: "length (concat rss) = sum_list (map (entry_records x) entries)"
    "sorted_wrt coord_less (map coordinates (concat rss))"
    "\<forall>c\<in>set (map coordinates (concat rss)).
       \<exists>entry\<in>set entries. fst (snd c) = unat (entry_index entry) \<and> fst c = unat (sb_sequence batch)"
    using Cons.IH Cons.prems by auto
  have "sorted_wrt coord_less (map coordinates rs)"
    unfolding f(2) by (simp add: sorted_wrt_map coord_less_def sorted_wrt_iff_nth_less)
  moreover have "coord_less c c'" if "c \<in> set (map coordinates rs)" "c' \<in> set (map coordinates (concat rss))" for c c'
    using that IH(3) Cons.prems(2) unfolding f(2)
    by (fastforce simp: coord_less_def word_less_nat_alt)
  ultimately have "sorted_wrt coord_less (map coordinates rs @ map coordinates (concat rss))"
    using IH(2) by (auto simp: sorted_wrt_append)
  moreover have "\<forall>c\<in>set (map coordinates rs). fst (snd c) = unat (entry_index entry) \<and> fst c = unat (sb_sequence batch)"
    unfolding f(2) by auto
  ultimately show ?case
    using IH(1,3) f(1) n(1) by auto
qed simp

lemma logs_accepts_iff:
  "logs_accepts m \<longleftrightarrow> (\<exists>reserved rest. m = [1, 2, 1, reserved] @ rest)"
proof -
  have "logs_accepts m \<longleftrightarrow> (\<exists>env. decode_envelope 0 m = Inr env \<and> envelope_matches logs_expected env)"
    by (auto simp: logs_accepts_def split: sum.split)
  also have "\<dots> \<longleftrightarrow> (\<exists>reserved rest. m = [1, 2, 1, reserved] @ rest)"
  proof
    assume "\<exists>env. decode_envelope 0 m = Inr env \<and> envelope_matches logs_expected env"
    then show "\<exists>reserved rest. m = [1, 2, 1, reserved] @ rest"
      by (auto simp: envelope_bytes envelope_matches_def logs_expected_def)
  next
    assume "\<exists>reserved rest. m = [1, 2, 1, reserved] @ rest"
    then obtain res rest where m: "m = [1, 2, 1, res] @ rest" by blast
    show "\<exists>env. decode_envelope 0 m = Inr env \<and> envelope_matches logs_expected env"
      by (intro exI [of _ "\<lparr>env_version = 1, env_signal = SignalLogs, env_encoding = OtlpProtobuf, env_reserved = res\<rparr>"])
        (simp add: m envelope_bytes envelope_matches_def logs_expected_def)
  qed
  finally show ?thesis .
qed

lemma coord_sorted_distinct: "sorted_wrt coord_less cs \<Longrightarrow> distinct cs"
  by (induction cs) (auto simp: coord_less_def)

lemma logs_decode_ok:
  assumes "logs_decode x batch = Inr ds"
  obtains rss where "ds = [logs_batch x batch (concat rss)]"
    "list_all2 (\<lambda>entry rs. decode_entry x batch entry = Inr rs) (sb_entries batch) rss"
    "\<forall>entry\<in>set (sb_entries batch). logs_accepts (raw_metadata entry)"
proof -
  obtain envs records where e: "decode_envelopes batch = Inr envs" "validate_consistent envs logs_expected = Inr ()"
    "decode_logs x batch = Inr records" "ds = [logs_batch x batch records]"
    using assms by (auto simp: logs_decode_def split: sum.splits)
  obtain rss where rss: "records = concat rss"
    "list_all2 (\<lambda>entry rs. decode_entry x batch entry = Inr rs) (sb_entries batch) rss"
    using e(3) by (auto simp: decode_logs_def try_map_Inr_iff split: sum.splits)
  have "\<exists>env. decode_envelope (entry_index entry) (raw_metadata entry) = Inr env \<and> envelope_matches logs_expected env"
    if entry: "entry \<in> set (sb_entries batch)" for entry
    using e(1,2) entry unfolding decode_envelopes_ok validate_consistent_def validate_from_ok
    by (auto simp: list_all2_conv_all_nth list_all_length in_set_conv_nth)
  then have "logs_accepts (raw_metadata entry)" if "entry \<in> set (sb_entries batch)" for entry
    using that unfolding logs_accepts_iff envelope_bytes
    by (fastforce simp: envelope_matches_def logs_expected_def)
  then show thesis using that e(4) rss by blast
qed


definition example_log :: log_record where
  "example_log =
     \<lparr>time_unix_nano = 5, observed_time_unix_nano = 6, lr_severity_number = 9, lr_severity_text = ''INFO'',
      lr_body = Some (AnyValue (Some (StringValue ''hello''))), lr_attributes = [], lr_trace_id = [],
      lr_span_id = []\<rparr>"

definition example_externs :: otel_externs where
  "example_externs =
     \<lparr>ox_decode = (\<lambda>b. if b = [] then Inl ''empty'' else
        Inr [\<lparr>rl_resource = None,
              rl_scope_logs = [\<lparr>sl_scope = None, sl_log_records = [example_log, example_log]\<rparr>]\<rparr>]),
      ox_hex = (\<lambda>b. []), ox_f64 = (\<lambda>d. []), ox_record_size = 200\<rparr>"

definition example_batch :: source_batch where
  "example_batch =
     \<lparr>sb_source = SourceId ''s'', sb_sequence = 4, sb_manifest_path = ''m'', sb_data_object_path = ''d'',
      sb_entries = [\<lparr>entry_index = 0, raw_bytes = [7], raw_metadata = [1, 2, 1, 0], se_ingestion_time_ms = 1\<rparr>,
                    \<lparr>entry_index = 1, raw_bytes = [8], raw_metadata = [1, 2, 1, 9], se_ingestion_time_ms = 1\<rparr>]\<rparr>"

lemma example_decodes: "is_ok (logs_decode example_externs example_batch)"
  by code_simp


text \<open>
  C23. The decoder is fail-closed: it decodes a batch only if the envelope of every entry says version
  1, logs, OTLP protobuf; and the runtime's decode stage never fails on its account with an empty, a
  split or a shifted batch: it fails only for metadata the decoder rejects, a batch it cannot decode,
  or a batch above the oversize limit.
\<close>

theorem logs_decode_fail_closed:
  "(\<forall>ds entry. logs_decode x batch = Inr ds \<longrightarrow> entry \<in> set (sb_entries batch) \<longrightarrow>
      (\<exists>reserved rest. raw_metadata entry = [1, 2, 1, reserved] @ rest)) \<and>
   (\<forall>err b' r'. decode_one (otlp_logs_decoder x) opts sink batch (sb_sequence batch) bp b r = (Inl err, b', r') \<longrightarrow>
      err = ErrDecoder MetadataRejected \<or> logs_decode x batch = Inl err \<or>
      (\<exists>d. logs_decode x batch = Inr [d] \<and> fault_limit bp < actual_bytes d))"
proof (intro conjI allI impI)
  fix ds entry
  assume "logs_decode x batch = Inr ds" "entry \<in> set (sb_entries batch)"
  then have "logs_accepts (raw_metadata entry)"
    by (auto elim!: logs_decode_ok)
  then show "\<exists>reserved rest. raw_metadata entry = [1, 2, 1, reserved] @ rest"
    by (auto simp: logs_accepts_iff)
next
  fix err b' r'
  assume "decode_one (otlp_logs_decoder x) opts sink batch (sb_sequence batch) bp b r = (Inl err, b', r')"
  from otlp.decode_one_errors [OF this]
  show "err = ErrDecoder MetadataRejected \<or> logs_decode x batch = Inl err \<or>
      (\<exists>d. logs_decode x batch = Inr [d] \<and> fault_limit bp < actual_bytes d)"
    by (simp add: otlp_logs_decoder_def)
qed

theorem logs_decode_fail_closed_witness:
  "\<exists>ds. logs_decode example_externs example_batch = Inr ds \<and>
     (\<forall>entry\<in>set (sb_entries example_batch). \<exists>reserved rest. raw_metadata entry = [1, 2, 1, reserved] @ rest)"
  using logs_decode_fail_closed [of example_externs example_batch] example_decodes
  by (auto simp: is_ok_iff)

end
