(* ===== verification/Date_Time.thy ===== *)
theory Date_Time
  imports Prelude
begin

text \<open>
  The hand-written date formatter of the ClickHouse adapter (\<open>adapter/mod.rs\<close>, module
  \<open>chrono_internal\<close>, and \<open>format_datetime64_ns\<close>). The Rust code computes in
  \<open>i64\<close>; the arguments are whole seconds of a \<open>u64\<close> nanosecond count, so every intermediate
  value is far below the width and integers model it exactly.

  The month loop of the source would not return for a day number beyond the end of the year. The
  definition \<open>parts_src\<close> is the transcription with that loop as a partial function;
  \<open>parts\<close> is the total version that the rest of the development evaluates, and they are shown to
  agree on every input. The results are checked against the proleptic Gregorian calendar:
  \<open>epoch_seconds\<close> counts seconds from 1970-01-01 directly.
\<close>

section \<open>Definitions\<close>

definition is_leap :: "int \<Rightarrow> bool" where
  "is_leap year = ((year mod 4 = 0 \<and> year mod 100 \<noteq> 0) \<or> year mod 400 = 0)"

definition days_in_month :: "int \<Rightarrow> nat \<Rightarrow> nat" where
  "days_in_month year month =
     (if month \<in> {1, 3, 5, 7, 8, 10, 12} then 31
      else if month \<in> {4, 6, 9, 11} then 30
      else if month = 2 then (if is_leap year then 29 else 28)
      else 0)"

definition days_in_year :: "int \<Rightarrow> int" where
  "days_in_year year = (if is_leap year then 366 else 365)"

function year_loop :: "int \<Rightarrow> int \<Rightarrow> int \<times> int" where
  "year_loop year days =
     (if days_in_year year \<le> days then year_loop (year + 1) (days - days_in_year year)
      else if days < 0 then year_loop (year - 1) (days + days_in_year (year - 1))
      else (year, days))"
  by pat_completeness auto

termination year_loop
  by (relation "measure (\<lambda>(_, days). if days < 0 then nat (400 - days) else nat days)")
    (auto simp: days_in_year_def split: if_splits)

declare year_loop.simps [simp del]

partial_function (option) month_loop_src :: "int \<Rightarrow> nat \<Rightarrow> int \<Rightarrow> (nat \<times> int) option" where
  "month_loop_src year month days =
     (let dim = int (days_in_month year month)
      in if dim \<le> days then month_loop_src year (month + 1) (days - dim) else Some (month, days))"

text \<open>The same loop, cut off after December.\<close>

function month_loop :: "int \<Rightarrow> nat \<Rightarrow> int \<Rightarrow> nat \<times> int" where
  "month_loop year month days =
     (let dim = int (days_in_month year month)
      in if dim \<le> days \<and> month \<le> 12 then month_loop year (month + 1) (days - dim) else (month, days))"
  by pat_completeness auto

termination month_loop
  by (relation "measure (\<lambda>(_, month, _). 13 - month)") auto

declare month_loop.simps [simp del]

type_synonym date_parts = "int \<times> nat \<times> nat \<times> nat \<times> nat \<times> nat"

definition parts_with :: "int \<Rightarrow> int \<Rightarrow> nat \<times> int \<Rightarrow> date_parts" where
  "parts_with secs year md =
     (let sec_of_day = secs mod 86400;
          hour = nat (sec_of_day div 3600);
          rest = sec_of_day mod 3600;
          minute = nat (rest div 60);
          second = nat (rest mod 60)
      in (year, fst md, nat (snd md + 1), hour, minute, second))"

definition parts_src :: "int \<Rightarrow> date_parts option" where
  "parts_src secs =
     (let (year, days) = year_loop 1970 (secs div 86400)
      in map_option (parts_with secs year) (month_loop_src year 1 days))"

definition parts :: "int \<Rightarrow> date_parts" where
  "parts secs =
     (let (year, days) = year_loop 1970 (secs div 86400)
      in parts_with secs year (month_loop year 1 days))"

definition format_parts :: "int \<Rightarrow> nat \<Rightarrow> string" where
  "format_parts secs nanos =
     (case parts secs of
        (year, month, day, hour, minute, second) \<Rightarrow>
          pad_left 4 (show_int year) @ ''-'' @ pad_left 2 (show_nat month) @ ''-'' @
          pad_left 2 (show_nat day) @ '' '' @ pad_left 2 (show_nat hour) @ '':'' @
          pad_left 2 (show_nat minute) @ '':'' @ pad_left 2 (show_nat second) @ ''.'' @
          pad_left 9 (show_nat nanos))"

definition format_datetime64_ns :: "u64 \<Rightarrow> string" where
  "format_datetime64_ns unix_nanos =
     format_parts (uint unix_nanos div 1000000000) (nat (uint unix_nanos mod 1000000000))"

section \<open>The calendar\<close>

text \<open>Days from 1970-01-01 to the first of January of a year, and of a month within its year.\<close>

definition days_before_year :: "int \<Rightarrow> int" where
  "days_before_year y =
     365 * (y - 1970) + ((y - 1) div 4 - 492) - ((y - 1) div 100 - 19) + ((y - 1) div 400 - 4)"

definition days_before_month :: "int \<Rightarrow> nat \<Rightarrow> int" where
  "days_before_month y m = (\<Sum>k\<in>{1..<m}. int (days_in_month y k))"

definition epoch_seconds :: "date_parts \<Rightarrow> int" where
  "epoch_seconds p =
     (case p of
        (y, m, d, h, mi, s) \<Rightarrow>
          (days_before_year y + days_before_month y m + (int d - 1)) * 86400 +
          int h * 3600 + int mi * 60 + int s)"

definition valid_parts :: "date_parts \<Rightarrow> bool" where
  "valid_parts p =
     (case p of
        (y, m, d, h, mi, s) \<Rightarrow>
          1 \<le> m \<and> m \<le> 12 \<and> 1 \<le> d \<and> d \<le> days_in_month y m \<and> h < 24 \<and> mi < 60 \<and> s < 60)"

lemma div_pred:
  fixes y k :: int
  assumes "0 < k"
  shows "y div k = (y - 1) div k + (if y mod k = 0 then 1 else 0)"
proof (cases "y mod k = 0")
  case True
  have "y - 1 = k * (y div k - 1) + (k - 1)"
    using mult_div_mod_eq [of k y] True by (simp add: right_diff_distrib)
  from int_div_pos_eq [OF this] show ?thesis using assms True by simp
next
  case False
  have "0 \<le> y mod k" "y mod k < k" using assms by auto
  moreover have "y - 1 = k * (y div k) + (y mod k - 1)"
    using mult_div_mod_eq [of k y] by linarith
  ultimately have "(y - 1) div k = y div k"
    using False by (intro int_div_pos_eq [of _ _ _ "y mod k - 1"]) linarith+
  then show ?thesis using False by simp
qed

lemma leap_arith:
  fixes a b c :: int
  assumes "a' = a + (if p then 1 else 0)" "b' = b + (if q then 1 else 0)" "c' = c + (if r then 1 else 0)"
    "r \<Longrightarrow> q" "q \<Longrightarrow> p"
  shows "365 * (y + 1 - 1970) + (a' - 492) - (b' - 19) + (c' - 4) =
    365 * (y - 1970) + (a - 492) - (b - 19) + (c - 4) + (if p \<and> \<not> q \<or> r then 366 else 365)"
  using assms by auto

lemma days_before_year_Suc: "days_before_year (y + 1) = days_before_year y + days_in_year y"
proof -
  have dvd: "400 dvd y \<Longrightarrow> 100 dvd y" "100 dvd y \<Longrightarrow> 4 dvd y"
    using dvd_trans [of 100 400 y] dvd_trans [of 4 100 y] by simp_all
  show ?thesis
    unfolding days_before_year_def days_in_year_def is_leap_def add_diff_cancel_right'
    by (rule leap_arith; rule div_pred dvd [unfolded dvd_eq_mod_eq_0]; simp)
qed

lemma year_loop_exact:
  "year_loop y d = (y', d') \<Longrightarrow>
     0 \<le> d' \<and> d' < days_in_year y' \<and> days_before_year y' + d' = days_before_year y + d"
proof (induction y d rule: year_loop.induct)
  case (1 y d)
  show ?case
  proof (cases "days_in_year y \<le> d \<or> d < 0")
    case True
    then show ?thesis
      using 1 days_before_year_Suc [of y] days_before_year_Suc [of "y - 1"]
      by (auto simp: year_loop.simps [of y d] days_in_year_def split: if_splits)
  next
    case False
    with 1(3) show ?thesis by (simp add: year_loop.simps [of y d])
  qed
qed

lemma days_before_month_Suc:
  "1 \<le> m \<Longrightarrow> days_before_month y (Suc m) = days_before_month y m + int (days_in_month y m)"
  by (simp add: days_before_month_def)

lemma days_before_month_13: "days_before_month y 13 = days_in_year y"
  by (simp add: days_before_month_def days_in_month_def days_in_year_def eval_nat_numeral)

lemma month_loop_exact:
  assumes "1 \<le> m" "m \<le> 13" "0 \<le> d" "days_before_month y m + d < days_in_year y"
  shows "month_loop_src y m d = Some (month_loop y m d) \<and>
    (case month_loop y m d of (m', d') \<Rightarrow>
       1 \<le> m' \<and> m' \<le> 12 \<and> 0 \<le> d' \<and> d' < int (days_in_month y m') \<and>
       days_before_month y m' + d' = days_before_month y m + d)"
  using assms
proof (induction y m d rule: month_loop.induct)
  case (1 y m d)
  have m: "m \<le> 12"
    using 1(2-5) days_before_month_13 [of y] by (cases "m = 13") auto
  show ?case
  proof (cases "int (days_in_month y m) \<le> d")
    case True
    then have "month_loop_src y (m + 1) (d - int (days_in_month y m)) =
        Some (month_loop y (m + 1) (d - int (days_in_month y m))) \<and>
      (case month_loop y (m + 1) (d - int (days_in_month y m)) of (m', d') \<Rightarrow>
       1 \<le> m' \<and> m' \<le> 12 \<and> 0 \<le> d' \<and> d' < int (days_in_month y m') \<and>
       days_before_month y m' + d' = days_before_month y (m + 1) + (d - int (days_in_month y m)))"
      using 1 m days_before_month_Suc [of m y] by simp
    then show ?thesis
      using True m 1(2) days_before_month_Suc [of m y]
      by (simp add: month_loop.simps [of y m d] month_loop_src.simps [of y m d])
  next
    case False
    then show ?thesis
      using 1(2-5) m by (simp add: month_loop.simps [of y m d] month_loop_src.simps [of y m d])
  qed
qed

lemma time_of_day:
  fixes t :: int
  assumes t: "0 \<le> t" "t < 86400"
  shows "nat (t div 3600) < 24 \<and> nat (t mod 3600 div 60) < 60 \<and> nat (t mod 3600 mod 60) < 60 \<and>
    int (nat (t div 3600)) * 3600 + int (nat (t mod 3600 div 60)) * 60 + int (nat (t mod 3600 mod 60)) = t"
proof -
  have "0 \<le> t div 3600" "t div 3600 < 24" using t by auto
  moreover have "0 \<le> t mod 3600 div 60" "t mod 3600 div 60 < 60"
    using pos_mod_bound [of 3600 t] by auto
  moreover have "t div 3600 * 3600 + (t mod 3600 div 60 * 60 + t mod 3600 mod 60) = t"
    by (simp only: div_mult_mod_eq)
  ultimately show ?thesis by (simp add: nat_less_iff)
qed

lemma parts_with_calendar:
  assumes date: "1 \<le> m" "m \<le> 12" "0 \<le> d" "d < int (days_in_month y m)"
    and day: "days_before_year y + (days_before_month y m + d) = secs div 86400"
  shows "valid_parts (parts_with secs y (m, d)) \<and> epoch_seconds (parts_with secs y (m, d)) = secs"
proof -
  let ?t = "secs mod 86400"
  define h mi s where tod: "h = nat (?t div 3600)" "mi = nat (?t mod 3600 div 60)"
    "s = nat (?t mod 3600 mod 60)"
  have t: "h < 24" "mi < 60" "s < 60" "int h * 3600 + int mi * 60 + int s = ?t"
    using time_of_day [of ?t] unfolding tod by simp_all
  have p: "parts_with secs y (m, d) = (y, m, nat (d + 1), h, mi, s)"
    by (simp add: parts_with_def Let_def tod)
  have dn: "int (nat (d + 1)) = d + 1" "1 \<le> nat (d + 1)" "nat (d + 1) \<le> days_in_month y m"
    using date by auto
  have "(days_before_year y + days_before_month y m + (int (nat (d + 1)) - 1)) = secs div 86400"
    unfolding dn(1) using day by simp
  then have "epoch_seconds (parts_with secs y (m, d)) = secs div 86400 * 86400 + (int h * 3600 + int mi * 60 + int s)"
    unfolding p epoch_seconds_def prod.case by simp
  then have "epoch_seconds (parts_with secs y (m, d)) = secs"
    unfolding t(4) by (simp only: div_mult_mod_eq)
  then show ?thesis
    unfolding p valid_parts_def prod.case using date dn t by blast
qed

lemma parts_calendar:
  "parts_src secs = Some (parts secs) \<and> valid_parts (parts secs) \<and> epoch_seconds (parts secs) = secs"
proof -
  obtain y d where yl: "year_loop 1970 (secs div 86400) = (y, d)" by fastforce
  have base: "days_before_year 1970 = 0" by (simp add: days_before_year_def)
  note year = year_loop_exact [OF yl, unfolded base]
  have month1: "days_before_month y 1 = 0" by (simp add: days_before_month_def)
  obtain m d' where ml: "month_loop y 1 d = (m, d')" by fastforce
  have month: "month_loop_src y 1 d = Some (m, d')" "1 \<le> m" "m \<le> 12" "0 \<le> d'"
      "d' < int (days_in_month y m)" "days_before_month y m + d' = d"
    using month_loop_exact [of 1 d y] year ml month1 by auto
  have "days_before_year y + (days_before_month y m + d') = secs div 86400"
    using year month(6) by simp
  moreover have "parts secs = parts_with secs y (m, d')" "parts_src secs = Some (parts_with secs y (m, d'))"
    using month(1) by (simp_all add: parts_def parts_src_def yl ml [unfolded One_nat_def])
  ultimately show ?thesis
    using parts_with_calendar [OF month(2-5)] by simp
qed

section \<open>The printed date determines the timestamp\<close>

lemma year_loop_ge: "0 \<le> d \<Longrightarrow> y \<le> fst (year_loop y d)"
proof (induction y d rule: year_loop.induct)
  case (1 y d)
  then show ?case
    by (cases "days_in_year y \<le> d") (simp_all add: year_loop.simps [of y d])
qed

lemma parts_year: "0 \<le> secs \<Longrightarrow> 1970 \<le> fst (parts secs)"
  using year_loop_ge [of "secs div 86400" 1970]
  by (auto simp: pos_imp_zdiv_nonneg_iff parts_def parts_with_def Let_def split: prod.splits)

lemma parse_pad_left: "parse_digits (pad_left n (show_nat k)) = Some k"
proof -
  have zeros: "foldl (\<lambda>acc c. 10 * acc + digit_val c) 0 (replicate j (CHR ''0'')) = 0" for j
    by (induction j) (simp_all add: digit_val_def)
  show ?thesis
    by (simp add: parse_digits_def pad_left_def zeros foldl_show_nat)
      (simp add: list_all_iff is_digit_def)
qed

lemma pad_left_inject: "pad_left n (show_nat j) = pad_left n (show_nat k) \<longleftrightarrow> j = k"
  by (metis option.inject parse_pad_left)

lemma pad_left_digits: "list_all is_digit (pad_left n (show_nat k))"
  using parse_pad_left [of n k] by (auto simp: parse_digits_def split: if_splits)

lemma pad_left_notin: "\<not> is_digit c \<Longrightarrow> c \<notin> set (pad_left n (show_nat k))"
  by (rule not_digit_notin [OF pad_left_digits])

lemma pad_left_split:
  assumes "\<not> is_digit c"
  shows "pad_left n (show_nat j) @ c # xs = pad_left n (show_nat k) @ c # ys \<longleftrightarrow> j = k \<and> xs = ys"
  using split_at_separator [of "pad_left n (show_nat j)" c xs "pad_left n (show_nat k)" ys]
    pad_left_notin [OF assms] by (auto simp: pad_left_inject)

lemma format_parts_inject:
  assumes "0 \<le> a" "0 \<le> b"
  shows "format_parts a n = format_parts b m \<longleftrightarrow> a = b \<and> n = m"
proof -
  obtain y mo d h mi s where pa: "parts a = (y, mo, d, h, mi, s)" by (metis prod_cases6)
  obtain y' mo' d' h' mi' s' where pb: "parts b = (y', mo', d', h', mi', s')" by (metis prod_cases6)
  have years: "1970 \<le> y" "1970 \<le> y'"
    using parts_year [OF assms(1)] parts_year [OF assms(2)] pa pb by simp_all
  then have show_years: "show_int y = show_nat (nat y)" "show_int y' = show_nat (nat y')"
    by (simp_all add: show_int_def)
  have space: "\<not> is_digit (CHR '' '')" by (simp add: is_digit_def)
  have "format_parts a n = format_parts b m \<longleftrightarrow> parts a = parts b \<and> n = m"
    using years
    by (simp add: format_parts_def pa pb show_years pad_left_split space pad_left_inject conj_assoc)
      (auto simp: nat_eq_iff)
  moreover have "parts a = parts b \<longleftrightarrow> a = b"
    using parts_calendar by metis
  ultimately show ?thesis by simp
qed

lemma format_datetime64_ns_inject: "format_datetime64_ns a = format_datetime64_ns b \<longleftrightarrow> a = b"
proof -
  have "format_datetime64_ns a = format_datetime64_ns b \<longleftrightarrow>
      uint a div 1000000000 = uint b div 1000000000 \<and> nat (uint a mod 1000000000) = nat (uint b mod 1000000000)"
    unfolding format_datetime64_ns_def by (rule format_parts_inject) (simp_all add: pos_imp_zdiv_nonneg_iff)
  also have "\<dots> \<longleftrightarrow> uint a div 1000000000 = uint b div 1000000000 \<and> uint a mod 1000000000 = uint b mod 1000000000"
    by (simp add: eq_nat_nat_iff)
  also have "\<dots> \<longleftrightarrow> uint a = uint b"
    by (metis div_mult_mod_eq)
  finally show ?thesis by (simp add: word_uint_eq_iff)
qed


end
