(* ===== verification/Row_Values.thy ===== *)
theory Row_Values
  imports Ordered_Map Date_Time
begin

unbundle bit_operations_syntax

text \<open>
  Column values of an insert (\<open>adapter/mod.rs\<close>: \<open>RowValue\<close> with \<open>to_json\<close> and
  \<open>write_row_binary\<close>, and \<open>write_varuint\<close>). \<open>json_value\<close> is the data of
  \<open>serde_json::Value\<close> that the code builds; its map is the crate's default, a \<open>BTreeMap\<close>.

  The encoder is verified against a reader of the RowBinary format (\<open>read_value\<close> and below),
  written from the format's rules as the comments of \<open>write_row_binary\<close> state them: reading what
  was written gives the value back and leaves the rest of the stream untouched.
\<close>

section \<open>Definitions\<close>

datatype row_value =
    RvString string
  | RvLowCardinalityString string
  | RvUInt8 u8
  | RvInt32 i32
  | RvUInt32 u32
  | RvUInt64 u64
  | RvInt64 i64
  | RvDateTime64Nanos u64
  | RvNullableDateTime64Nanos "u64 option"
  | RvStringMap "(string, string) btree"

datatype json_value =
    JsonNull
  | JsonNumber int
  | JsonString string
  | JsonObject "(string, json_value) btree"

definition to_json :: "row_value \<Rightarrow> json_value" where
  "to_json v =
     (case v of
        RvString s \<Rightarrow> JsonString s
      | RvLowCardinalityString s \<Rightarrow> JsonString s
      | RvUInt8 n \<Rightarrow> JsonNumber (uint n)
      | RvInt32 n \<Rightarrow> JsonNumber (sint n)
      | RvUInt32 n \<Rightarrow> JsonNumber (uint n)
      | RvUInt64 n \<Rightarrow> JsonNumber (uint n)
      | RvInt64 n \<Rightarrow> JsonNumber (sint n)
      | RvDateTime64Nanos ns \<Rightarrow> JsonString (format_datetime64_ns ns)
      | RvNullableDateTime64Nanos None \<Rightarrow> JsonNull
      | RvNullableDateTime64Nanos (Some ns) \<Rightarrow> JsonString (format_datetime64_ns ns)
      | RvStringMap m \<Rightarrow>
          JsonObject (foldl (\<lambda>obj (k, w). bt_insert k (JsonString w) obj) [] m))"

function write_varuint :: "bytes \<Rightarrow> u64 \<Rightarrow> bytes" where
  "write_varuint out value =
     (let byte = ucast (value AND 0x7F) :: u8; value' = drop_bit 7 value
      in if value' = 0 then out @ [byte] else write_varuint (out @ [byte OR 0x80]) value')"
  by pat_completeness auto

lemma unat_drop_bit: "unat (drop_bit n w) = unat w div 2 ^ n"
  by (simp only: unat_drop_bit_eq drop_bit_eq_div [where ?'a = nat])

lemma drop_bit_7_less: "drop_bit 7 (v :: u64) \<noteq> 0 \<Longrightarrow> unat (drop_bit 7 v) < unat v"
proof -
  assume "drop_bit 7 v \<noteq> 0"
  then have "v \<noteq> 0" by auto
  then have "0 < unat v" by (simp add: unat_gt_0)
  then show ?thesis unfolding unat_drop_bit by (intro div_less_dividend) simp_all
qed

termination write_varuint
  by (relation "measure (\<lambda>(_, v). unat v)") (auto intro: drop_bit_7_less)

declare write_varuint.simps [simp del]

definition as_bytes :: "string \<Rightarrow> bytes" where
  "as_bytes s = map of_char s"

fun to_le_bytes :: "nat \<Rightarrow> 'a::len word \<Rightarrow> bytes" where
  "to_le_bytes 0 w = []"
| "to_le_bytes (Suc n) w = ucast w # to_le_bytes n (drop_bit 8 w)"

definition write_string :: "bytes \<Rightarrow> string \<Rightarrow> bytes" where
  "write_string out s = write_varuint out (word_of_nat (length s)) @ as_bytes s"

definition write_row_binary :: "bytes \<Rightarrow> row_value \<Rightarrow> bytes" where
  "write_row_binary out v =
     (case v of
        RvString s \<Rightarrow> write_string out s
      | RvLowCardinalityString s \<Rightarrow> write_string out s
      | RvUInt8 n \<Rightarrow> out @ [n]
      | RvInt32 n \<Rightarrow> out @ to_le_bytes 4 n
      | RvUInt32 n \<Rightarrow> out @ to_le_bytes 4 n
      | RvUInt64 n \<Rightarrow> out @ to_le_bytes 8 n
      | RvInt64 n \<Rightarrow> out @ to_le_bytes 8 n
      | RvDateTime64Nanos ns \<Rightarrow> out @ to_le_bytes 8 (scast ns :: i64)
      | RvNullableDateTime64Nanos None \<Rightarrow> out @ [1]
      | RvNullableDateTime64Nanos (Some ns) \<Rightarrow> (out @ [0]) @ to_le_bytes 8 (scast ns :: i64)
      | RvStringMap m \<Rightarrow>
          foldl (\<lambda>out (k, w). write_string (write_string out k) w)
            (write_varuint out (word_of_nat (length m))) m)"

section \<open>A reader of the format\<close>

datatype value_kind =
    KString | KLowCardinalityString | KUInt8 | KInt32 | KUInt32 | KUInt64 | KInt64
  | KDateTime64 | KNullableDateTime64 | KStringMap

fun kind_of :: "row_value \<Rightarrow> value_kind" where
  "kind_of (RvString _) = KString"
| "kind_of (RvLowCardinalityString _) = KLowCardinalityString"
| "kind_of (RvUInt8 _) = KUInt8"
| "kind_of (RvInt32 _) = KInt32"
| "kind_of (RvUInt32 _) = KUInt32"
| "kind_of (RvUInt64 _) = KUInt64"
| "kind_of (RvInt64 _) = KInt64"
| "kind_of (RvDateTime64Nanos _) = KDateTime64"
| "kind_of (RvNullableDateTime64Nanos _) = KNullableDateTime64"
| "kind_of (RvStringMap _) = KStringMap"

type_synonym 'a reader = "bytes \<Rightarrow> ('a \<times> bytes) option"

definition read_map :: "('a \<Rightarrow> 'b) \<Rightarrow> 'a reader \<Rightarrow> 'b reader" where
  "read_map f rd bs = map_option (apfst f) (rd bs)"

definition read_exact :: "nat \<Rightarrow> bytes reader" where
  "read_exact n bs = (if length bs < n then None else Some (take n bs, drop n bs))"

fun read_varuint :: "nat reader" where
  "read_varuint [] = None"
| "read_varuint (b # bs) =
     (if b < 0x80 then Some (unat b, bs)
      else (case read_varuint bs of
              None \<Rightarrow> None
            | Some (n, rest) \<Rightarrow> Some (unat b - 128 + 128 * n, rest)))"

fun from_le_bytes :: "bytes \<Rightarrow> nat" where
  "from_le_bytes [] = 0"
| "from_le_bytes (b # bs) = unat b + 256 * from_le_bytes bs"

definition read_word :: "nat \<Rightarrow> 'a::len word reader" where
  "read_word n = read_map (\<lambda>bs. word_of_nat (from_le_bytes bs)) (read_exact n)"

definition read_string :: "string reader" where
  "read_string bs =
     (case read_varuint bs of
        None \<Rightarrow> None
      | Some (n, rest) \<Rightarrow> read_map (map (\<lambda>b. char_of (unat b))) (read_exact n) rest)"

fun read_many :: "'a reader \<Rightarrow> nat \<Rightarrow> 'a list reader" where
  "read_many rd 0 bs = Some ([], bs)"
| "read_many rd (Suc n) bs =
     (case rd bs of
        None \<Rightarrow> None
      | Some (x, rest) \<Rightarrow> read_map ((#) x) (read_many rd n) rest)"

definition read_pair :: "(string \<times> string) reader" where
  "read_pair bs =
     (case read_string bs of None \<Rightarrow> None | Some (k, rest) \<Rightarrow> read_map (Pair k) read_string rest)"

definition read_value :: "value_kind \<Rightarrow> row_value reader" where
  "read_value k =
     (case k of
        KString \<Rightarrow> read_map RvString read_string
      | KLowCardinalityString \<Rightarrow> read_map RvLowCardinalityString read_string
      | KUInt8 \<Rightarrow> read_map RvUInt8 (read_word 1)
      | KInt32 \<Rightarrow> read_map RvInt32 (read_word 4)
      | KUInt32 \<Rightarrow> read_map RvUInt32 (read_word 4)
      | KUInt64 \<Rightarrow> read_map RvUInt64 (read_word 8)
      | KInt64 \<Rightarrow> read_map RvInt64 (read_word 8)
      | KDateTime64 \<Rightarrow> read_map RvDateTime64Nanos (read_word 8)
      | KNullableDateTime64 \<Rightarrow>
          (\<lambda>bs. case bs of
             [] \<Rightarrow> None
           | b # rest \<Rightarrow>
               if b = 1 then Some (RvNullableDateTime64Nanos None, rest)
               else read_map (RvNullableDateTime64Nanos \<circ> Some) (read_word 8) rest)
      | KStringMap \<Rightarrow>
          (\<lambda>bs. case read_varuint bs of
             None \<Rightarrow> None
           | Some (n, rest) \<Rightarrow> read_map RvStringMap (read_many read_pair n) rest))"

fun read_values :: "value_kind list \<Rightarrow> row_value list reader" where
  "read_values [] bs = Some ([], bs)"
| "read_values (k # ks) bs =
     (case read_value k bs of
        None \<Rightarrow> None
      | Some (v, rest) \<Rightarrow> read_map ((#) v) (read_values ks) rest)"

text \<open>Lengths a \<open>usize\<close> of 64 bits can have.\<close>

fun value_fits :: "row_value \<Rightarrow> bool" where
  "value_fits (RvString s) = (length s < 2 ^ 64)"
| "value_fits (RvLowCardinalityString s) = (length s < 2 ^ 64)"
| "value_fits (RvStringMap m) =
     (length m < 2 ^ 64 \<and> list_all (\<lambda>(k, w). length k < 2 ^ 64 \<and> length w < 2 ^ 64) m)"
| "value_fits _ = True"

section \<open>Encoding and reading back\<close>

lemma read_map_Some [simp]: "rd bs = Some (x, rest) \<Longrightarrow> read_map f rd bs = Some (f x, rest)"
  by (simp add: read_map_def)

lemma read_exact_append [simp]: "length bs = n \<Longrightarrow> read_exact n (bs @ rest) = Some (bs, rest)"
  by (simp add: read_exact_def)

lemma low_byte: "unat (ucast (v AND 0x7F) :: u8) = unat (v :: u64) mod 128"
proof -
  have "v AND 0x7F = take_bit 7 v" by (simp add: take_bit_eq_mask mask_eq_exp_minus_1)
  then show ?thesis
    by (simp add: unsigned_ucast_eq unsigned_take_bit_eq take_bit_nat_def mod_mod_cancel)
qed

lemma or_0x80: "(b :: u8) < 0x80 \<Longrightarrow> unat (b OR 0x80) = unat b + 128"
proof -
  assume "b < 0x80"
  then have b: "unat b < 2 ^ 7" by (simp add: word_less_nat_alt)
  have "b AND 0x80 = 0"
  proof (rule bit_eqI)
    fix n
    have "\<not> bit (unat b) 7"
      using b by (simp add: bit_iff_odd)
    then have "\<not> bit b 7" by (simp add: bit_unsigned_iff)
    then show "bit (b AND 0x80) n = bit 0 n"
      using bit_exp_iff [of 7 n, where ?'a = u8] by (auto simp: bit_and_iff)
  qed
  then have "b OR 0x80 = b + 0x80" by (simp add: disjunctive_add_eq_or)
  then show ?thesis using b by (simp add: unat_word_ariths)
qed

lemma write_varuint_append: "write_varuint out v = out @ write_varuint [] v"
proof (induction "unat v" arbitrary: out v rule: less_induct)
  case less
  show ?case
  proof (cases "drop_bit 7 v = 0")
    case True
    then show ?thesis by (simp add: write_varuint.simps [of _ v] Let_def)
  next
    case False
    note IH = less [OF drop_bit_7_less [OF False]]
    show ?thesis
      using False IH [of "out @ [ucast (v AND 0x7F) OR 0x80]"] IH [of "[ucast (v AND 0x7F) OR 0x80]"]
      by (simp add: write_varuint.simps [of _ v] Let_def)
  qed
qed

lemma read_write_varuint [simp]: "read_varuint (write_varuint [] v @ rest) = Some (unat v, rest)"
proof (induction "unat v" arbitrary: v rule: less_induct)
  case less
  let ?b = "ucast (v AND 0x7F) :: u8"
  have b: "unat ?b = unat v mod 128" by (rule low_byte)
  have lt: "?b < 0x80" using b by (simp add: word_less_nat_alt)
  have hi: "unat (drop_bit 7 v) = unat v div 128" by (simp only: unat_drop_bit) simp
  show ?case
  proof (cases "drop_bit 7 v = 0")
    case True
    then have "unat v mod 128 = unat v"
      using hi by (simp add: div_eq_0_iff)
    then show ?thesis
      using True lt b by (simp add: write_varuint.simps [of _ v] Let_def)
  next
    case False
    have big: "unat (?b OR 0x80) = unat v mod 128 + 128" using or_0x80 [OF lt] b by simp
    then have "\<not> ?b OR 0x80 < 0x80" by (simp add: word_less_nat_alt)
    then show ?thesis
      using False less [OF drop_bit_7_less [OF False]] big hi
      by (simp add: write_varuint.simps [of "[]" v] write_varuint_append [of "[_]"] Let_def)
  qed
qed

lemma char_of_byte: "char_of (unat (of_char c :: u8)) = c"
proof -
  have "unat (word_of_nat (of_char c) :: u8) = of_char c mod 256"
    by (simp add: unat_of_nat)
  then have "unat (of_char c :: u8) = of_char c mod 256"
    by (simp only: of_nat_of_char)
  then show ?thesis by simp
qed

lemma read_write_string [simp]:
  "length s < 2 ^ 64 \<Longrightarrow> read_string (write_string [] s @ rest) = Some (s, rest)"
  by (simp add: read_string_def write_string_def as_bytes_def unat_of_nat read_map_def comp_def
      char_of_byte)

lemma write_string_append: "write_string out s = out @ write_string [] s"
  by (simp add: write_string_def write_varuint_append [of out])

lemma length_to_le_bytes [simp]: "length (to_le_bytes n w) = n"
  by (induction n arbitrary: w) simp_all

lemma from_to_le_bytes: "from_le_bytes (to_le_bytes n w) = unat w mod 2 ^ (8 * n)"
  for w :: "'a::len word"
proof (induction n arbitrary: w)
  case (Suc n)
  have "unat (ucast w :: u8) = unat w mod 2 ^ 8"
    by (simp add: unsigned_ucast_eq take_bit_nat_def)
  then show ?case
    using Suc mod_mult2_eq [of "unat w" "2 ^ 8" "2 ^ (8 * n)"]
    by (simp only: to_le_bytes.simps from_le_bytes.simps unat_drop_bit)
      (simp add: power_add)
qed simp

lemma read_write_word:
  fixes w :: "'a::len word"
  assumes "LENGTH('a) = 8 * n"
  shows "read_word n (to_le_bytes n w @ rest) = Some (w, rest)"
  using unat_bound_len [of w] assms
  by (simp add: read_word_def from_to_le_bytes)

lemma foldl_pairs:
  "foldl (\<lambda>out (k, w). write_string (write_string out k) w) out m =
     out @ concat (map (\<lambda>(k, w). write_string [] k @ write_string [] w) m)"
proof (induction m arbitrary: out)
  case (Cons e m)
  then show ?case
    using write_string_append [of out] write_string_append [of "write_string out (fst e)"]
    by (cases e) (simp add: write_string_append [of "out @ _"])
qed simp

lemma write_row_binary_append: "write_row_binary out v = out @ write_row_binary [] v"
  using write_string_append [of out] write_varuint_append [of out]
  by (auto simp: write_row_binary_def foldl_pairs split: row_value.split option.split)

lemma read_write_pairs:
  assumes "list_all (\<lambda>(k, w). length k < 2 ^ 64 \<and> length w < 2 ^ 64) m"
  shows "read_many read_pair (length m)
      (concat (map (\<lambda>(k, w). write_string [] k @ write_string [] w) m) @ rest) = Some (m, rest)"
  using assms by (induction m) (auto simp: read_pair_def)

lemma read_write_value:
  assumes "value_fits v"
  shows "read_value (kind_of v) (write_row_binary [] v @ rest) = Some (v, rest)"
proof (cases v)
  case (RvUInt8 n)
  then show ?thesis
    using read_write_word [of 1 n rest] by (simp add: read_value_def write_row_binary_def)
next
  case (RvNullableDateTime64Nanos ns)
  then show ?thesis
    by (cases ns) (simp_all add: read_value_def write_row_binary_def read_write_word comp_def)
next
  case (RvStringMap m)
  then have "unat (word_of_nat (length m) :: u64) = length m"
    using assms by (simp add: unat_of_nat)
  then show ?thesis
    using assms RvStringMap read_write_pairs [of m rest]
    by (simp add: read_value_def write_row_binary_def foldl_pairs)
qed (use assms in \<open>simp_all add: read_value_def write_row_binary_def read_write_word\<close>)

lemma read_write_values:
  "list_all value_fits row \<Longrightarrow>
     read_values (map kind_of row) (concat (map (write_row_binary []) row) @ rest) = Some (row, rest)"
  by (induction row) (simp_all add: read_write_value)

lemma foldl_write_row_binary:
  "foldl write_row_binary out row = out @ concat (map (write_row_binary []) row)"
proof (induction row arbitrary: out)
  case (Cons v row)
  then show ?case using write_row_binary_append [of out v] by simp
qed simp

section \<open>The JSON form carries the same information\<close>

lemma json_map_entries:
  assumes "bt_wf m"
  shows "foldl (\<lambda>obj (k, w). bt_insert k (JsonString w) obj) [] m = map (apsnd JsonString) m"
  using assms
proof (induction m rule: rev_induct)
  case (snoc e m)
  obtain k w where e: "e = (k, w)" by fastforce
  have m: "bt_wf m" "\<forall>x\<in>set m. fst x < k"
    using snoc.prems by (auto simp: e bt_wf_def sorted_wrt_append)
  then show ?case
    using snoc.IH by (simp add: e bt_insert_last)
qed simp

fun value_wf :: "row_value \<Rightarrow> bool" where
  "value_wf (RvStringMap m) = bt_wf m"
| "value_wf _ = True"

lemma to_json_inject:
  assumes "kind_of v = kind_of w" "value_wf v" "value_wf w" "to_json v = to_json w"
  shows "v = w"
proof -
  have dates: "format_datetime64_ns a = format_datetime64_ns b \<longleftrightarrow> a = b" for a b
    by (rule format_datetime64_ns_inject)
  have maps: "map (apsnd JsonString) m = map (apsnd JsonString) m' \<Longrightarrow> m = m'"
    for m m' :: "(string, string) btree"
    by (rule map_inj_on [of "apsnd JsonString" m m']) (auto simp: inj_on_def)
  show ?thesis
    using assms
    by (cases v; cases w)
      (auto simp: to_json_def dates json_map_entries word_uint_eq_iff [symmetric]
        intro: signed_word_eqI dest: maps split: option.splits)
qed

end
