(* ===== verification/Serializer.thy ===== *)
theory Serializer
  imports Row_Values
begin

text \<open>
  Insert chunks (\<open>adapter/mod.rs\<close>) and their two wire formats (\<open>serializer/mod.rs\<close>,
  \<open>serializer/rowbinary.rs\<close>, \<open>serializer/jsoneachrow.rs\<close>), with the writer's error type
  (\<open>writer.rs\<close>). The code these files call and do not contain is gathered in
  \<open>clickhouse_externs\<close>: \<open>serde_json::to_vec\<close>, the escaping of \<open>{:?}\<close> on strings,
  percent encoding, SHA-256, hexadecimal encoding and the construction of an HTTP client.

  The main result is that a RowBinary body is self-describing: a reader that knows nothing but the
  format recovers the column names and every row.
\<close>

section \<open>Definitions\<close>

record clickhouse_settings =
  insert_quorum :: "string option"
  insert_deduplication_token :: string
  apply_deduplication_token :: bool

record insert_chunk =
  database :: string
  table_name :: string
  columns :: "string list"
  chunk_rows :: "row_value list list"
  settings :: clickhouse_settings
  idempotency_token :: string
  chunk_index :: u32
  observability_labels :: "(string \<times> string) list"

definition rows_count :: "insert_chunk \<Rightarrow> nat" where
  "rows_count chunk = length (chunk_rows chunk)"

record clickhouse_externs =
  cx_json :: "json_value \<Rightarrow> string + bytes"
  cx_debug :: "string \<Rightarrow> string"
  cx_urlencode :: "string \<Rightarrow> string"
  cx_sha256 :: "bytes \<Rightarrow> bytes"
  cx_hex :: "bytes \<Rightarrow> string"
  cx_client :: "int \<Rightarrow> nat \<Rightarrow> u64 option \<Rightarrow> string + unit"

datatype writer_error_class = ClassRetryable | ClassNonRetryable | ClassRetryBudgetExhausted

datatype writer_error =
    WriterRetryable string
  | WriterNonRetryable string
  | WriterRetryBudgetExhausted string
  | WriterSerialization string

fun error_class :: "writer_error \<Rightarrow> writer_error_class" where
  "error_class (WriterRetryable _) = ClassRetryable"
| "error_class (WriterRetryBudgetExhausted _) = ClassRetryBudgetExhausted"
| "error_class (WriterNonRetryable _) = ClassNonRetryable"
| "error_class (WriterSerialization _) = ClassNonRetryable"

fun display_writer_error :: "writer_error \<Rightarrow> string" where
  "display_writer_error (WriterRetryable m) = ''clickhouse insert failed (retryable): '' @ m"
| "display_writer_error (WriterNonRetryable m) = ''clickhouse insert failed (non-retryable): '' @ m"
| "display_writer_error (WriterRetryBudgetExhausted m) =
     ''clickhouse insert failed (retry budget exhausted): '' @ m"
| "display_writer_error (WriterSerialization m) = ''serialization error: '' @ m"

datatype serialization_format = JsonEachRow | RowBinary

definition default_format :: serialization_format where
  "default_format = JsonEachRow"

fun format_label :: "serialization_format \<Rightarrow> string" where
  "format_label JsonEachRow = ''json_each_row''"
| "format_label RowBinary = ''row_binary''"

fun format_keyword :: "serialization_format \<Rightarrow> string" where
  "format_keyword JsonEachRow = ''JSONEachRow''"
| "format_keyword RowBinary = ''RowBinaryWithNamesAndTypes''"

definition type_table :: "(string \<times> string) list" where
  "type_table =
     [(''Timestamp'', ''DateTime64(9)''),
      (''ObservedTimestamp'', ''DateTime64(9)''),
      (''SeverityText'', ''LowCardinality(String)''),
      (''SeverityNumber'', ''UInt8''),
      (''ServiceName'', ''LowCardinality(String)''),
      (''Body'', ''String''),
      (''ResourceAttributes'', ''Map(LowCardinality(String), String)''),
      (''LogAttributes'', ''Map(LowCardinality(String), String)''),
      (''TraceId'', ''String''),
      (''SpanId'', ''String''),
      (''_odb_sequence'', ''UInt64''),
      (''_odb_entry_index'', ''UInt32''),
      (''_odb_record_index'', ''UInt32''),
      (''_odb_manifest_path'', ''LowCardinality(String)''),
      (''_odb_data_path'', ''String''),
      (''_odb_ingestion_time_ms'', ''Int64''),
      (''_adapter_version'', ''UInt32''),
      (''_odb_gateway_received_at'', ''Nullable(DateTime64(9))'')]"

definition clickhouse_type_for_column :: "clickhouse_externs \<Rightarrow> string \<Rightarrow> writer_error + string" where
  "clickhouse_type_for_column x name =
     (case map_of type_table name of
        Some ty \<Rightarrow> Inr ty
      | None \<Rightarrow>
          Inl (WriterSerialization
            (''no RowBinary type table entry for column '' @ cx_debug x name @
             ''; update `clickhouse_type_for_column` to match the adapter DDL'')))"

definition row_width_error :: "nat \<Rightarrow> nat \<Rightarrow> writer_error" where
  "row_width_error n_values n_columns =
     WriterSerialization (''row has '' @ show_nat n_values @ '' values but '' @ show_nat n_columns @
       '' columns are expected'')"

fun write_types :: "clickhouse_externs \<Rightarrow> bytes \<Rightarrow> string list \<Rightarrow> writer_error + bytes" where
  "write_types x out [] = Inr out"
| "write_types x out (name # names) =
     (case clickhouse_type_for_column x name of
        Inl e \<Rightarrow> Inl e
      | Inr ty \<Rightarrow> write_types x (write_string out ty) names)"

fun write_rows :: "nat \<Rightarrow> bytes \<Rightarrow> row_value list list \<Rightarrow> writer_error + bytes" where
  "write_rows n out [] = Inr out"
| "write_rows n out (row # rows) =
     (if length row \<noteq> n then Inl (row_width_error (length row) n)
      else write_rows n (foldl write_row_binary out row) rows)"

definition serialize_row_binary :: "clickhouse_externs \<Rightarrow> insert_chunk \<Rightarrow> writer_error + bytes" where
  "serialize_row_binary x chunk =
     (let out = write_varuint [] (word_of_nat (length (columns chunk)));
          out = foldl write_string out (columns chunk)
      in case write_types x out (columns chunk) of
           Inl e \<Rightarrow> Inl e
         | Inr out \<Rightarrow> write_rows (length (columns chunk)) out (chunk_rows chunk))"

definition json_row :: "string list \<Rightarrow> row_value list \<Rightarrow> json_value" where
  "json_row cols row =
     JsonObject (foldl (\<lambda>obj (col, v). bt_insert col (to_json v) obj) [] (zip cols row))"

fun json_lines :: "clickhouse_externs \<Rightarrow> string list \<Rightarrow> bytes \<Rightarrow> row_value list list \<Rightarrow> writer_error + bytes" where
  "json_lines x cols out [] = Inr out"
| "json_lines x cols out (row # rows) =
     (if length row \<noteq> length cols then Inl (row_width_error (length row) (length cols))
      else case cx_json x (json_row cols row) of
             Inl e \<Rightarrow> Inl (WriterSerialization e)
           | Inr line \<Rightarrow> json_lines x cols (out @ line @ [10]) rows)"

definition serialize_json_each_row :: "clickhouse_externs \<Rightarrow> insert_chunk \<Rightarrow> writer_error + bytes" where
  "serialize_json_each_row x chunk = json_lines x (columns chunk) [] (chunk_rows chunk)"

fun serialize :: "clickhouse_externs \<Rightarrow> serialization_format \<Rightarrow> insert_chunk \<Rightarrow> writer_error + bytes" where
  "serialize x JsonEachRow chunk = serialize_json_each_row x chunk"
| "serialize x RowBinary chunk = serialize_row_binary x chunk"

section \<open>A reader of RowBinaryWithNamesAndTypes\<close>

definition kind_of_type :: "string \<Rightarrow> value_kind option" where
  "kind_of_type =
     map_of
       [(''String'', KString), (''LowCardinality(String)'', KLowCardinalityString),
        (''UInt8'', KUInt8), (''UInt32'', KUInt32), (''UInt64'', KUInt64), (''Int32'', KInt32),
        (''Int64'', KInt64), (''DateTime64(9)'', KDateTime64),
        (''Nullable(DateTime64(9))'', KNullableDateTime64),
        (''Map(LowCardinality(String), String)'', KStringMap)]"

fun read_until_end :: "'a reader \<Rightarrow> nat \<Rightarrow> bytes \<Rightarrow> 'a list option" where
  "read_until_end rd fuel [] = Some []"
| "read_until_end rd 0 (b # bs) = None"
| "read_until_end rd (Suc fuel) (b # bs) =
     (case rd (b # bs) of
        None \<Rightarrow> None
      | Some (v, rest) \<Rightarrow> map_option ((#) v) (read_until_end rd fuel rest))"

definition read_chunk :: "bytes \<Rightarrow> (string list \<times> row_value list list) option" where
  "read_chunk bs =
     (case read_varuint bs of
        None \<Rightarrow> None
      | Some (n, bs) \<Rightarrow>
          (case read_many read_string n bs of
             None \<Rightarrow> None
           | Some (names, bs) \<Rightarrow>
               (case read_many read_string n bs of
                  None \<Rightarrow> None
                | Some (types, bs) \<Rightarrow>
                    if None \<in> set (map kind_of_type types) then None
                    else map_option (Pair names)
                      (read_until_end (read_values (map (the \<circ> kind_of_type) types)) (length bs) bs))))"

definition column_kind :: "string \<Rightarrow> value_kind option" where
  "column_kind c = Option.bind (map_of type_table c) kind_of_type"

text \<open>Every column is known and every row has, column by column, a value of the column's type.\<close>

definition chunk_typed :: "insert_chunk \<Rightarrow> bool" where
  "chunk_typed chunk =
     (columns chunk \<noteq> [] \<and> list_all (\<lambda>c. column_kind c \<noteq> None) (columns chunk) \<and>
      list_all (\<lambda>row. map (Some \<circ> kind_of) row = map column_kind (columns chunk)) (chunk_rows chunk))"

definition chunk_fits :: "insert_chunk \<Rightarrow> bool" where
  "chunk_fits chunk =
     (length (columns chunk) < 2 ^ 64 \<and> list_all (list_all value_fits) (chunk_rows chunk))"

section \<open>Reading a serialised chunk back\<close>

lemma foldl_write_string: "foldl write_string out ss = out @ concat (map (write_string []) ss)"
proof (induction ss arbitrary: out)
  case (Cons s ss)
  then show ?case using write_string_append [of out s] by simp
qed simp

lemma read_many_strings:
  "list_all (\<lambda>s. length s < 2 ^ 64) ss \<Longrightarrow>
     read_many read_string (length ss) (concat (map (write_string []) ss) @ rest) = Some (ss, rest)"
  by (induction ss) auto

lemma write_types_known:
  "list_all (\<lambda>c. map_of type_table c \<noteq> None) cs \<Longrightarrow>
     write_types x out cs = Inr (out @ concat (map (write_string []) (map (the \<circ> map_of type_table) cs)))"
proof (induction cs arbitrary: out)
  case (Cons c cs)
  then show ?case
    by (auto simp: clickhouse_type_for_column_def write_string_append [of out])
qed simp

lemma write_rows_widths:
  "list_all (\<lambda>row. length row = n) rows \<Longrightarrow>
     write_rows n out rows = Inr (out @ concat (map (\<lambda>row. concat (map (write_row_binary []) row)) rows))"
  by (induction rows arbitrary: out) (simp_all add: foldl_write_row_binary)

lemma write_varuint_nonempty: "write_varuint [] v \<noteq> []"
  using read_write_varuint [of v "[]"] by auto

lemma write_string_nonempty: "write_string [] s \<noteq> []"
  by (simp add: write_string_def write_varuint_nonempty)

lemma write_row_binary_nonempty: "write_row_binary [] v \<noteq> []"
proof (cases v)
  case (RvNullableDateTime64Nanos ns)
  then show ?thesis by (cases ns) (simp_all add: write_row_binary_def)
qed (simp_all add: write_row_binary_def write_string_nonempty write_varuint_nonempty foldl_pairs
      eval_nat_numeral)

lemma read_rows:
  assumes "ks \<noteq> []" "list_all (\<lambda>row. map kind_of row = ks \<and> list_all value_fits row) rows"
    and "length (concat (map (\<lambda>row. concat (map (write_row_binary []) row)) rows)) \<le> fuel"
  shows "read_until_end (read_values ks) fuel
      (concat (map (\<lambda>row. concat (map (write_row_binary []) row)) rows)) = Some rows"
  using assms(2,3)
proof (induction rows arbitrary: fuel)
  case (Cons row rows)
  let ?enc = "concat (map (write_row_binary []) row)"
  let ?rest = "concat (map (\<lambda>row. concat (map (write_row_binary []) row)) rows)"
  obtain v vs where row: "row = v # vs" using Cons.prems assms(1) by (cases row) auto
  then obtain b bs where enc: "?enc = b # bs"
    using write_row_binary_nonempty [of v] by (cases ?enc) auto
  then obtain f where f: "fuel = Suc f" "length ?rest \<le> f" using Cons.prems(2) by (cases fuel) auto
  have "read_values ks (b # bs @ ?rest) = Some (row, ?rest)"
    using read_write_values [of row ?rest] Cons.prems(1) enc by auto
  then show ?case
    using Cons.IH [OF _ f(2)] Cons.prems(1) enc f(1) by simp
qed simp

lemma table_lengths: "(c, ty) \<in> set type_table \<Longrightarrow> length c < 2 ^ 64 \<and> length ty < 2 ^ 64"
  by (auto simp: type_table_def)

lemma known_columns:
  assumes "list_all (\<lambda>c. column_kind c \<noteq> None) cs"
  shows "list_all (\<lambda>c. map_of type_table c \<noteq> None) cs"
    and "list_all (\<lambda>s. length s < 2 ^ 64) cs"
    and "list_all (\<lambda>s. length s < 2 ^ 64) (map (the \<circ> map_of type_table) cs)"
    and "None \<notin> set (map kind_of_type (map (the \<circ> map_of type_table) cs))"
    and "map (the \<circ> kind_of_type) (map (the \<circ> map_of type_table) cs) = map (the \<circ> column_kind) cs"
proof -
  have "map_of type_table c \<noteq> None \<and> length c < 2 ^ 64 \<and> length (the (map_of type_table c)) < 2 ^ 64 \<and>
      kind_of_type (the (map_of type_table c)) = column_kind c \<and> column_kind c \<noteq> None" if "c \<in> set cs" for c
  proof -
    have "column_kind c \<noteq> None" using assms that by (simp add: list_all_iff)
    then obtain ty where ty: "map_of type_table c = Some ty"
      by (cases "map_of type_table c") (auto simp: column_kind_def)
    show ?thesis
      using \<open>column_kind c \<noteq> None\<close> ty table_lengths [OF map_of_SomeD [OF ty]]
      by (auto simp: column_kind_def)
  qed
  then show "list_all (\<lambda>c. map_of type_table c \<noteq> None) cs"
    "list_all (\<lambda>s. length s < 2 ^ 64) cs"
    "list_all (\<lambda>s. length s < 2 ^ 64) (map (the \<circ> map_of type_table) cs)"
    "None \<notin> set (map kind_of_type (map (the \<circ> map_of type_table) cs))"
    "map (the \<circ> kind_of_type) (map (the \<circ> map_of type_table) cs) = map (the \<circ> column_kind) cs"
    by (fastforce simp: list_all_iff)+
qed

definition encoded_rows :: "row_value list list \<Rightarrow> bytes" where
  "encoded_rows rows = concat (map (\<lambda>row. concat (map (write_row_binary []) row)) rows)"

definition encoded_chunk :: "insert_chunk \<Rightarrow> bytes" where
  "encoded_chunk chunk =
     write_varuint [] (word_of_nat (length (columns chunk))) @
     concat (map (write_string []) (columns chunk)) @
     concat (map (write_string []) (map (the \<circ> map_of type_table) (columns chunk))) @
     encoded_rows (chunk_rows chunk)"

lemma typed_row_kinds:
  assumes "chunk_typed chunk" "row \<in> set (chunk_rows chunk)"
  shows "map kind_of row = map (the \<circ> column_kind) (columns chunk)"
proof -
  have "map (Some \<circ> kind_of) row = map column_kind (columns chunk)"
    using assms by (simp add: chunk_typed_def list_all_iff)
  then have "map the (map (Some \<circ> kind_of) row) = map the (map column_kind (columns chunk))" by simp
  then show ?thesis by (simp add: comp_def)
qed

lemma typed_row_width:
  "chunk_typed chunk \<Longrightarrow> row \<in> set (chunk_rows chunk) \<Longrightarrow> length row = length (columns chunk)"
  using typed_row_kinds by (metis length_map)

lemma serialize_typed:
  assumes "chunk_typed chunk"
  shows "serialize x RowBinary chunk = Inr (encoded_chunk chunk)"
proof -
  have known: "list_all (\<lambda>c. map_of type_table c \<noteq> None) (columns chunk)"
    by (rule known_columns(1)) (use assms in \<open>simp add: chunk_typed_def\<close>)
  have widths: "list_all (\<lambda>row. length row = length (columns chunk)) (chunk_rows chunk)"
    using typed_row_width [OF assms] by (simp add: list_all_iff)
  show ?thesis
    by (simp add: encoded_chunk_def encoded_rows_def serialize_row_binary_def foldl_write_string
        write_types_known [OF known] write_rows_widths [OF widths])
qed

lemma read_encoded_chunk:
  assumes typed: "chunk_typed chunk" and fits: "chunk_fits chunk"
  shows "read_chunk (encoded_chunk chunk) = Some (columns chunk, chunk_rows chunk)"
proof -
  let ?cs = "columns chunk" and ?data = "encoded_rows (chunk_rows chunk)"
  let ?types = "map (the \<circ> map_of type_table) ?cs"
  have kinds: "list_all (\<lambda>c. column_kind c \<noteq> None) ?cs" and cs: "?cs \<noteq> []"
    using typed by (simp_all add: chunk_typed_def)
  note known = known_columns [OF kinds]
  have data: "read_until_end (read_values (map (the \<circ> column_kind) ?cs)) (length ?data) ?data =
      Some (chunk_rows chunk)"
    unfolding encoded_rows_def
    by (rule read_rows) (use cs typed_row_kinds [OF typed] fits in \<open>auto simp: list_all_iff chunk_fits_def\<close>)
  have n: "unat (word_of_nat (length ?cs) :: u64) = length ?cs"
    using fits by (simp add: chunk_fits_def unat_of_nat)
  have names: "read_many read_string (length ?cs) (concat (map (write_string []) ?cs) @
      concat (map (write_string []) ?types) @ ?data) = Some (?cs, concat (map (write_string []) ?types) @ ?data)"
    by (rule read_many_strings [OF known(2)])
  have types: "read_many read_string (length ?cs) (concat (map (write_string []) ?types) @ ?data) = Some (?types, ?data)"
    using read_many_strings [OF known(3), of ?data] by simp
  show ?thesis
    unfolding read_chunk_def encoded_chunk_def read_write_varuint option.case prod.case n names types known(5) data
    using known(4) by simp
qed

text \<open>
  C25. A RowBinary body is complete and self-describing: for a chunk whose columns are known and whose
  values have their columns' types, serialisation succeeds, and a reader that is given nothing but
  the bytes recovers the column names and all rows, in order and value by value.
\<close>

theorem row_binary_round_trip:
  assumes typed: "chunk_typed chunk" and fits: "chunk_fits chunk"
  shows "\<exists>body. serialize x RowBinary chunk = Inr body \<and>
    read_chunk body = Some (columns chunk, chunk_rows chunk)"
  using serialize_typed [OF typed] read_encoded_chunk [OF assms] by blast

definition example_chunk :: insert_chunk where
  "example_chunk =
     \<lparr>database = ''d'', table_name = ''t'', columns = [''Body'', ''SeverityNumber'', ''LogAttributes''],
      chunk_rows = [[RvString ''hi'', RvUInt8 9, RvStringMap [(''k'', ''v'')]],
                    [RvString [], RvUInt8 0, RvStringMap []]],
      settings = \<lparr>insert_quorum = None, insert_deduplication_token = ''tok'', apply_deduplication_token = True\<rparr>,
      idempotency_token = ''tok'', chunk_index = 0, observability_labels = []\<rparr>"

theorem row_binary_round_trip_witness:
  "\<forall>x. \<exists>body. serialize x RowBinary example_chunk = Inr body \<and>
     read_chunk body = Some (columns example_chunk, chunk_rows example_chunk)"
  by (intro allI row_binary_round_trip)
    (simp_all add: chunk_typed_def chunk_fits_def example_chunk_def column_kind_def type_table_def
      kind_of_type_def)

end
