(* ===== verification/Logs_Adapter.thy ===== *)
theory Logs_Adapter
  imports Otel_Logs Serializer "HOL-Library.Product_Lexorder"
begin

text \<open>
  The OTLP logs adapter (\<open>adapter/logs.rs\<close>): configuration, chunking fingerprint, the row
  mapping, the idempotency token, the chunk planner and the table definition. An adapter is its
  \<open>plan\<close> method, a function from a planning batch to chunks or an error.

  The planner is compared with \<open>greedy_groups\<close>, which says what chunking means without chunks:
  a list cut into consecutive groups, each as long as the limits allow.
\<close>

section \<open>Definitions\<close>

datatype adapter_error = AdapterPlan string

definition display_adapter_error :: "adapter_error \<Rightarrow> string" where
  "display_adapter_error e = (case e of AdapterPlan m \<Rightarrow> ''adapter: '' @ m)"

record 'a adapter_batch =
  ab_identity :: commit_identity
  ab_records :: "'a list"
  ab_bytes :: nat

type_synonym 'a adapter = "'a adapter_batch \<Rightarrow> adapter_error + insert_chunk list"

record logs_adapter_config =
  lc_database :: string
  lc_table :: string
  lc_adapter_version :: u32
  lc_max_chunk_rows :: nat
  lc_max_chunk_bytes :: nat
  lc_insert_quorum :: "string option"
  lc_apply_deduplication_token :: bool

definition default_apply_dedup_token :: bool where
  "default_apply_dedup_token = True"

definition default_logs_config :: logs_adapter_config where
  "default_logs_config =
     \<lparr>lc_database = ''responsive'', lc_table = ''logs'', lc_adapter_version = 1,
      lc_max_chunk_rows = 100000, lc_max_chunk_bytes = 32 * 1024 * 1024,
      lc_insert_quorum = Some ''auto'', lc_apply_deduplication_token = True\<rparr>"

abbreviation newline :: string where
  "newline \<equiv> [CHR 0x0A]"

definition fingerprint_input :: "logs_adapter_config \<Rightarrow> string" where
  "fingerprint_input config =
     ''otlp-logs-clickhouse-adapter:v1'' @ newline @
     ''database='' @ lc_database config @ newline @
     ''table='' @ lc_table config @ newline @
     ''adapter_version='' @ show_word (lc_adapter_version config) @ newline @
     ''max_chunk_rows='' @ show_nat (lc_max_chunk_rows config) @ newline @
     ''max_chunk_bytes='' @ show_nat (lc_max_chunk_bytes config) @ newline @
     ''insert_quorum='' @ (case lc_insert_quorum config of Some q \<Rightarrow> q | None \<Rightarrow> []) @ newline"

definition chunking_fingerprint :: "clickhouse_externs \<Rightarrow> logs_adapter_config \<Rightarrow> string" where
  "chunking_fingerprint x config = cx_hex x (take 8 (cx_sha256 x (as_bytes (fingerprint_input config))))"

record logs_adapter =
  la_config :: logs_adapter_config
  la_fingerprint :: string

definition logs_adapter_new :: "clickhouse_externs \<Rightarrow> logs_adapter_config \<Rightarrow> logs_adapter" where
  "logs_adapter_new x config = \<lparr>la_config = config, la_fingerprint = chunking_fingerprint x config\<rparr>"

definition logs_columns :: "string list" where
  "logs_columns =
     [''Timestamp'', ''ObservedTimestamp'', ''SeverityText'', ''SeverityNumber'', ''ServiceName'',
      ''Body'', ''ResourceAttributes'', ''LogAttributes'', ''TraceId'', ''SpanId'',
      ''_odb_sequence'', ''_odb_entry_index'', ''_odb_record_index'', ''_odb_manifest_path'',
      ''_odb_data_path'', ''_odb_ingestion_time_ms'', ''_adapter_version'',
      ''_odb_gateway_received_at'']"

definition severity_to_u8 :: "i32 \<Rightarrow> u8" where
  "severity_to_u8 severity = word_of_int (max 0 (min 255 (sint severity)))"

definition log_row :: "logs_adapter_config \<Rightarrow> decoded_log_record \<Rightarrow> row_value list" where
  "log_row config rec =
     (let resource = bt_remove ''_odb_gateway_received_at'' (resource_attributes rec);
          gateway_received_at =
            Option.bind (bt_get ''_odb_gateway_received_at'' (resource_attributes rec)) parse_u64
      in [RvDateTime64Nanos (timestamp_unix_nano rec),
          RvDateTime64Nanos (observed_timestamp_unix_nano rec),
          RvLowCardinalityString (severity_text rec),
          RvUInt8 (severity_to_u8 (severity_number rec)),
          RvLowCardinalityString (case service_name rec of Some s \<Rightarrow> s | None \<Rightarrow> []),
          RvString (body rec),
          RvStringMap resource,
          RvStringMap (log_attributes rec),
          RvString (trace_id_hex rec),
          RvString (span_id_hex rec),
          RvUInt64 (buffer_sequence (dl_source rec)),
          RvUInt32 (rs_entry_index (dl_source rec)),
          RvUInt32 (rs_record_index (dl_source rec)),
          RvLowCardinalityString (rs_manifest_path (dl_source rec)),
          RvString (rs_data_path (dl_source rec)),
          RvInt64 (rs_ingestion_time_ms (dl_source rec)),
          RvUInt32 (lc_adapter_version config),
          RvNullableDateTime64Nanos gateway_received_at])"

definition build_token :: "string \<Rightarrow> logs_adapter_config \<Rightarrow> string \<Rightarrow> u64 \<Rightarrow> u64 \<Rightarrow> u32 \<Rightarrow> string" where
  "build_token manifest_path config fingerprint low high index =
     manifest_path @ '':'' @ lc_database config @ ''.'' @ lc_table config @ '':'' @
     show_word low @ ''-'' @ show_word high @ '':'' @ show_word (lc_adapter_version config) @ '':'' @
     fingerprint @ '':'' @ show_word index"

definition emit_chunk ::
  "logs_adapter \<Rightarrow> string \<Rightarrow> sequence_range \<Rightarrow> decoded_log_record list \<Rightarrow> u32 \<Rightarrow> insert_chunk" where
  "emit_chunk a manifest_path rng recs index =
     (let config = la_config a;
          token = build_token manifest_path config (la_fingerprint a) (range_low rng) (range_high rng) index
      in \<lparr>database = lc_database config, table_name = lc_table config, columns = logs_columns,
          chunk_rows = map (log_row config) recs,
          settings = \<lparr>insert_quorum = lc_insert_quorum config, insert_deduplication_token = token,
                      apply_deduplication_token = lc_apply_deduplication_token config\<rparr>,
          idempotency_token = token, chunk_index = index,
          observability_labels = [(''table'', lc_table config), (''signal'', ''logs'')]\<rparr>)"

fun chunk_loop ::
  "('a \<Rightarrow> nat) \<Rightarrow> nat \<Rightarrow> nat \<Rightarrow> ('a list \<Rightarrow> u32 \<Rightarrow> insert_chunk) \<Rightarrow>
   'a list \<Rightarrow> 'a list \<Rightarrow> nat \<Rightarrow> u32 \<Rightarrow> insert_chunk list" where
  "chunk_loop size_of max_rows max_bytes emit [] current current_bytes index =
     (if current = [] then [] else [emit current index])"
| "chunk_loop size_of max_rows max_bytes emit (rec # recs) current current_bytes index =
     (let rec_bytes = size_of rec;
          would_exceed_rows = length current + 1 > max_rows;
          would_exceed_bytes = current_bytes + rec_bytes > max_bytes
      in if current \<noteq> [] \<and> (would_exceed_rows \<or> would_exceed_bytes)
         then emit current index # chunk_loop size_of max_rows max_bytes emit recs [rec] rec_bytes (index + 1)
         else chunk_loop size_of max_rows max_bytes emit recs (current @ [rec])
                (current_bytes + rec_bytes) index)"

definition sort_coordinates :: "decoded_log_record \<Rightarrow> u64 \<times> u32 \<times> u32" where
  "sort_coordinates r =
     (buffer_sequence (dl_source r), rs_entry_index (dl_source r), rs_record_index (dl_source r))"

definition plan :: "otel_externs \<Rightarrow> logs_adapter \<Rightarrow> decoded_log_record adapter" where
  "plan ox a batch =
     (let records = sort_key sort_coordinates (ab_records batch)
      in case records of
           [] \<Rightarrow> Inr []
         | first # _ \<Rightarrow>
             (let manifest_path = rs_manifest_path (dl_source first)
              in case find (\<lambda>r. rs_manifest_path (dl_source r) \<noteq> manifest_path) records of
                   Some mismatch \<Rightarrow>
                     Inl (AdapterPlan
                       (''commit group mixes manifest paths: first record has '' @ manifest_path @
                        '', found '' @ rs_manifest_path (dl_source mismatch)))
                 | None \<Rightarrow>
                     Inr (chunk_loop (approx_size_bytes ox)
                       (max (lc_max_chunk_rows (la_config a)) 1) (max (lc_max_chunk_bytes (la_config a)) 1)
                       (emit_chunk a manifest_path (ci_range (ab_identity batch))) records [] 0 0)))"

definition ddl_lines :: "string list" where
  "ddl_lines =
     [''Timestamp           DateTime64(9)               CODEC(Delta, ZSTD),'',
      ''ObservedTimestamp   DateTime64(9)               CODEC(Delta, ZSTD),'',
      ''SeverityText        LowCardinality(String),'',
      ''SeverityNumber      UInt8,'',
      ''ServiceName         LowCardinality(String),'',
      ''Body                String                      CODEC(ZSTD),'',
      ''ResourceAttributes  Map(LowCardinality(String), String),'',
      ''LogAttributes       Map(LowCardinality(String), String),'',
      ''TraceId             String                      CODEC(ZSTD),'',
      ''SpanId              String                      CODEC(ZSTD),'',
      ''_odb_sequence            UInt64,'',
      ''_odb_entry_index         UInt32,'',
      ''_odb_record_index        UInt32,'',
      ''_odb_manifest_path       LowCardinality(String),'',
      ''_odb_data_path           String,'',
      ''_odb_ingestion_time_ms   Int64,'',
      ''_adapter_version         UInt32,'',
      ''_odb_gateway_received_at    Nullable(DateTime64(9)),'',
      ''_odb_clickhouse_inserted_at DateTime64(9) DEFAULT now64(9)'',
      '')'',
      ''ENGINE = ReplacingMergeTree(_adapter_version)'',
      ''PARTITION BY toDate(Timestamp)'',
      ''ORDER BY (toDate(Timestamp), ServiceName, _odb_sequence, _odb_entry_index, _odb_record_index)'']"

definition logs_table_ddl :: "logs_adapter_config \<Rightarrow> string" where
  "logs_table_ddl config =
     ''CREATE TABLE IF NOT EXISTS '' @ lc_database config @ ''.'' @ lc_table config @ '' ('' @ newline @
     concat (map (\<lambda>l. l @ newline) ddl_lines) @ ''TTL toDate(Timestamp) + INTERVAL 30 DAY''"

section \<open>Chunking\<close>

text \<open>
  \<open>greedy_groups\<close> cuts a list so that each group takes elements as long as the row and byte
  limits allow.
\<close>

definition group_ok :: "('a \<Rightarrow> nat) \<Rightarrow> nat \<Rightarrow> nat \<Rightarrow> 'a list \<Rightarrow> bool" where
  "group_ok size_of max_rows max_bytes g =
     (length g \<le> max_rows \<and> sum_list (map size_of g) \<le> max_bytes \<or> length g = 1)"

fun greedy_groups :: "('a list \<Rightarrow> bool) \<Rightarrow> 'a list \<Rightarrow> 'a list \<Rightarrow> 'a list list" where
  "greedy_groups ok cur [] = (if cur = [] then [] else [cur])"
| "greedy_groups ok cur (y # ys) =
     (if ok (cur @ [y]) then greedy_groups ok (cur @ [y]) ys else cur # greedy_groups ok [y] ys)"

lemma chunk_loop_greedy:
  assumes "b = sum_list (map size_of cur)" "1 \<le> max_rows"
  shows "chunk_loop size_of max_rows max_bytes emit recs cur b i =
    map (\<lambda>(k, g). emit g (i + word_of_nat k))
      (enumerate 0 (greedy_groups (group_ok size_of max_rows max_bytes) cur recs))"
  using assms(1)
proof (induction recs arbitrary: cur b i)
  case (Cons r recs)
  let ?ok = "group_ok size_of max_rows max_bytes"
  have flush: "?ok (cur @ [r]) \<longleftrightarrow>
      \<not> (cur \<noteq> [] \<and> (length cur + 1 > max_rows \<or> b + size_of r > max_bytes))"
    using Cons.prems assms(2) by (cases cur) (auto simp: group_ok_def)
  show ?case
  proof (cases "?ok (cur @ [r])")
    case True
    then show ?thesis
      using Cons.IH [of "b + size_of r" "cur @ [r]" i] Cons.prems flush by (auto simp: Let_def)
  next
    case False
    have "enumerate (Suc 0) gs = map (\<lambda>(k, g). (Suc k, g)) (enumerate 0 gs)" for gs :: "'a list list"
      by (auto simp: enumerate_eq_zip zip_map1 map_Suc_upt [symmetric] simp del: map_Suc_upt upt_Suc)
    then show ?thesis
      using False Cons.IH [of "size_of r" "[r]" "i + 1"] flush
      by (simp add: Let_def case_prod_beta comp_def add.assoc)
  qed
qed simp

lemma greedy_concat: "concat (greedy_groups ok cur ys) = cur @ ys"
  by (induction ok cur ys rule: greedy_groups.induct) auto

lemma greedy_ok:
  assumes "cur = [] \<or> ok cur" "\<forall>y. ok [y]" "g \<in> set (greedy_groups ok cur ys)"
  shows "g \<noteq> [] \<and> ok g"
  using assms
proof (induction ok cur ys rule: greedy_groups.induct)
  case (2 ok cur y ys)
  then show ?case by (cases "cur = []") (auto split: if_splits)
qed (auto split: if_splits)

lemma greedy_head:
  "cur \<noteq> [] \<Longrightarrow> \<exists>zs gs. greedy_groups ok cur ys = (cur @ zs) # gs"
  by (induction ok cur ys rule: greedy_groups.induct) auto

lemma greedy_maximal:
  assumes "\<forall>y. ok [y]" "Suc i < length (greedy_groups ok cur ys)"
  shows "\<not> ok (greedy_groups ok cur ys ! i @ [hd (greedy_groups ok cur ys ! Suc i)])"
  using assms
proof (induction ok cur ys arbitrary: i rule: greedy_groups.induct)
  case (2 ok cur y ys)
  show ?case
  proof (cases "ok (cur @ [y])")
    case False
    obtain zs gs where "greedy_groups ok [y] ys = (y # zs) # gs"
      using greedy_head [of "[y]" ok ys] by auto
    then show ?thesis using False 2 by (cases i) auto
  qed (use 2 in auto)
qed (auto split: if_splits)

section \<open>What a plan contains\<close>

definition within_limits :: "otel_externs \<Rightarrow> logs_adapter_config \<Rightarrow> decoded_log_record list \<Rightarrow> bool" where
  "within_limits ox config =
     group_ok (approx_size_bytes ox) (max (lc_max_chunk_rows config) 1) (max (lc_max_chunk_bytes config) 1)"

definition plan_groups :: "otel_externs \<Rightarrow> logs_adapter \<Rightarrow> decoded_log_record list \<Rightarrow> decoded_log_record list list" where
  "plan_groups ox a records =
     greedy_groups (within_limits ox (la_config a)) [] (sort_key sort_coordinates records)"

lemma within_limits_single [simp]: "within_limits ox config [r]"
  by (simp add: within_limits_def group_ok_def)

lemma plan_chunks:
  assumes "plan ox a batch = Inr chunks"
  obtains mp where "\<forall>r\<in>set (ab_records batch). rs_manifest_path (dl_source r) = mp"
    and "chunks = map (\<lambda>(k, g). emit_chunk a mp (ci_range (ab_identity batch)) g (word_of_nat k))
      (enumerate 0 (plan_groups ox a (ab_records batch)))"
proof (cases "sort_key sort_coordinates (ab_records batch)")
  case Nil
  then have "ab_records batch = []" by (metis set_empty set_sort)
  then show thesis using that [of "[]"] assms by (simp add: plan_def plan_groups_def)
next
  case (Cons f rs)
  let ?mp = "rs_manifest_path (dl_source f)"
  have none: "find (\<lambda>r. rs_manifest_path (dl_source r) \<noteq> ?mp) (f # rs) = None"
    using assms Cons by (auto simp: plan_def Let_def split: option.splits)
  have "set (ab_records batch) = set (f # rs)" using Cons by (metis set_sort)
  then have "\<forall>r\<in>set (ab_records batch). rs_manifest_path (dl_source r) = ?mp"
    using none by (auto simp: find_None_iff)
  moreover have "chunks = map (\<lambda>(k, g). emit_chunk a ?mp (ci_range (ab_identity batch)) g (word_of_nat k))
      (enumerate 0 (plan_groups ox a (ab_records batch)))"
    using assms none
    by (simp add: plan_def plan_groups_def Cons Let_def chunk_loop_greedy within_limits_def
        del: chunk_loop.simps greedy_groups.simps find.simps)
  ultimately show thesis by (rule that)
qed

lemma plan_emit:
  assumes "plan ox a batch = Inr chunks" "c \<in> set chunks"
  shows "\<exists>mp g i. c = emit_chunk a mp (ci_range (ab_identity batch)) g i"
proof -
  obtain mp where "chunks = map (\<lambda>(k, g). emit_chunk a mp (ci_range (ab_identity batch)) g (word_of_nat k))
      (enumerate 0 (plan_groups ox a (ab_records batch)))"
    using plan_chunks [OF assms(1)] by blast
  then show ?thesis using assms(2) by auto
qed

lemma plan_groups_concat: "concat (plan_groups ox a records) = sort_key sort_coordinates records"
  by (simp add: plan_groups_def greedy_concat)

lemma plan_groups_ok:
  "g \<in> set (plan_groups ox a records) \<Longrightarrow> g \<noteq> [] \<and> within_limits ox (la_config a) g"
  unfolding plan_groups_def by (rule greedy_ok) auto

lemma length_concat_ge: "\<forall>g\<in>set gs. g \<noteq> [] \<Longrightarrow> length gs \<le> length (concat gs)"
  by (induction gs) (auto simp: neq_Nil_conv)

lemma plan_groups_length: "length (plan_groups ox a records) \<le> length records"
  using length_concat_ge [of "plan_groups ox a records"] plan_groups_ok plan_groups_concat
  by (metis length_sort)

lemma emit_chunk_simps [simp]:
  "chunk_rows (emit_chunk a mp rng g i) = map (log_row (la_config a)) g"
  "columns (emit_chunk a mp rng g i) = logs_columns"
  "chunk_index (emit_chunk a mp rng g i) = i"
  "idempotency_token (emit_chunk a mp rng g i) =
     build_token mp (la_config a) (la_fingerprint a) (range_low rng) (range_high rng) i"
  by (simp_all add: emit_chunk_def Let_def)

lemma plan_rows:
  assumes "plan ox a batch = Inr chunks"
  shows "map chunk_rows chunks = map (map (log_row (la_config a))) (plan_groups ox a (ab_records batch))"
proof -
  let ?gs = "plan_groups ox a (ab_records batch)"
  obtain mp where "chunks = map (\<lambda>(k, g). emit_chunk a mp (ci_range (ab_identity batch)) g (word_of_nat k))
      (enumerate 0 ?gs)"
    using plan_chunks [OF assms] by blast
  then have "map chunk_rows chunks = map (map (log_row (la_config a)) \<circ> snd) (enumerate 0 ?gs)"
    by (simp add: comp_def case_prod_beta)
  then show ?thesis by (metis list.map_comp map_snd_enumerate)
qed

text \<open>
  C26. The planner neither drops, duplicates nor reorders records beyond sorting: the rows of the
  chunks, in order, are the mapped records in coordinate order; every chunk is non-empty and within
  the configured row and byte limits unless it is a single record; no chunk could have taken the
  first record of the next one; and the row counts add up to the number of records.
\<close>

theorem plan_conserves_rows:
  assumes "plan ox a batch = Inr chunks"
  shows "\<exists>gs. concat gs = sort_key sort_coordinates (ab_records batch) \<and>
    map chunk_rows chunks = map (map (log_row (la_config a))) gs \<and>
    (\<forall>g\<in>set gs. g \<noteq> [] \<and> within_limits ox (la_config a) g) \<and>
    (\<forall>i. Suc i < length gs \<longrightarrow> \<not> within_limits ox (la_config a) (gs ! i @ [hd (gs ! Suc i)])) \<and>
    sum_list (map rows_count chunks) = length (ab_records batch)"
proof -
  let ?gs = "plan_groups ox a (ab_records batch)"
  have "map rows_count chunks = map length (map chunk_rows chunks)"
    by (simp add: rows_count_def)
  then have "map rows_count chunks = map length ?gs"
    unfolding plan_rows [OF assms] by simp
  then have count: "sum_list (map rows_count chunks) = length (ab_records batch)"
    by (metis length_concat plan_groups_concat length_sort)
  have "\<not> within_limits ox (la_config a) (?gs ! i @ [hd (?gs ! Suc i)])" if "Suc i < length ?gs" for i
    using that unfolding plan_groups_def by (intro greedy_maximal) simp_all
  then show ?thesis
    using plan_groups_concat plan_rows [OF assms] plan_groups_ok count
    by (intro exI [of _ ?gs]) blast
qed

lemma plan_same_records:
  assumes "mset (ab_records b) = mset (ab_records b')" "ci_range (ab_identity b) = ci_range (ab_identity b')"
    and "distinct (map sort_coordinates (ab_records b))"
  shows "plan ox a b = plan ox a b'"
proof -
  have "sort_key sort_coordinates (ab_records b) = sort_key sort_coordinates (ab_records b')"
    using assms(1,3) by (intro sort_key_inj_key_eq) (auto simp: distinct_map)
  then show ?thesis unfolding plan_def by (simp only: assms(2))
qed

definition example_record :: "u32 \<Rightarrow> decoded_log_record" where
  "example_record i =
     \<lparr>dl_source = \<lparr>buffer_sequence = 4, rs_entry_index = 0, rs_record_index = i, rs_manifest_path = ''m'',
                   rs_data_path = ''d'', rs_ingestion_time_ms = 1\<rparr>,
      timestamp_unix_nano = 5, observed_timestamp_unix_nano = 6, severity_number = 9,
      severity_text = ''INFO'', body = ''hi'', service_name = None,
      resource_attributes = [(''_odb_gateway_received_at'', ''77''), (''host'', ''h'')],
      scope_name = None, log_attributes = [], trace_id_hex = [], span_id_hex = []\<rparr>"

definition example_adapter :: logs_adapter where
  "example_adapter =
     \<lparr>la_config = \<lparr>lc_database = ''db'', lc_table = ''logs'', lc_adapter_version = 1, lc_max_chunk_rows = 2,
                    lc_max_chunk_bytes = 900, lc_insert_quorum = None, lc_apply_deduplication_token = True\<rparr>,
      la_fingerprint = ''00ff''\<rparr>"

definition example_group :: "decoded_log_record adapter_batch" where
  "example_group =
     \<lparr>ab_identity = \<lparr>ci_source = SourceId ''s'', ci_sink = SinkId ''k'', ci_range = sequence_range_new 4 4,
                      ci_schema_version = SchemaVersion 1\<rparr>,
      ab_records = map example_record [2, 0, 1], ab_bytes = 0\<rparr>"

lemma example_plan: "is_ok (plan example_externs example_adapter example_group)"
  by code_simp

lemma example_tokens:
  "map idempotency_token (projr (plan example_externs example_adapter example_group)) =
     [''m:db.logs:4-4:1:00ff:0'', ''m:db.logs:4-4:1:00ff:1'']"
  by code_simp

theorem plan_conserves_rows_witness:
  "sum_list (map rows_count (projr (plan example_externs example_adapter example_group))) = 3"
proof -
  obtain cs where cs: "plan example_externs example_adapter example_group = Inr cs"
    using example_plan by (auto simp: is_ok_iff)
  then show ?thesis
    using plan_conserves_rows [OF cs] by (auto simp: example_group_def)
qed

section \<open>Tokens\<close>

lemma build_token_inject:
  assumes "build_token mp cfg fp l h i = build_token mp' cfg fp l' h' i'"
  shows "mp = mp' \<and> l = l' \<and> h = h' \<and> i = i'"
proof -
  let ?tail = "CHR '':'' # show_word (lc_adapter_version cfg) @ CHR '':'' # fp"
  let ?name = "lc_database cfg @ CHR ''.'' # lc_table cfg"
  let ?rng = "\<lambda>l h. show_word l @ CHR ''-'' # show_word h"
  note digits = not_digit_notin [OF show_word_digits]
  have "((mp @ CHR '':'' # ?name @ CHR '':'' # ?rng l h) @ ?tail) @ CHR '':'' # show_word i =
      ((mp' @ CHR '':'' # ?name @ CHR '':'' # ?rng l' h') @ ?tail) @ CHR '':'' # show_word i'"
    using assms by (simp add: build_token_def)
  then have one: "(mp @ CHR '':'' # ?name @ CHR '':'' # ?rng l h) @ ?tail =
      (mp' @ CHR '':'' # ?name @ CHR '':'' # ?rng l' h') @ ?tail \<and> show_word i = show_word i'"
    by (rule split_at_last_separator) (simp_all add: digits)
  then have "(mp @ CHR '':'' # ?name) @ CHR '':'' # ?rng l h = (mp' @ CHR '':'' # ?name) @ CHR '':'' # ?rng l' h'"
    by simp
  then have two: "mp @ CHR '':'' # ?name = mp' @ CHR '':'' # ?name \<and> ?rng l h = ?rng l' h'"
    by (rule split_at_last_separator) (auto simp: digits)
  then have "show_word l = show_word l' \<and> show_word h = show_word h'"
    by (intro split_at_separator [of _ "CHR ''-''"]) (simp_all add: digits)
  then show ?thesis using one two by simp
qed

lemma plan_chunk:
  assumes "plan ox a batch = Inr chunks" "c \<in> set chunks" "length (ab_records batch) < 2 ^ 32"
  obtains k g mp where "k < length (plan_groups ox a (ab_records batch))"
    and "g = plan_groups ox a (ab_records batch) ! k"
    and "c = emit_chunk a mp (ci_range (ab_identity batch)) g (word_of_nat k)"
    and "unat (word_of_nat k :: u32) = k" and "chunks ! k = c"
    and "\<forall>r\<in>set (ab_records batch). rs_manifest_path (dl_source r) = mp"
proof -
  let ?gs = "plan_groups ox a (ab_records batch)"
  obtain mp where mp: "\<forall>r\<in>set (ab_records batch). rs_manifest_path (dl_source r) = mp"
    and cs: "chunks = map (\<lambda>(k, g). emit_chunk a mp (ci_range (ab_identity batch)) g (word_of_nat k))
      (enumerate 0 ?gs)"
    using plan_chunks [OF assms(1)] by blast
  obtain k where k: "k < length ?gs" "c = emit_chunk a mp (ci_range (ab_identity batch)) (?gs ! k) (word_of_nat k)"
    using assms(2) by (auto simp: cs in_set_enumerate_eq)
  have "unat (word_of_nat k :: u32) = k"
    using k(1) plan_groups_length [of ox a "ab_records batch"] assms(3) by (simp add: unat_of_nat)
  then show thesis using that [of k "?gs ! k" mp] k mp by (simp add: cs nth_enumerate_eq)
qed

lemma plan_nonempty:
  "c \<in> set chunks \<Longrightarrow> plan ox a batch = Inr chunks \<Longrightarrow> ab_records batch \<noteq> []"
  by (auto simp: plan_def)

text \<open>
  C27. Tokens name chunks: within a plan all tokens differ, each chunk carries its own token to the
  server, and two chunks of any two plans of one adapter have the same token only if they come from
  the same manifest, the same source range and the same position; if in addition the two plans were
  made from the same records, the chunks are identical. So deduplicating by token never drops
  different data.
\<close>

theorem token_identifies_chunk:
  assumes plans: "plan ox a b = Inr cs" "plan ox a b' = Inr cs'"
    and sizes: "length (ab_records b) < 2 ^ 32" "length (ab_records b') < 2 ^ 32"
    and mem: "c \<in> set cs" "c' \<in> set cs'" and same: "idempotency_token c = idempotency_token c'"
  shows "distinct (map idempotency_token cs) \<and> insert_deduplication_token (settings c) = idempotency_token c \<and>
    rs_manifest_path (dl_source (hd (ab_records b))) = rs_manifest_path (dl_source (hd (ab_records b'))) \<and>
    range_low (ci_range (ab_identity b)) = range_low (ci_range (ab_identity b')) \<and>
    range_high (ci_range (ab_identity b)) = range_high (ci_range (ab_identity b')) \<and>
    chunk_index c = chunk_index c' \<and>
    (mset (ab_records b) = mset (ab_records b') \<and> distinct (map sort_coordinates (ab_records b)) \<longrightarrow> c = c')"
proof -
  obtain k g mp where c: "c = emit_chunk a mp (ci_range (ab_identity b)) g (word_of_nat k)"
    "unat (word_of_nat k :: u32) = k" "cs ! k = c"
    "\<forall>r\<in>set (ab_records b). rs_manifest_path (dl_source r) = mp"
    using plan_chunk [OF plans(1) mem(1) sizes(1)] by blast
  obtain k' g' mp' where c': "c' = emit_chunk a mp' (ci_range (ab_identity b')) g' (word_of_nat k')"
    "unat (word_of_nat k' :: u32) = k'" "cs' ! k' = c'"
    "\<forall>r\<in>set (ab_records b'). rs_manifest_path (dl_source r) = mp'"
    using plan_chunk [OF plans(2) mem(2) sizes(2)] by blast
  have tok: "mp = mp'" "range_low (ci_range (ab_identity b)) = range_low (ci_range (ab_identity b'))"
    "range_high (ci_range (ab_identity b)) = range_high (ci_range (ab_identity b'))"
    "(word_of_nat k :: u32) = word_of_nat k'"
    using build_token_inject same by (simp_all add: c(1) c'(1))
  then have kk: "k = k'" using c(2) c'(2) by metis
  have "distinct (map idempotency_token cs)"
    unfolding distinct_conv_nth
  proof (intro allI impI)
    fix i j assume ij: "i < length (map idempotency_token cs)" "j < length (map idempotency_token cs)" "i \<noteq> j"
    obtain mi where mi: "cs = map (\<lambda>(k, g). emit_chunk a mi (ci_range (ab_identity b)) g (word_of_nat k))
        (enumerate 0 (plan_groups ox a (ab_records b)))"
      using plan_chunks [OF plans(1)] by blast
    have "(word_of_nat i :: u32) \<noteq> word_of_nat j"
      using ij mi plan_groups_length [of ox a "ab_records b"] sizes(1)
      by (simp add: word_unat_eq_iff unat_of_nat)
    then show "map idempotency_token cs ! i \<noteq> map idempotency_token cs ! j"
      using ij by (auto simp: mi nth_enumerate_eq dest!: build_token_inject)
  qed
  moreover have "c = c'" if eq: "mset (ab_records b) = mset (ab_records b')"
    "distinct (map sort_coordinates (ab_records b))"
  proof -
    have "ci_range (ab_identity b) = ci_range (ab_identity b')"
      using tok by (simp add: sequence_range.equality)
    then have "plan ox a b = plan ox a b'" using plan_same_records eq by blast
    then show ?thesis using plans c(3) c'(3) kk by simp
  qed
  moreover have "rs_manifest_path (dl_source (hd (ab_records b))) = mp"
    "rs_manifest_path (dl_source (hd (ab_records b'))) = mp'"
    using c(4) c'(4) plan_nonempty [OF mem(1) plans(1)] plan_nonempty [OF mem(2) plans(2)] by simp_all
  ultimately show ?thesis
    using tok kk by (simp add: c(1) c'(1)) (simp add: emit_chunk_def Let_def)
qed

theorem token_identifies_chunk_witness:
  "distinct (map idempotency_token (projr (plan example_externs example_adapter example_group)))"
proof -
  obtain cs where cs: "plan example_externs example_adapter example_group = Inr cs"
    using example_plan by (auto simp: is_ok_iff)
  then obtain c where c: "c \<in> set cs" using example_tokens by (cases cs) auto
  have "length (ab_records example_group) < 2 ^ 32" by (simp add: example_group_def)
  from token_identifies_chunk [OF cs cs this this c c refl] show ?thesis by (simp add: cs)
qed

section \<open>Rows fit the table\<close>

lemma log_row_kinds: "map (Some \<circ> kind_of) (log_row config r) = map column_kind logs_columns"
  by (simp add: log_row_def Let_def logs_columns_def column_kind_def type_table_def kind_of_type_def)

lemma plan_typed:
  assumes "plan ox a batch = Inr chunks" "c \<in> set chunks"
  shows "chunk_typed c"
proof -
  obtain mp g i where c: "c = emit_chunk a mp (ci_range (ab_identity batch)) g i"
    using plan_emit [OF assms] by blast
  have "list_all (\<lambda>c. column_kind c \<noteq> None) logs_columns"
    by (simp add: logs_columns_def column_kind_def type_table_def kind_of_type_def)
  moreover have "logs_columns \<noteq> []" by (simp add: logs_columns_def)
  ultimately show ?thesis
    by (simp only: chunk_typed_def c emit_chunk_simps) (simp add: list_all_iff log_row_kinds)
qed

lemma json_lines_ok:
  "(\<forall>j. is_ok (cx_json x j)) \<Longrightarrow> list_all (\<lambda>row. length row = length cols) rows \<Longrightarrow>
     is_ok (json_lines x cols out rows)"
  by (induction x cols out rows rule: json_lines.induct)
    (auto simp: is_ok_iff split: sum.splits, metis Inl_Inr_False)

text \<open>Whether a column definition line of the table declares the column with the type.\<close>

definition declares :: "string \<Rightarrow> string \<Rightarrow> string \<Rightarrow> bool" where
  "declares line col ty =
     (take (length col) line = col \<and>
      (let rest = dropWhile (\<lambda>c. c = CHR '' '') (drop (length col) line)
       in drop (length col) line \<noteq> rest \<and> take (length ty) rest = ty \<and>
          take 1 (drop (length ty) rest) \<in> {'','', '' ''}))"

text \<open>
  C28. The three places that spell out the table agree: the columns the adapter writes are, in order,
  the first columns of the table definition, with the types that the RowBinary header announces; every
  planned row has one value of that type per column; so a planned chunk always serialises, in either
  format.
\<close>

theorem plan_fits_table:
  assumes "plan ox a batch = Inr chunks" "c \<in> set chunks"
  shows "columns c = logs_columns \<and> chunk_typed c \<and>
    list_all2 (\<lambda>col line. \<exists>ty. map_of type_table col = Some ty \<and> declares line col ty)
      logs_columns (take 18 ddl_lines) \<and>
    is_ok (serialize x RowBinary c) \<and>
    ((\<forall>j. is_ok (cx_json x j)) \<longrightarrow> is_ok (serialize x JsonEachRow c))"
proof -
  have typed: "chunk_typed c" by (rule plan_typed [OF assms])
  have "columns c = logs_columns"
    using plan_emit [OF assms] by auto
  moreover have "list_all (\<lambda>row. length row = length (columns c)) (chunk_rows c)"
    using typed_row_width [OF typed] by (simp add: list_all_iff)
  moreover have "list_all2 (\<lambda>col line. \<exists>ty. map_of type_table col = Some ty \<and> declares line col ty)
      logs_columns (take 18 ddl_lines)"
    by (simp add: logs_columns_def ddl_lines_def type_table_def declares_def Let_def)
  ultimately show ?thesis
    using typed serialize_typed [OF typed] json_lines_ok by (simp add: serialize_json_each_row_def)
qed

theorem plan_fits_table_witness:
  "\<exists>c. c \<in> set (projr (plan example_externs example_adapter example_group)) \<and> (\<forall>x. is_ok (serialize x RowBinary c))"
proof -
  obtain cs where cs: "plan example_externs example_adapter example_group = Inr cs"
    using example_plan by (auto simp: is_ok_iff)
  then obtain c where "c \<in> set cs" using example_tokens by (cases cs) auto
  then show ?thesis using plan_fits_table [OF cs] by (auto simp: cs)
qed

text \<open>
  C29. The row mapping moves the gateway stamp and keeps the rest: the stamp's key is gone from the
  resource attributes and every other attribute is unchanged; the typed column holds the parsed
  stamp, the very number if the producer wrote one, and NULL if the text is no unsigned 64-bit
  number; the severity is clamped to a byte, not truncated.
\<close>

theorem log_row_gateway_stamp:
  assumes wf: "bt_wf (resource_attributes r)"
  shows "(\<exists>m. log_row config r ! 6 = RvStringMap m \<and> bt_wf m \<and>
      (\<forall>k. bt_get k m = (if k = ''_odb_gateway_received_at'' then None else bt_get k (resource_attributes r)))) \<and>
    (\<forall>w. bt_get ''_odb_gateway_received_at'' (resource_attributes r) = Some (show_word w) \<longrightarrow>
      log_row config r ! 17 = RvNullableDateTime64Nanos (Some w)) \<and>
    (\<forall>t. bt_get ''_odb_gateway_received_at'' (resource_attributes r) = Some t \<and> parse_u64 t = None \<longrightarrow>
      log_row config r ! 17 = RvNullableDateTime64Nanos None) \<and>
    log_row config r ! 3 = RvUInt8 (severity_to_u8 (severity_number r)) \<and>
    uint (severity_to_u8 (severity_number r)) = max 0 (min 255 (sint (severity_number r)))"
proof -
  have "uint (severity_to_u8 (severity_number r)) = max 0 (min 255 (sint (severity_number r)))"
    by (simp add: severity_to_u8_def uint_word_of_int)
  then show ?thesis
    using wf by (simp add: log_row_def Let_def bt_simps parse_u64_show_word)
qed

theorem log_row_gateway_stamp_witness:
  "log_row (la_config example_adapter) (example_record 0) ! 17 = RvNullableDateTime64Nanos (Some 77)"
proof -
  have "bt_wf (resource_attributes (example_record 0))" by code_simp
  moreover have "bt_get ''_odb_gateway_received_at'' (resource_attributes (example_record 0)) = Some (show_word (77 :: u64))"
    by code_simp
  ultimately show ?thesis
    using log_row_gateway_stamp [of "example_record 0" "la_config example_adapter"] by blast
qed

section \<open>The fingerprint\<close>

lemma newline_not_digit: "\<not> is_digit (CHR 0x0A)"
  by (simp add: is_digit_def)

text \<open>
  C30. The text that is hashed into the chunking fingerprint determines everything that affects chunk
  boundaries: two configurations (with database and table names on one line) with the same text agree
  on the names, the adapter version and both limits, and chunk every list of records alike.
\<close>

theorem fingerprint_covers_chunking:
  assumes same: "fingerprint_input c = fingerprint_input c'"
    and names: "CHR 0x0A \<notin> set (lc_database c)" "CHR 0x0A \<notin> set (lc_database c')"
      "CHR 0x0A \<notin> set (lc_table c)" "CHR 0x0A \<notin> set (lc_table c')"
  shows "lc_database c = lc_database c' \<and> lc_table c = lc_table c' \<and>
    lc_adapter_version c = lc_adapter_version c' \<and> lc_max_chunk_rows c = lc_max_chunk_rows c' \<and>
    lc_max_chunk_bytes c = lc_max_chunk_bytes c' \<and> within_limits ox c = within_limits ox c'"
proof -
  let ?quorum = "\<lambda>c. ''insert_quorum='' @ (case lc_insert_quorum c of Some q \<Rightarrow> q | None \<Rightarrow> []) @ newline"
  let ?bytes = "\<lambda>c. ''max_chunk_bytes='' @ show_nat (lc_max_chunk_bytes c) @ CHR 0x0A # ?quorum c"
  let ?rows = "\<lambda>c. ''max_chunk_rows='' @ show_nat (lc_max_chunk_rows c) @ CHR 0x0A # ?bytes c"
  let ?version = "\<lambda>c. ''adapter_version='' @ show_word (lc_adapter_version c) @ CHR 0x0A # ?rows c"
  let ?table = "\<lambda>c. ''table='' @ lc_table c @ CHR 0x0A # ?version c"
  note no_newline = not_digit_notin [OF show_word_digits newline_not_digit]
    not_digit_notin [OF show_nat_digits newline_not_digit]
  have "lc_database c @ CHR 0x0A # ?table c = lc_database c' @ CHR 0x0A # ?table c'"
    using same by (simp only: fingerprint_input_def append.simps append_assoc list.inject same_append_eq)
  note db = split_at_separator [OF this names(1,2)]
  then have "lc_table c @ CHR 0x0A # ?version c = lc_table c' @ CHR 0x0A # ?version c'"
    by (simp only: append.simps list.inject)
  note tb = split_at_separator [OF this names(3,4)]
  then have "show_word (lc_adapter_version c) @ CHR 0x0A # ?rows c = show_word (lc_adapter_version c') @ CHR 0x0A # ?rows c'"
    by (simp only: append.simps list.inject)
  note v = split_at_separator [OF this no_newline(1,1)]
  then have "show_nat (lc_max_chunk_rows c) @ CHR 0x0A # ?bytes c = show_nat (lc_max_chunk_rows c') @ CHR 0x0A # ?bytes c'"
    by (simp only: append.simps list.inject)
  note rows = split_at_separator [OF this no_newline(2,2)]
  then have "show_nat (lc_max_chunk_bytes c) @ CHR 0x0A # ?quorum c = show_nat (lc_max_chunk_bytes c') @ CHR 0x0A # ?quorum c'"
    by (simp only: append.simps list.inject)
  note bytes = split_at_separator [OF this no_newline(2,2)]
  show ?thesis
    using db tb v rows bytes unfolding within_limits_def show_word_inject show_nat_inject by simp
qed

theorem fingerprint_covers_chunking_witness:
  "lc_max_chunk_bytes (la_config example_adapter) = 900"
proof -
  let ?c = "la_config example_adapter"
  have "CHR 0x0A \<notin> set (lc_database ?c)" "CHR 0x0A \<notin> set (lc_table ?c)"
    by (simp_all add: example_adapter_def)
  moreover have "fingerprint_input ?c = fingerprint_input (?c\<lparr>lc_max_chunk_bytes := 900\<rparr>)"
    by (simp add: example_adapter_def)
  ultimately show ?thesis
    using fingerprint_covers_chunking [of ?c "?c\<lparr>lc_max_chunk_bytes := 900\<rparr>"] by simp
qed

end
