(* ===== verification/Clickhouse_Writer.thy ===== *)
theory Clickhouse_Writer
  imports Serializer
begin

text \<open>
  The ClickHouse writer (\<open>writer.rs\<close>): configuration, error classification, the insert request and
  the retry loop. The server behind the HTTP client is a parameter, a function from a request and a
  server state to an answer and a new state; a writer's world keeps that state, the requests with
  their answers, and the backoff sleeps. Durations are nanosecond counts. Log lines and the debugging
  dump of the body are left out; the metrics are in \<open>Writer_Metrics\<close>.

  The attempt counter is a number: it stays below \<open>max_attempts\<close>, a \<open>u32\<close>, so the
  increment in the source cannot overflow.
\<close>

section \<open>Definitions\<close>

datatype http_client_mode = PerCall | Pooled nat u64

fun http_mode_label :: "http_client_mode \<Rightarrow> string" where
  "http_mode_label PerCall = ''per_call''"
| "http_mode_label (Pooled _ _) = ''pooled''"

record writer_config =
  endpoint :: string
  user :: string
  password :: string
  request_timeout :: int
  max_attempts :: u32
  initial_backoff :: int
  serialization_format :: serialization_format
  http_client_mode :: http_client_mode

definition default_writer_config :: writer_config where
  "default_writer_config =
     \<lparr>endpoint = ''http://localhost:8123'', user = ''default'', password = [],
      request_timeout = 30000000000, max_attempts = 6, initial_backoff = 100000000,
      serialization_format = default_format, http_client_mode = PerCall\<rparr>"

record clickhouse_writer =
  wr_config :: writer_config
  wr_pooled_client :: "unit option"

definition writer_new :: "clickhouse_externs \<Rightarrow> writer_config \<Rightarrow> clickhouse_writer" where
  "writer_new x config =
     \<lparr>wr_config = config,
      wr_pooled_client =
        (case http_client_mode config of
           PerCall \<Rightarrow> None
         | Pooled max_idle idle_ms \<Rightarrow>
             (case cx_client x (request_timeout config) max_idle (Some idle_ms) of
                Inr c \<Rightarrow> Some c
              | Inl e \<Rightarrow> None))\<rparr>"

definition http_client :: "clickhouse_externs \<Rightarrow> clickhouse_writer \<Rightarrow> writer_error + unit" where
  "http_client x wr =
     (case wr_pooled_client wr of
        Some c \<Rightarrow> Inr c
      | None \<Rightarrow>
          (case cx_client x (request_timeout (wr_config wr)) 0 None of
             Inr c \<Rightarrow> Inr c
           | Inl e \<Rightarrow> Inl (WriterNonRetryable (''reqwest client: '' @ e))))"

record http_request =
  rq_url :: string
  rq_headers :: "(string \<times> string) list"
  rq_body :: bytes

record send_error =
  is_timeout :: bool
  is_connect :: bool
  is_status :: bool
  send_error_text :: string

datatype http_answer = SendFailed send_error | Responded u16 "string option"

type_synonym 's http_server = "http_request \<Rightarrow> 's \<Rightarrow> http_answer \<times> 's"

record 's http_world =
  hw_server :: 's
  hw_sent :: "(http_request \<times> http_answer) list"
  hw_slept :: "int list"

definition http_send :: "'s http_server \<Rightarrow> http_request \<Rightarrow> 's http_world \<Rightarrow> http_answer \<times> 's http_world" where
  "http_send srv rq w =
     (let (ans, s) = srv rq (hw_server w)
      in (ans, w\<lparr>hw_server := s, hw_sent := hw_sent w @ [(rq, ans)]\<rparr>))"

definition classify_reqwest :: "send_error \<Rightarrow> writer_error" where
  "classify_reqwest err =
     (if is_timeout err \<or> is_connect err then WriterRetryable (''network/timeout: '' @ send_error_text err)
      else if is_status err then WriterRetryable (''http status: '' @ send_error_text err)
      else WriterRetryable (''request error: '' @ send_error_text err))"

definition classify_status :: "u16 \<Rightarrow> string \<Rightarrow> writer_error" where
  "classify_status status resp_body =
     (if status = 429 \<or> (500 \<le> status \<and> status < 600)
      then WriterRetryable (''status '' @ show_word status @ '': '' @ resp_body)
      else WriterNonRetryable (''status '' @ show_word status @ '': '' @ resp_body))"

definition is_success :: "u16 \<Rightarrow> bool" where
  "is_success status = (200 \<le> status \<and> status < 300)"

definition unwrap_or_default :: "string option \<Rightarrow> string" where
  "unwrap_or_default t = (case t of Some s \<Rightarrow> s | None \<Rightarrow> [])"

definition render_insert_sql_clean :: "insert_chunk \<Rightarrow> serialization_format \<Rightarrow> string" where
  "render_insert_sql_clean chunk fmt =
     ''INSERT INTO '' @ database chunk @ ''.'' @ table_name chunk @ '' FORMAT '' @ format_keyword fmt"

definition trim_end_slashes :: "string \<Rightarrow> string" where
  "trim_end_slashes s = rev (dropWhile (\<lambda>c. c = CHR ''/'') (rev s))"

definition build_insert_url :: "clickhouse_externs \<Rightarrow> string \<Rightarrow> insert_chunk \<Rightarrow> int \<Rightarrow> string" where
  "build_insert_url x base_url chunk timeout =
     trim_end_slashes base_url @ ''/?async_insert=0'' @ ''&date_time_input_format=best_effort'' @
     (if apply_deduplication_token (settings chunk)
      then ''&insert_deduplication_token='' @ cx_urlencode x (insert_deduplication_token (settings chunk))
      else []) @
     (case insert_quorum (settings chunk) of
        Some q \<Rightarrow> ''&insert_quorum='' @ cx_urlencode x q
      | None \<Rightarrow> []) @
     (if timeout > 0 then ''&max_execution_time='' @ show_int (timeout div 1000000000) else [])"

definition auth_headers :: "writer_config \<Rightarrow> (string \<times> string) list" where
  "auth_headers config =
     (if user config \<noteq> [] then [(''X-ClickHouse-User'', user config)] else []) @
     (if password config \<noteq> [] then [(''X-ClickHouse-Key'', password config)] else [])"

definition insert_request ::
  "clickhouse_externs \<Rightarrow> writer_config \<Rightarrow> string \<Rightarrow> bytes \<Rightarrow> insert_chunk \<Rightarrow> http_request" where
  "insert_request x config sql_clean body_bytes chunk =
     (let combined = as_bytes sql_clean @ [10] @ body_bytes
      in \<lparr>rq_url = build_insert_url x (endpoint config) chunk (request_timeout config),
          rq_headers = (''content-length'', show_nat (length combined)) # auth_headers config,
          rq_body = combined\<rparr>)"

definition execute_once ::
  "clickhouse_externs \<Rightarrow> 's http_server \<Rightarrow> clickhouse_writer \<Rightarrow> string \<Rightarrow> bytes \<Rightarrow> insert_chunk \<Rightarrow>
   's http_world \<Rightarrow> (writer_error + unit) \<times> 's http_world" where
  "execute_once x srv wr sql_clean body_bytes chunk w =
     (case http_client x wr of
        Inl e \<Rightarrow> (Inl e, w)
      | Inr _ \<Rightarrow>
          (case http_send srv (insert_request x (wr_config wr) sql_clean body_bytes chunk) w of
             (SendFailed err, w') \<Rightarrow> (Inl (classify_reqwest err), w')
           | (Responded status resp, w') \<Rightarrow>
               if is_success status then (Inr (), w')
               else (Inl (classify_status status (unwrap_or_default resp)), w')))"

definition duration_max :: int where
  "duration_max = (2 ^ 64 - 1) * 1000000000 + 999999999"

definition double_backoff :: "int \<Rightarrow> int" where
  "double_backoff d = min (2 * d) duration_max"

definition budget_exhausted :: "u32 \<Rightarrow> writer_error \<Rightarrow> writer_error" where
  "budget_exhausted limit err =
     WriterRetryBudgetExhausted
       (''retry budget ('' @ show_word limit @ '') exhausted: '' @ display_writer_error err)"

function execute_loop ::
  "clickhouse_externs \<Rightarrow> 's http_server \<Rightarrow> clickhouse_writer \<Rightarrow> string \<Rightarrow> bytes \<Rightarrow> insert_chunk \<Rightarrow>
   nat \<Rightarrow> int \<Rightarrow> 's http_world \<Rightarrow> (writer_error + unit) \<times> 's http_world" where
  "execute_loop x srv wr sql_clean body_bytes chunk attempt backoff w =
     (case execute_once x srv wr sql_clean body_bytes chunk w of
        (Inr _, w') \<Rightarrow> (Inr (), w')
      | (Inl err, w') \<Rightarrow>
          (case error_class err of
             ClassRetryable \<Rightarrow>
               if attempt + 1 < unat (max_attempts (wr_config wr))
               then execute_loop x srv wr sql_clean body_bytes chunk (attempt + 1) (double_backoff backoff)
                      (w'\<lparr>hw_slept := hw_slept w' @ [backoff]\<rparr>)
               else (Inl (budget_exhausted (max_attempts (wr_config wr)) err), w')
           | ClassRetryBudgetExhausted \<Rightarrow> (Inl err, w')
           | ClassNonRetryable \<Rightarrow> (Inl err, w')))"
  by pat_completeness auto

termination execute_loop
  by (relation "measure (\<lambda>(_, _, wr, _, _, _, attempt, _, _). unat (max_attempts (wr_config wr)) - attempt)") auto

declare execute_loop.simps [simp del]

definition execute_chunk ::
  "clickhouse_externs \<Rightarrow> 's http_server \<Rightarrow> clickhouse_writer \<Rightarrow> insert_chunk \<Rightarrow>
   's http_world \<Rightarrow> (writer_error + unit) \<times> 's http_world" where
  "execute_chunk x srv wr chunk w =
     (let fmt = serialization_format (wr_config wr)
      in case serialize x fmt chunk of
           Inl e \<Rightarrow> (Inl e, w)
         | Inr body_bytes \<Rightarrow>
             execute_loop x srv wr (render_insert_sql_clean chunk fmt) body_bytes chunk 0
               (initial_backoff (wr_config wr)) w)"

fun execute_all ::
  "clickhouse_externs \<Rightarrow> 's http_server \<Rightarrow> clickhouse_writer \<Rightarrow> insert_chunk list \<Rightarrow>
   's http_world \<Rightarrow> (writer_error + unit) \<times> 's http_world" where
  "execute_all x srv wr [] w = (Inr (), w)"
| "execute_all x srv wr (chunk # chunks) w =
     (case execute_chunk x srv wr chunk w of
        (Inl e, w') \<Rightarrow> (Inl e, w')
      | (Inr _, w') \<Rightarrow> execute_all x srv wr chunks w')"

definition statement_request :: "writer_config \<Rightarrow> string \<Rightarrow> http_request" where
  "statement_request config sql =
     \<lparr>rq_url = trim_end_slashes (endpoint config),
      rq_headers = (''content-length'', show_nat (length (as_bytes sql))) # auth_headers config,
      rq_body = as_bytes sql\<rparr>"

definition execute_statement ::
  "clickhouse_externs \<Rightarrow> 's http_server \<Rightarrow> clickhouse_writer \<Rightarrow> string \<Rightarrow>
   's http_world \<Rightarrow> (writer_error + string) \<times> 's http_world" where
  "execute_statement x srv wr sql w =
     (case http_client x wr of
        Inl e \<Rightarrow> (Inl e, w)
      | Inr _ \<Rightarrow>
          (case http_send srv (statement_request (wr_config wr) sql) w of
             (SendFailed err, w') \<Rightarrow> (Inl (classify_reqwest err), w')
           | (Responded status resp, w') \<Rightarrow>
               if is_success status then (Inr (unwrap_or_default resp), w')
               else (Inl (classify_status status (unwrap_or_default resp)), w')))"

section \<open>One attempt\<close>

text \<open>What an answer means to the writer.\<close>

definition acknowledged :: "http_answer \<Rightarrow> bool" where
  "acknowledged ans = (case ans of Responded status _ \<Rightarrow> is_success status | SendFailed _ \<Rightarrow> False)"

definition transient :: "http_answer \<Rightarrow> bool" where
  "transient ans =
     (case ans of
        Responded status _ \<Rightarrow> \<not> is_success status \<and> (status = 429 \<or> 500 \<le> status \<and> status < 600)
      | SendFailed _ \<Rightarrow> True)"

lemma class_classify_reqwest [simp]: "error_class (classify_reqwest e) = ClassRetryable"
  by (simp add: classify_reqwest_def)

lemma class_classify_status:
  "error_class (classify_status st b) =
     (if st = 429 \<or> 500 \<le> st \<and> st < 600 then ClassRetryable else ClassNonRetryable)"
  by (simp add: classify_status_def)

lemma http_client_error: "http_client x wr = Inl e \<Longrightarrow> error_class e = ClassNonRetryable"
  by (auto simp: http_client_def split: option.splits sum.splits)

lemma execute_once_cases:
  assumes "execute_once x srv wr sql b chunk w = (r, w')"
  shows "(\<exists>e. http_client x wr = Inl e \<and> r = Inl e \<and> error_class e = ClassNonRetryable \<and> w' = w) \<or>
    (\<exists>ans s. w' = w\<lparr>hw_server := s, hw_sent := hw_sent w @ [(insert_request x (wr_config wr) sql b chunk, ans)]\<rparr> \<and>
       (if acknowledged ans then r = Inr ()
        else \<exists>e. r = Inl e \<and> error_class e = (if transient ans then ClassRetryable else ClassNonRetryable)))"
proof (cases "http_client x wr")
  case (Inl e)
  then show ?thesis using assms http_client_error [OF Inl] by (auto simp: execute_once_def)
next
  case (Inr u)
  obtain ans s where srv: "srv (insert_request x (wr_config wr) sql b chunk) (hw_server w) = (ans, s)"
    by fastforce
  show ?thesis
    using assms Inr srv
    by (intro disjI2 exI [of _ ans] exI [of _ s])
      (auto simp: execute_once_def http_send_def acknowledged_def transient_def class_classify_status
        split: http_answer.splits if_splits)
qed

section \<open>The retry loop\<close>

fun backoffs :: "int \<Rightarrow> nat \<Rightarrow> int list" where
  "backoffs d 0 = []"
| "backoffs d (Suc n) = d # backoffs (double_backoff d) n"

lemma backoffs_closed:
  assumes "0 \<le> d" "d \<le> duration_max"
  shows "backoffs d n = map (\<lambda>i. min (d * 2 ^ i) duration_max) [0..<n]"
  using assms
proof (induction n arbitrary: d)
  case (Suc n)
  have cap: "0 \<le> double_backoff d" "double_backoff d \<le> duration_max"
    using Suc.prems by (simp_all add: double_backoff_def duration_max_def)
  have step: "min (double_backoff d * 2 ^ i) duration_max = min (d * 2 ^ Suc i) duration_max" for i
  proof (cases "2 * d \<le> duration_max")
    case False
    have "duration_max * 1 \<le> duration_max * 2 ^ i" "2 * d * 1 \<le> 2 * d * 2 ^ i"
      using Suc.prems by (intro mult_left_mono; simp add: duration_max_def)+
    then show ?thesis using False by (simp add: double_backoff_def min_def mult.commute mult.left_commute)
  qed (simp add: double_backoff_def min_def mult.commute mult.left_commute)
  have "map (\<lambda>i. min (d * 2 ^ i) duration_max) [0..<Suc n] =
      d # map (\<lambda>i. min (d * 2 ^ Suc i) duration_max) [0..<n]"
    using Suc.prems by (simp add: upt_conv_Cons map_Suc_upt [symmetric] del: upt_Suc map_Suc_upt)
  then show ?case
    using Suc.IH [OF cap] by (simp add: step del: upt_Suc power_Suc)
qed simp

text \<open>What one run of the loop, started after \<open>k\<close> attempts, leaves behind.\<close>

definition loop_result ::
  "nat \<Rightarrow> nat \<Rightarrow> writer_error + unit \<Rightarrow> http_answer list \<Rightarrow> bool" where
  "loop_result k limit r answers =
     (k + length answers \<le> max (Suc k) limit \<and> list_all transient (butlast answers) \<and>
      (is_ok r \<longleftrightarrow> answers \<noteq> [] \<and> acknowledged (last answers)) \<and>
      (\<forall>e. r = Inl e \<longrightarrow> error_class e \<noteq> ClassRetryable \<and>
         (error_class e = ClassRetryBudgetExhausted \<longleftrightarrow> answers \<noteq> [] \<and> transient (last answers)) \<and>
         (error_class e = ClassRetryBudgetExhausted \<longrightarrow> k + length answers = max (Suc k) limit)))"

lemma transient_not_acknowledged: "transient a \<Longrightarrow> \<not> acknowledged a"
  by (cases a) (simp_all add: transient_def acknowledged_def)

lemma loop_result_Cons:
  assumes "loop_result (Suc k) limit r answers" "answers \<noteq> []" "transient ans" "Suc k < limit"
  shows "loop_result k limit r (ans # answers)"
  using assms by (auto simp: loop_result_def max_def)

text \<open>One answer: the attempt's result, by the kind of answer.\<close>

definition answered :: "writer_error + unit \<Rightarrow> http_answer \<Rightarrow> bool" where
  "answered r ans \<longleftrightarrow>
     (if acknowledged ans then r = Inr ()
      else \<exists>e. r = Inl e \<and> error_class e = (if transient ans then ClassRetryable else ClassNonRetryable))"

lemma execute_loop_again:
  assumes "execute_loop x srv wr sql b chunk k d w = (r, w')"
    and "execute_once x srv wr sql b chunk w = (r1, w1)" "answered r1 ans"
    and "transient ans" "k + 1 < unat (max_attempts (wr_config wr))"
  shows "\<exists>e. r1 = Inl e \<and> error_class e = ClassRetryable \<and>
    execute_loop x srv wr sql b chunk (k + 1) (double_backoff d) (w1\<lparr>hw_slept := hw_slept w1 @ [d]\<rparr>) = (r, w')"
  using assms transient_not_acknowledged [of ans]
  by (auto simp: answered_def execute_loop.simps [of x srv wr sql b chunk k d w])

lemma execute_loop_last:
  assumes "execute_loop x srv wr sql b chunk k d w = (r, w')"
    and "execute_once x srv wr sql b chunk w = (r1, w1)" "answered r1 ans"
    and stop: "\<not> (transient ans \<and> k + 1 < unat (max_attempts (wr_config wr)))"
  shows "w' = w1 \<and> loop_result k (unat (max_attempts (wr_config wr))) r [ans]"
proof -
  note loop = assms(1) [unfolded execute_loop.simps [of x srv wr sql b chunk k d w] assms(2) prod.case]
  consider "acknowledged ans" "r1 = Inr ()"
    | e where "\<not> acknowledged ans" "transient ans" "r1 = Inl e" "error_class e = ClassRetryable"
    | e where "\<not> acknowledged ans" "\<not> transient ans" "r1 = Inl e" "error_class e = ClassNonRetryable"
    using assms(3) by (auto simp: answered_def split: if_splits)
  then show ?thesis
  proof cases
    case 1
    then have "r = Inr ()" "w' = w1" using loop by simp_all
    then show ?thesis using 1 by (simp add: loop_result_def)
  next
    case (2 e)
    then have "r = Inl (budget_exhausted (max_attempts (wr_config wr)) e)" "w' = w1"
      using loop stop by simp_all
    then show ?thesis using 2 stop by (auto simp: loop_result_def budget_exhausted_def)
  next
    case (3 e)
    then have "r = Inl e" "w' = w1" using loop by auto
    then show ?thesis using 3 by (auto simp: loop_result_def)
  qed
qed

lemma execute_loop_trace:
  assumes "execute_loop x srv wr sql b chunk k d w = (r, w')"
  shows "\<exists>answers. hw_sent w' = hw_sent w @ map (Pair (insert_request x (wr_config wr) sql b chunk)) answers \<and>
    hw_slept w' = hw_slept w @ backoffs d (length answers - 1) \<and>
    (is_ok (http_client x wr) \<longrightarrow> answers \<noteq> []) \<and>
    loop_result k (unat (max_attempts (wr_config wr))) r answers"
  using assms
proof (induction x srv wr sql b chunk k d w rule: execute_loop.induct)
  case (1 x srv wr sql b chunk k d w)
  let ?rq = "insert_request x (wr_config wr) sql b chunk" and ?m = "unat (max_attempts (wr_config wr))"
  obtain r1 w1 where once: "execute_once x srv wr sql b chunk w = (r1, w1)" by fastforce
  from execute_once_cases [OF once, folded answered_def] consider
      (client) e where "http_client x wr = Inl e" "r1 = Inl e" "error_class e = ClassNonRetryable" "w1 = w"
    | (sent) ans s where "w1 = w\<lparr>hw_server := s, hw_sent := hw_sent w @ [(?rq, ans)]\<rparr>" "answered r1 ans"
    by blast
  then show ?case
  proof cases
    case client
    have "\<not> is_ok (http_client x wr)" using client(1) by simp
    moreover have "r = Inl e" "w' = w"
      using client 1(2) by (auto simp: execute_loop.simps [of x srv wr sql b chunk k d w] once)
    ultimately show ?thesis using client(3) by (intro exI [of _ "[]"]) (simp add: loop_result_def)
  next
    case sent
    show ?thesis
    proof (cases "transient ans \<and> k + 1 < ?m")
      case True
      let ?w = "w1\<lparr>hw_slept := hw_slept w1 @ [d]\<rparr>"
      obtain e where e: "r1 = Inl e" "error_class e = ClassRetryable"
        and rec: "execute_loop x srv wr sql b chunk (k + 1) (double_backoff d) ?w = (r, w')"
        using execute_loop_again [OF 1(2) once sent(2)] True by blast
      obtain answers where a: "hw_sent w' = hw_sent ?w @ map (Pair ?rq) answers"
          "hw_slept w' = hw_slept ?w @ backoffs (double_backoff d) (length answers - 1)"
          "is_ok (http_client x wr) \<longrightarrow> answers \<noteq> []" "loop_result (k + 1) ?m r answers"
        using 1(1) [OF once [symmetric] e(1) e(2) _ rec] True by blast
      have "hw_sent w1 \<noteq> hw_sent w" using sent(1) by simp
      then have "is_ok (http_client x wr)"
        using once by (cases "http_client x wr") (auto simp: execute_once_def)
      then obtain v vs where n: "answers = v # vs" using a(3) by (cases answers) auto
      show ?thesis
        using a(1,2) sent(1) loop_result_Cons [of k ?m r answers ans] a(4) True
        by (intro exI [of _ "ans # answers"]) (simp add: n)
    next
      case False
      then show ?thesis
        using execute_loop_last [OF 1(2) once sent(2)] sent(1) by (intro exI [of _ "[ans]"]) simp
    qed
  qed
qed

definition chunk_request :: "clickhouse_externs \<Rightarrow> clickhouse_writer \<Rightarrow> insert_chunk \<Rightarrow> http_request" where
  "chunk_request x wr chunk =
     insert_request x (wr_config wr) (render_insert_sql_clean chunk (serialization_format (wr_config wr)))
       (projr (serialize x (serialization_format (wr_config wr)) chunk)) chunk"

lemma execute_chunk_trace:
  assumes "execute_chunk x srv wr chunk w = (r, w')"
  shows "\<exists>answers. hw_sent w' = hw_sent w @ map (Pair (chunk_request x wr chunk)) answers \<and>
    hw_slept w' = hw_slept w @ backoffs (initial_backoff (wr_config wr)) (length answers - 1) \<and>
    loop_result 0 (unat (max_attempts (wr_config wr))) r answers"
proof (cases "serialize x (serialization_format (wr_config wr)) chunk")
  case (Inl e)
  have "error_class e = ClassNonRetryable"
  proof (cases "serialization_format (wr_config wr)")
    case JsonEachRow
    have "json_lines x cols out rows = Inl e \<Longrightarrow> error_class e = ClassNonRetryable" for cols out rows
      by (induction x cols out rows rule: json_lines.induct)
        (auto simp: row_width_error_def split: if_splits sum.splits)
    then show ?thesis using Inl JsonEachRow by (simp add: serialize_json_each_row_def)
  next
    case RowBinary
    have "write_types x out cs = Inl e \<Longrightarrow> error_class e = ClassNonRetryable" for out cs
      by (induction x out cs rule: write_types.induct)
        (auto simp: clickhouse_type_for_column_def split: sum.splits option.splits)
    moreover have "write_rows n out rows = Inl e \<Longrightarrow> error_class e = ClassNonRetryable" for n out rows
      by (induction n out rows rule: write_rows.induct) (auto simp: row_width_error_def split: if_splits)
    ultimately show ?thesis
      using Inl RowBinary by (auto simp: serialize_row_binary_def Let_def split: sum.splits)
  qed
  then show ?thesis
    using assms Inl by (intro exI [of _ "[]"]) (auto simp: execute_chunk_def loop_result_def)
next
  case (Inr body)
  then have "execute_loop x srv wr (render_insert_sql_clean chunk (serialization_format (wr_config wr))) body
      chunk 0 (initial_backoff (wr_config wr)) w = (r, w')"
    using assms by (simp add: execute_chunk_def Let_def)
  from execute_loop_trace [OF this] show ?thesis
    by (auto simp: chunk_request_def Inr)
qed

text \<open>
  C31. Writing a chunk always returns, whatever the server does: it sends the same request (same body,
  same deduplication token) at most \<open>max_attempts\<close> times, at least once allowed; it sends again
  only after a transient answer (transport failure, 429 or 5xx); it succeeds precisely if the last
  answer was a 2xx; it reports an exhausted budget precisely if the last answer was transient, and then
  the whole budget was used; its errors are never of the retryable class; and between the attempts it
  sleeps the initial backoff, doubled each time up to the longest duration.
\<close>

theorem execute_chunk_protocol:
  assumes "0 \<le> initial_backoff (wr_config wr)" "initial_backoff (wr_config wr) \<le> duration_max"
  shows "case execute_chunk x srv wr chunk w of (r, w') \<Rightarrow>
    \<exists>answers. hw_sent w' = hw_sent w @ map (Pair (chunk_request x wr chunk)) answers \<and>
      length answers \<le> max 1 (unat (max_attempts (wr_config wr))) \<and>
      list_all transient (butlast answers) \<and>
      (is_ok r \<longleftrightarrow> answers \<noteq> [] \<and> acknowledged (last answers)) \<and>
      (\<forall>e. r = Inl e \<longrightarrow> error_class e \<noteq> ClassRetryable \<and>
         (error_class e = ClassRetryBudgetExhausted \<longleftrightarrow> answers \<noteq> [] \<and> transient (last answers)) \<and>
         (error_class e = ClassRetryBudgetExhausted \<longrightarrow>
            length answers = max 1 (unat (max_attempts (wr_config wr))))) \<and>
      hw_slept w' = hw_slept w @
        map (\<lambda>i. min (initial_backoff (wr_config wr) * 2 ^ i) duration_max) [0..<length answers - 1]"
proof -
  obtain r w' where run: "execute_chunk x srv wr chunk w = (r, w')" by fastforce
  obtain answers where "hw_sent w' = hw_sent w @ map (Pair (chunk_request x wr chunk)) answers"
    "hw_slept w' = hw_slept w @ backoffs (initial_backoff (wr_config wr)) (length answers - 1)"
    "loop_result 0 (unat (max_attempts (wr_config wr))) r answers"
    using execute_chunk_trace [OF run] by blast
  then show ?thesis
    unfolding run prod.case
    by (intro exI [of _ answers]) (simp add: loop_result_def backoffs_closed [OF assms])
qed

definition example_server :: "nat http_server" where
  "example_server rq s = (if s < 2 then (Responded 503 None, s + 1) else (Responded 200 None, s + 1))"

definition example_clickhouse_externs :: clickhouse_externs where
  "example_clickhouse_externs =
     \<lparr>cx_json = (\<lambda>j. Inr [123, 125]), cx_debug = (\<lambda>s. s), cx_urlencode = (\<lambda>s. s), cx_sha256 = (\<lambda>b. b),
      cx_hex = (\<lambda>b. ''00''), cx_client = (\<lambda>t n i. Inr ())\<rparr>"

abbreviation example_writer :: clickhouse_writer where
  "example_writer \<equiv> writer_new example_clickhouse_externs default_writer_config"

definition example_world :: "nat http_world" where
  "example_world = \<lparr>hw_server = 0, hw_sent = [], hw_slept = []\<rparr>"

theorem execute_chunk_protocol_witness:
  "case execute_chunk example_clickhouse_externs example_server example_writer example_chunk example_world of
     (r, w') \<Rightarrow> r = Inr () \<and> map snd (hw_sent w') = [Responded 503 None, Responded 503 None, Responded 200 None] \<and>
       hw_slept w' = [100000000, 200000000]"
proof -
  have sent: "map snd (hw_sent (snd (execute_chunk example_clickhouse_externs example_server example_writer
      example_chunk example_world))) = [Responded 503 None, Responded 503 None, Responded 200 None]"
    by code_simp
  have cfg: "initial_backoff (wr_config example_writer) = 100000000"
    by (simp add: writer_new_def default_writer_config_def)
  obtain r w' where run: "execute_chunk example_clickhouse_externs example_server example_writer
      example_chunk example_world = (r, w')" by fastforce
  have ok: "acknowledged (Responded 200 None)" by (simp add: acknowledged_def is_success_def)
  have bounds: "0 \<le> initial_backoff (wr_config example_writer)"
    "initial_backoff (wr_config example_writer) \<le> duration_max"
    by (simp_all add: cfg duration_max_def)
  note protocol = execute_chunk_protocol [OF bounds, where x = example_clickhouse_externs and
      srv = example_server and chunk = example_chunk and w = example_world, unfolded run prod.case cfg]
  obtain answers where a: "hw_sent w' = hw_sent example_world @
      map (Pair (chunk_request example_clickhouse_externs example_writer example_chunk)) answers"
    "is_ok r \<longleftrightarrow> answers \<noteq> [] \<and> acknowledged (last answers)"
    "hw_slept w' = hw_slept example_world @ map (\<lambda>i. min (100000000 * 2 ^ i) duration_max) [0..<length answers - 1]"
    using protocol by blast
  have start: "hw_sent example_world = []" "hw_slept example_world = []"
    by (simp_all add: example_world_def)
  have answers: "answers = [Responded 503 None, Responded 503 None, Responded 200 None]"
    using sent by (simp add: run a(1) start comp_def)
  then have "is_ok r" using a(2) ok by simp
  then have "r = Inr ()" by (auto simp: is_ok_iff)
  moreover have "hw_slept w' = [100000000, 200000000]"
    by (simp add: a(3) answers start duration_max_def upt_rec)
  ultimately show ?thesis using sent by (simp add: run)
qed

section \<open>All chunks of a plan\<close>

definition chunk_acknowledged :: "clickhouse_externs \<Rightarrow> clickhouse_writer \<Rightarrow> 's http_world \<Rightarrow> insert_chunk \<Rightarrow> bool" where
  "chunk_acknowledged x wr w chunk \<longleftrightarrow>
     is_ok (serialize x (serialization_format (wr_config wr)) chunk) \<and>
     (\<exists>ans. (chunk_request x wr chunk, ans) \<in> set (hw_sent w) \<and> acknowledged ans)"

lemma execute_chunk_keeps:
  "set (hw_sent w) \<subseteq> set (hw_sent (snd (execute_chunk x srv wr chunk w)))"
proof -
  obtain r w' where run: "execute_chunk x srv wr chunk w = (r, w')" by fastforce
  then show ?thesis using execute_chunk_trace [OF run] by auto
qed

lemma execute_chunk_acknowledged:
  assumes "execute_chunk x srv wr chunk w = (Inr (), w')"
  shows "chunk_acknowledged x wr w' chunk"
proof -
  obtain answers where "hw_sent w' = hw_sent w @ map (Pair (chunk_request x wr chunk)) answers"
    "answers \<noteq> []" "acknowledged (last answers)"
    using execute_chunk_trace [OF assms] by (auto simp: loop_result_def)
  moreover have "is_ok (serialize x (serialization_format (wr_config wr)) chunk)"
    using assms by (auto simp: execute_chunk_def Let_def is_ok_iff split: sum.splits)
  ultimately show ?thesis
    by (auto simp: chunk_acknowledged_def intro!: exI [of _ "last answers"])
qed

lemma chunk_acknowledged_mono:
  "chunk_acknowledged x wr w c \<Longrightarrow> set (hw_sent w) \<subseteq> set (hw_sent w') \<Longrightarrow> chunk_acknowledged x wr w' c"
  by (auto simp: chunk_acknowledged_def)

lemma execute_all_Cons:
  assumes "execute_chunk x srv wr chunk w = (r, w1)"
  shows "execute_all x srv wr (chunk # chunks) w =
    (case r of Inl e \<Rightarrow> (Inl e, w1) | Inr _ \<Rightarrow> execute_all x srv wr chunks w1)"
  using assms by (cases r) simp_all

lemma execute_all_keeps: "set (hw_sent w) \<subseteq> set (hw_sent (snd (execute_all x srv wr chunks w)))"
proof (induction chunks arbitrary: w)
  case (Cons chunk chunks)
  obtain r w1 where one: "execute_chunk x srv wr chunk w = (r, w1)" by fastforce
  have "set (hw_sent w) \<subseteq> set (hw_sent w1)"
    using execute_chunk_keeps [of w x srv wr chunk] by (simp add: one)
  then show ?case
    using Cons [of w1] unfolding execute_all_Cons [OF one] by (cases r) auto
qed simp

lemma execute_all_acknowledged:
  "execute_all x srv wr chunks w = (Inr (), w') \<Longrightarrow> \<forall>c\<in>set chunks. chunk_acknowledged x wr w' c"
proof (induction chunks arbitrary: w)
  case (Cons chunk chunks)
  obtain r w1 where one: "execute_chunk x srv wr chunk w = (r, w1)" by fastforce
  have ok: "r = Inr ()" and rest: "execute_all x srv wr chunks w1 = (Inr (), w')"
    using Cons.prems unfolding execute_all_Cons [OF one] by (cases r; simp)+
  have "chunk_acknowledged x wr w' chunk"
    using chunk_acknowledged_mono [OF execute_chunk_acknowledged [OF one [unfolded ok]]]
      execute_all_keeps [of w1 x srv wr chunks] by (simp add: rest)
  then show ?case using Cons.IH [OF rest] by simp
qed simp

lemma execute_all_error_class:
  "execute_all x srv wr chunks w = (Inl e, w') \<Longrightarrow> error_class e \<noteq> ClassRetryable"
proof (induction chunks arbitrary: w)
  case (Cons chunk chunks)
  obtain r w1 where one: "execute_chunk x srv wr chunk w = (r, w1)" by fastforce
  obtain answers where res: "loop_result 0 (unat (max_attempts (wr_config wr))) r answers"
    using execute_chunk_trace [OF one] by blast
  show ?case
  proof (cases r)
    case (Inl e')
    then show ?thesis
      using Cons.prems res unfolding execute_all_Cons [OF one] by (simp add: loop_result_def)
  next
    case (Inr u)
    then show ?thesis using Cons unfolding execute_all_Cons [OF one] by simp
  qed
qed simp

end
