(* ===== verification/Ingestor_Config.thy ===== *)
theory Ingestor_Config
  imports Runtime_Options Logs_Adapter Clickhouse_Writer "HOL-Library.Monad_Syntax"
begin

text \<open>
  The configuration of the ingestor binary (\<open>config.rs\<close>, \<open>error.rs\<close>): the sections, their
  serde defaults, and the translations to the options of the runtime, the writer and the adapter.

  The merged document (YAML file and environment) that figment hands to serde is a parameter, as is
  the text of its errors. The \<open>raw\<close> records hold what a document provides, every field optional;
  \<open>deserialize\<close> is what the derived deserialisers make of it: a field with a serde default takes
  it when absent, any other absent field is an error. The object store configuration belongs to
  another crate and is the type \<open>'o\<close>.
\<close>

section \<open>Definitions\<close>

record metrics_server_section =
  ms_bind_addr :: string

definition default_metrics_bind_addr :: string where
  "default_metrics_bind_addr = ''0.0.0.0:9090''"

definition default_metrics_server_section :: metrics_server_section where
  "default_metrics_server_section = \<lparr>ms_bind_addr = default_metrics_bind_addr\<rparr>"

record 'o buffer_section =
  bs_manifest_path :: string
  bs_data_prefix :: string
  bs_object_store :: 'o

record clickhouse_section =
  chs_endpoint :: string
  chs_database :: string
  chs_table :: string
  chs_insert_quorum :: "string option"
  chs_user :: string
  chs_password :: string

definition default_user :: string where
  "default_user = ''default''"

record runtime_section =
  rts_dry_run :: bool
  rts_poll_interval_ms :: u64
  rts_retry_max_attempts :: u32
  rts_retry_initial_backoff_ms :: u64
  rts_request_timeout_secs :: u64
  rts_max_inflight_batches :: u32
  rts_max_inflight_bytes :: u64
  rts_estimated_max_batch_bytes :: u64
  rts_fetch_concurrency :: u32
  rts_decode_concurrency :: u32
  rts_oversize_fault_multiplier :: u32
  rts_max_descriptors_per_poll :: nat

definition default_runtime_section :: runtime_section where
  "default_runtime_section =
     \<lparr>rts_dry_run = True, rts_poll_interval_ms = 250, rts_retry_max_attempts = 6,
      rts_retry_initial_backoff_ms = 100, rts_request_timeout_secs = 30,
      rts_max_inflight_batches = 64, rts_max_inflight_bytes = 256 * 1024 * 1024,
      rts_estimated_max_batch_bytes = 4 * 1024 * 1024, rts_fetch_concurrency = 8,
      rts_decode_concurrency = 4, rts_oversize_fault_multiplier = 4, rts_max_descriptors_per_poll = 8\<rparr>"

record sink_section =
  ss_max_concurrent_commits :: u32
  ss_serialization_format :: serialization_format
  ss_http_client_mode :: http_client_mode

definition default_sink_section :: sink_section where
  "default_sink_section =
     \<lparr>ss_max_concurrent_commits = 4, ss_serialization_format = default_format,
      ss_http_client_mode = PerCall\<rparr>"

datatype ack_policy_kind = PolicyEveryCommitGroup | PolicyEveryN

record ack_section =
  as_policy :: ack_policy_kind
  as_n :: "u32 option"

definition default_ack_section :: ack_section where
  "default_ack_section = \<lparr>as_policy = PolicyEveryCommitGroup, as_n = None\<rparr>"

record adapter_section =
  ads_adapter_version :: u32
  ads_max_chunk_rows :: nat
  ads_max_chunk_bytes :: nat
  ads_apply_deduplication_token :: bool

definition default_adapter_section :: adapter_section where
  "default_adapter_section =
     \<lparr>ads_adapter_version = 1, ads_max_chunk_rows = 100000, ads_max_chunk_bytes = 32 * 1024 * 1024,
      ads_apply_deduplication_token = True\<rparr>"

record 'o ingestor_config =
  ic_buffer :: "'o buffer_section"
  ic_clickhouse :: clickhouse_section
  ic_runtime :: runtime_section
  ic_ack :: ack_section
  ic_adapter :: adapter_section
  ic_sink :: sink_section
  ic_metrics_server :: metrics_server_section

text \<open>What a document provides.\<close>

record 'o raw_buffer =
  rb_manifest_path :: "string option"
  rb_data_prefix :: "string option"
  rb_object_store :: "'o option"

record raw_clickhouse =
  rc_endpoint :: "string option"
  rc_database :: "string option"
  rc_table :: "string option"
  rc_insert_quorum :: "string option"
  rc_user :: "string option"
  rc_password :: "string option"

record raw_runtime =
  rr_dry_run :: "bool option"
  rr_poll_interval_ms :: "u64 option"
  rr_retry_max_attempts :: "u32 option"
  rr_retry_initial_backoff_ms :: "u64 option"
  rr_request_timeout_secs :: "u64 option"
  rr_max_inflight_batches :: "u32 option"
  rr_max_inflight_bytes :: "u64 option"
  rr_estimated_max_batch_bytes :: "u64 option"
  rr_fetch_concurrency :: "u32 option"
  rr_decode_concurrency :: "u32 option"
  rr_oversize_fault_multiplier :: "u32 option"
  rr_max_descriptors_per_poll :: "nat option"

record raw_sink =
  rk_max_concurrent_commits :: "u32 option"
  rk_serialization_format :: "serialization_format option"
  rk_http_client_mode :: "http_client_mode option"

record raw_ack =
  ra_policy :: "ack_policy_kind option"
  ra_n :: "u32 option"

record raw_adapter =
  rd_adapter_version :: "u32 option"
  rd_max_chunk_rows :: "nat option"
  rd_max_chunk_bytes :: "nat option"
  rd_apply_deduplication_token :: "bool option"

record 'o raw_config =
  raw_buffer :: "'o raw_buffer option"
  raw_clickhouse :: "raw_clickhouse option"
  raw_runtime :: "raw_runtime option"
  raw_ack :: "raw_ack option"
  raw_adapter :: "raw_adapter option"
  raw_sink :: "raw_sink option"
  raw_bind_addr :: "string option option"

definition or_default :: "'a \<Rightarrow> 'a option \<Rightarrow> 'a" where
  "or_default d v = (case v of Some x \<Rightarrow> x | None \<Rightarrow> d)"

definition deserialize_buffer :: "'o raw_buffer \<Rightarrow> 'o buffer_section option" where
  "deserialize_buffer r =
     do {
       path \<leftarrow> rb_manifest_path r;
       pre \<leftarrow> rb_data_prefix r;
       store \<leftarrow> rb_object_store r;
       Some \<lparr>bs_manifest_path = path, bs_data_prefix = pre, bs_object_store = store\<rparr>
     }"

definition deserialize_clickhouse :: "raw_clickhouse \<Rightarrow> clickhouse_section option" where
  "deserialize_clickhouse r =
     do {
       url \<leftarrow> rc_endpoint r;
       db \<leftarrow> rc_database r;
       tbl \<leftarrow> rc_table r;
       Some \<lparr>chs_endpoint = url, chs_database = db, chs_table = tbl,
             chs_insert_quorum = rc_insert_quorum r, chs_user = or_default default_user (rc_user r),
             chs_password = or_default [] (rc_password r)\<rparr>
     }"

definition deserialize_runtime :: "raw_runtime \<Rightarrow> runtime_section" where
  "deserialize_runtime r =
     (let d = default_runtime_section in
      \<lparr>rts_dry_run = or_default (rts_dry_run d) (rr_dry_run r),
       rts_poll_interval_ms = or_default (rts_poll_interval_ms d) (rr_poll_interval_ms r),
       rts_retry_max_attempts = or_default (rts_retry_max_attempts d) (rr_retry_max_attempts r),
       rts_retry_initial_backoff_ms =
         or_default (rts_retry_initial_backoff_ms d) (rr_retry_initial_backoff_ms r),
       rts_request_timeout_secs = or_default (rts_request_timeout_secs d) (rr_request_timeout_secs r),
       rts_max_inflight_batches = or_default (rts_max_inflight_batches d) (rr_max_inflight_batches r),
       rts_max_inflight_bytes = or_default (rts_max_inflight_bytes d) (rr_max_inflight_bytes r),
       rts_estimated_max_batch_bytes =
         or_default (rts_estimated_max_batch_bytes d) (rr_estimated_max_batch_bytes r),
       rts_fetch_concurrency = or_default (rts_fetch_concurrency d) (rr_fetch_concurrency r),
       rts_decode_concurrency = or_default (rts_decode_concurrency d) (rr_decode_concurrency r),
       rts_oversize_fault_multiplier =
         or_default (rts_oversize_fault_multiplier d) (rr_oversize_fault_multiplier r),
       rts_max_descriptors_per_poll =
         or_default (rts_max_descriptors_per_poll d) (rr_max_descriptors_per_poll r)\<rparr>)"

definition deserialize_sink :: "raw_sink \<Rightarrow> sink_section" where
  "deserialize_sink r =
     \<lparr>ss_max_concurrent_commits =
        or_default (ss_max_concurrent_commits default_sink_section) (rk_max_concurrent_commits r),
      ss_serialization_format = or_default default_format (rk_serialization_format r),
      ss_http_client_mode = or_default PerCall (rk_http_client_mode r)\<rparr>"

definition deserialize_ack :: "raw_ack \<Rightarrow> ack_section option" where
  "deserialize_ack r = do { policy \<leftarrow> ra_policy r; Some \<lparr>as_policy = policy, as_n = ra_n r\<rparr> }"

definition deserialize_adapter :: "raw_adapter \<Rightarrow> adapter_section option" where
  "deserialize_adapter r =
     do {
       ver \<leftarrow> rd_adapter_version r;
       max_rows \<leftarrow> rd_max_chunk_rows r;
       max_bytes \<leftarrow> rd_max_chunk_bytes r;
       Some \<lparr>ads_adapter_version = ver, ads_max_chunk_rows = max_rows, ads_max_chunk_bytes = max_bytes,
             ads_apply_deduplication_token =
               or_default default_apply_dedup_token (rd_apply_deduplication_token r)\<rparr>
     }"

definition deserialize :: "'o raw_config \<Rightarrow> 'o ingestor_config option" where
  "deserialize r =
     do {
       b \<leftarrow> raw_buffer r \<bind> deserialize_buffer;
       ch \<leftarrow> raw_clickhouse r \<bind> deserialize_clickhouse;
       rt \<leftarrow> map_option deserialize_runtime (raw_runtime r);
       a \<leftarrow> raw_ack r \<bind> deserialize_ack;
       ad \<leftarrow> raw_adapter r \<bind> deserialize_adapter;
       Some \<lparr>ic_buffer = b, ic_clickhouse = ch, ic_runtime = rt, ic_ack = a, ic_adapter = ad,
             ic_sink = or_default default_sink_section (map_option deserialize_sink (raw_sink r)),
             ic_metrics_server =
               or_default default_metrics_server_section
                 (map_option (\<lambda>addr. \<lparr>ms_bind_addr = or_default default_metrics_bind_addr addr\<rparr>)
                   (raw_bind_addr r))\<rparr>
     }"

datatype ingestor_error =
    ErrEnvelope envelope_error | ErrSignalDecode string | ErrAdapter string | ErrWriter writer_error
  | ErrIngestorConfig string | ErrIo string | ErrOther string

definition display_ingestor_error :: "ingestor_error \<Rightarrow> string" where
  "display_ingestor_error e =
     (case e of
        ErrEnvelope err \<Rightarrow> ''metadata envelope: '' @ display_envelope_error err
      | ErrSignalDecode m \<Rightarrow> ''signal decoder: '' @ m
      | ErrAdapter m \<Rightarrow> ''adapter: '' @ m
      | ErrWriter err \<Rightarrow> ''clickhouse writer: '' @ display_writer_error err
      | ErrIngestorConfig m \<Rightarrow> ''config: '' @ m
      | ErrIo m \<Rightarrow> ''io: '' @ m
      | ErrOther m \<Rightarrow> m)"

definition load ::
  "(string \<Rightarrow> string + 'o raw_config) \<Rightarrow> ('o raw_config \<Rightarrow> string) \<Rightarrow> string \<Rightarrow>
   ingestor_error + 'o ingestor_config" where
  "load merged explain path =
     (case merged path of
        Inl e \<Rightarrow> Inl (ErrIngestorConfig e)
      | Inr raw \<Rightarrow>
          (case deserialize raw of
             None \<Rightarrow> Inl (ErrIngestorConfig (explain raw))
           | Some cfg \<Rightarrow> Inr cfg))"

definition cfg_ack_flush_policy :: "'o ingestor_config \<Rightarrow> ack_flush_policy" where
  "cfg_ack_flush_policy cfg =
     (case as_policy (ic_ack cfg) of
        PolicyEveryCommitGroup \<Rightarrow> EveryCommitGroup
      | PolicyEveryN \<Rightarrow> EveryN (max (or_default 1 (as_n (ic_ack cfg))) 1))"

definition cfg_writer_config :: "'o ingestor_config \<Rightarrow> writer_config" where
  "cfg_writer_config cfg =
     \<lparr>endpoint = chs_endpoint (ic_clickhouse cfg), user = chs_user (ic_clickhouse cfg),
      password = chs_password (ic_clickhouse cfg),
      request_timeout = uint (rts_request_timeout_secs (ic_runtime cfg)) * 1000000000,
      max_attempts = rts_retry_max_attempts (ic_runtime cfg),
      initial_backoff = uint (rts_retry_initial_backoff_ms (ic_runtime cfg)) * 1000000,
      serialization_format = ss_serialization_format (ic_sink cfg),
      http_client_mode = ss_http_client_mode (ic_sink cfg)\<rparr>"

definition cfg_logs_adapter_config :: "'o ingestor_config \<Rightarrow> logs_adapter_config" where
  "cfg_logs_adapter_config cfg =
     \<lparr>lc_database = chs_database (ic_clickhouse cfg), lc_table = chs_table (ic_clickhouse cfg),
      lc_adapter_version = ads_adapter_version (ic_adapter cfg),
      lc_max_chunk_rows = ads_max_chunk_rows (ic_adapter cfg),
      lc_max_chunk_bytes = ads_max_chunk_bytes (ic_adapter cfg),
      lc_insert_quorum = chs_insert_quorum (ic_clickhouse cfg),
      lc_apply_deduplication_token = ads_apply_deduplication_token (ic_adapter cfg)\<rparr>"

end
