(* ===== verification/Per_Source_Actor.thy ===== *)
theory Per_Source_Actor
  imports Decode_Stage
begin

text \<open>
  The per-source actor (\<open>runtime.rs\<close>, \<open>per_source_actor\<close>): its local state, the body of the
  completion arm (\<open>completion_committed\<close>: mark, advance, acknowledge, flush by policy) and the
  body of the admission arm (\<open>admission_arm\<close>: gates, one \<open>next_descriptors\<close>, register all,
  send all). The batch semaphore is its number of available permits. The recorders of the source
  (\<open>AdmissionRecorder\<close>, \<open>AckThroughRecorder\<close>) are fields. Metric emission is left out.
\<close>

section \<open>Definitions\<close>

record runtime_progress =
  batches_read :: u64
  source_ranges_committed :: u64
  records_written :: u64
  last_decoded_sequence :: "u64 option"
  last_acked_sequence :: "u64 option"
  pending_ranges_total :: nat

definition progress_default :: runtime_progress where
  "progress_default =
     \<lparr>batches_read = 0, source_ranges_committed = 0, records_written = 0,
      last_decoded_sequence = None, last_acked_sequence = None, pending_ranges_total = 0\<rparr>"

record 'k actor =
  act_source :: "'k buffer_source"
  coordinator :: ack_coordinator
  progress :: runtime_progress
  last_ack_sent :: "u64 option"
  groups_since_flush :: u32
  act_in_flight :: u64
  admission_open :: bool
  admission_recorder :: "u64 list"
  ack_through_recorder :: "u64 list"

definition actor_start :: "'k buffer_source \<Rightarrow> ack_coordinator \<Rightarrow> 'k actor" where
  "actor_start source c =
     \<lparr>act_source = source, coordinator = c, progress = progress_default,
      last_ack_sent = last_acked source, groups_since_flush = 0, act_in_flight = 0,
      admission_open = True, admission_recorder = [], ack_through_recorder = []\<rparr>"

definition stage_source :: nat where "stage_source = 0"
definition stage_fetch :: nat where "stage_fetch = 1"
definition stage_decode :: nat where "stage_decode = 2"
definition stage_sink_dispatch :: nat where "stage_sink_dispatch = 3"

definition count_completion :: "u64 \<Rightarrow> u64 \<Rightarrow> runtime_progress \<Rightarrow> runtime_progress" where
  "count_completion high rows pr =
     pr\<lparr>batches_read := saturating_add (batches_read pr) 1,
        last_decoded_sequence := Some high,
        records_written := saturating_add (records_written pr) rows,
        source_ranges_committed := saturating_add (source_ranges_committed pr) 1\<rparr>"

definition should_ack :: "u64 option \<Rightarrow> u64 \<Rightarrow> bool" where
  "should_ack sent f = (case sent of Some prev \<Rightarrow> prev < f | None \<Rightarrow> True)"

definition should_flush :: "ack_flush_policy \<Rightarrow> u32 \<Rightarrow> bool" where
  "should_flush policy groups =
     (case policy of EveryCommitGroup \<Rightarrow> True | EveryN n \<Rightarrow> max n 1 \<le> groups)"

definition ack_advance ::
  "'k consumer_ops \<Rightarrow> runtime_options \<Rightarrow> u64 \<Rightarrow> 'k actor \<Rightarrow> (runtime_error + unit) \<times> 'k actor" where
  "ack_advance ops opts f a =
     (let groups = saturating_add (groups_since_flush a) 1;
          a1 = a\<lparr>ack_through_recorder := ack_through_recorder a @ [f],
                 act_source := ack_through f (act_source a),
                 last_ack_sent := Some f, groups_since_flush := groups\<rparr>
      in if should_flush (ack_flush_policy opts) groups
         then
           (case flush_acks ops (act_source a1) of
              (Inl e, src) \<Rightarrow> (Inl e, a1\<lparr>act_source := src\<rparr>)
            | (Inr _, src) \<Rightarrow>
                (Inr (), a1\<lparr>act_source := src, groups_since_flush := 0,
                           progress := (progress a1)\<lparr>last_acked_sequence := Some f\<rparr>\<rparr>))
         else (Inr (), a1\<lparr>progress := (progress a1)\<lparr>last_acked_sequence := Some f\<rparr>\<rparr>))"

definition ack_frontier_step ::
  "'k consumer_ops \<Rightarrow> runtime_options \<Rightarrow> 'k actor \<Rightarrow> (runtime_error + unit) \<times> 'k actor" where
  "ack_frontier_step ops opts a =
     (if dry_run opts then (Inr (), a)
      else
        (case frontier (coordinator a) of
           None \<Rightarrow> (Inr (), a)
         | Some f \<Rightarrow>
             if should_ack (last_ack_sent a) f then ack_advance ops opts f a else (Inr (), a)))"

definition completion_committed ::
  "'k consumer_ops \<Rightarrow> runtime_options \<Rightarrow> u64 \<times> u64 \<Rightarrow> u64 \<Rightarrow> 'k actor \<Rightarrow>
   (runtime_error + unit) \<times> 'k actor" where
  "completion_committed ops opts rng rows a =
     (case mark_committed (coordinator a) (fst rng) (snd rng) of
        Inl e \<Rightarrow> (Inl e, a)
      | Inr c \<Rightarrow>
          (let a1 = a\<lparr>coordinator := advance_frontier c, act_in_flight := act_in_flight a - 1,
                      progress := count_completion (snd rng) rows (progress a)\<rparr>;
               (res, a2) = ack_frontier_step ops opts a1
           in case res of
                Inl e \<Rightarrow> (Inl e, a2)
              | Inr _ \<Rightarrow>
                  (Inr (), a2\<lparr>progress :=
                     (progress a2)\<lparr>pending_ranges_total := pending_count (coordinator a2)\<rparr>\<rparr>)))"

definition k_target :: "runtime_options \<Rightarrow> backpressure_options \<Rightarrow> budget \<Rightarrow> nat \<Rightarrow> nat" where
  "k_target opts bp b permits =
     (let estimated = max (estimated_max_batch_bytes bp) 1;
          room_bytes = saturating_sub (capacity b) (in_flight b);
          room_units = unat (room_bytes div estimated)
      in min (min (max (max_descriptors_per_poll opts) 1) (1 + permits)) (1 + room_units))"

fun extend_gates ::
  "nat \<Rightarrow> u64 \<Rightarrow> budget \<Rightarrow> nat \<Rightarrow> reservation list \<Rightarrow> budget \<times> nat \<times> reservation list" where
  "extend_gates 0 est b permits gates = (b, permits, gates)"
| "extend_gates (Suc n) est b permits gates =
     (if permits = 0 then (b, permits, gates)
      else
        (case try_reserve b est of
           None \<Rightarrow> (b, permits, gates)
         | Some (b', r) \<Rightarrow>
             (let (b'', r') = attach_stage stage_source b' r
              in extend_gates n est b'' (permits - 1) (gates @ [r']))))"

definition drop_gates :: "budget \<Rightarrow> nat \<Rightarrow> reservation list \<Rightarrow> budget \<times> nat" where
  "drop_gates b permits gates = (fold (\<lambda>r b. res_drop b r) gates b, permits + length gates)"

fun register_all ::
  "source_batch_descriptor list \<Rightarrow> 'k actor \<Rightarrow> (runtime_error + unit) \<times> 'k actor" where
  "register_all [] a = (Inr (), a)"
| "register_all (d # ds) a =
     (let q = sd_sequence d;
          a1 = a\<lparr>admission_recorder := admission_recorder a @ [q]\<rparr>
      in case register_pending (coordinator a1) q q of
           Inl e \<Rightarrow> (Inl e, a1)
         | Inr c \<Rightarrow>
             register_all ds
               (a1\<lparr>coordinator := c, act_in_flight := saturating_add (act_in_flight a1) 1\<rparr>))"

text \<open>
  \<open>sends\<close> is the number of descriptors that the worker stage still takes before its channel is
  found closed (every one of them unless all fetch workers are gone).
\<close>

definition send_all ::
  "source_id \<Rightarrow> nat \<Rightarrow> (source_batch_descriptor \<times> reservation) list \<Rightarrow> budget \<Rightarrow> nat \<Rightarrow>
   (runtime_error + unit) \<times> budget \<times> nat \<times> (source_batch_descriptor \<times> reservation) list" where
  "send_all source sends pairs b permits =
     (if length pairs \<le> sends then (Inr (), b, permits, pairs)
      else
        (let (b', permits') = drop_gates b permits (map snd (drop sends pairs))
         in (Inl (ErrPipeline (DescriptorLost source (sd_sequence (fst (pairs ! sends))))),
             b', permits', take sends pairs)))"

definition default_budget_arg :: source_budget_arg where
  "default_budget_arg = \<lparr>bytes_remaining = 0, batches_remaining = 0\<rparr>"

definition register_and_send ::
  "nat \<Rightarrow> source_batch_descriptor list \<Rightarrow> reservation list \<Rightarrow> 'k actor \<Rightarrow> budget \<Rightarrow> nat \<Rightarrow>
   (runtime_error + unit) \<times> 'k actor \<times> budget \<times> nat \<times> (source_batch_descriptor \<times> reservation) list" where
  "register_and_send sends ds gates a b permits =
     (let (b1, permits1) = drop_gates b permits (drop (length ds) gates);
          kept = take (length ds) gates
      in case register_all ds a of
           (Inl e, a') \<Rightarrow>
             (let (b2, permits2) = drop_gates b1 permits1 kept in (Inl e, a', b2, permits2, []))
         | (Inr _, a') \<Rightarrow>
             (let (res, b2, permits2, sent) =
                send_all (src_id (act_source a)) sends (zip ds kept) b1 permits1
              in (res, a', b2, permits2, sent)))"

definition admission_arm ::
  "'k consumer_ops \<Rightarrow> runtime_options \<Rightarrow> backpressure_options \<Rightarrow> nat \<Rightarrow> 'k actor \<Rightarrow> budget \<Rightarrow> nat \<Rightarrow>
   reservation \<Rightarrow>
   (runtime_error + unit) \<times> 'k actor \<times> budget \<times> nat \<times> (source_batch_descriptor \<times> reservation) list" where
  "admission_arm ops opts bp sends a b permits r0 =
     (let (b1, r) = attach_stage stage_source b r0;
          (b2, permits2, gates) =
            extend_gates (k_target opts bp b1 permits - 1) (estimated_max_batch_bytes bp) b1 permits [r];
          (res, src) = next_descriptors ops (length gates) default_budget_arg (act_source a);
          a1 = a\<lparr>act_source := src\<rparr>
      in case res of
           Inl e \<Rightarrow> (let (b3, permits3) = drop_gates b2 permits2 gates in (Inl e, a1, b3, permits3, []))
         | Inr ds \<Rightarrow>
             if ds = []
             then (let (b3, permits3) = drop_gates b2 permits2 gates in (Inr (), a1, b3, permits3, []))
             else register_and_send sends ds gates a1 b2 permits2)"

definition admission_attempt ::
  "backpressure_options \<Rightarrow> budget \<Rightarrow> nat \<Rightarrow> (budget \<times> nat \<times> reservation) option" where
  "admission_attempt bp b permits =
     (if permits = 0 then None
      else
        (case reserve b (estimated_max_batch_bytes bp) of
           None \<Rightarrow> None
         | Some (b', r) \<Rightarrow> Some (b', permits - 1, r)))"

definition actor_exit ::
  "'k consumer_ops \<Rightarrow> runtime_options \<Rightarrow> 'k actor \<Rightarrow> (runtime_error + unit) \<times> 'k actor" where
  "actor_exit ops opts a =
     (let (res, src) =
        (if dry_run opts then (Inr (), act_source a) else flush_acks ops (act_source a))
      in case res of
           Inl e \<Rightarrow> (Inl e, a\<lparr>act_source := src\<rparr>)
         | Inr _ \<Rightarrow>
             (Inr (), a\<lparr>act_source := src,
                        progress := (progress a)\<lparr>pending_ranges_total := pending_count (coordinator a)\<rparr>\<rparr>))"

section \<open>Gates: permits and bytes\<close>

definition gates_ok :: "budget \<Rightarrow> reservation list \<Rightarrow> bool" where
  "gates_ok b rs = (flight.mirrors (b, rs) \<and> (\<forall>s. stg.mirrors s (b, rs)))"

lemma gates_ok_iff:
  "gates_ok b rs \<longleftrightarrow>
     in_flight b = sum_list (map held rs) \<and> (\<forall>s. stage_bytes b s = sum_list (map (stage_part s) rs))"
  by (simp add: gates_ok_def flight.mirrors_def stg.mirrors_def)

lemma gates_ok_perm: "gates_ok b rs \<Longrightarrow> mset rs = mset rs' \<Longrightarrow> gates_ok b rs'"
proof -
  assume g: "gates_ok b rs" and "mset rs = mset rs'"
  then have "sum_list (map f rs) = sum_list (map f rs')" for f :: "reservation \<Rightarrow> u64"
    by (metis mset_map sum_mset_sum_list)
  then show ?thesis using g by (simp add: gates_ok_iff)
qed

lemma gates_ok_drop:
  assumes "gates_ok b (r # rs)"
  shows "gates_ok (res_drop b r) rs"
proof -
  have "res_apply b r OpDrop = (res_drop b r, None)" by simp
  from flight.change [OF this] stg.change [OF this] show ?thesis
    using assms by (auto simp: gates_ok_iff add.commute)
qed

lemma gates_ok_change:
  assumes "gates_ok b (r # rs)" "res_apply b r x = (b', Some r')"
  shows "gates_ok b' (r' # rs)"
proof -
  have "in_flight b' + held r = in_flight b + held r'"
    "stage_bytes b' s + stage_part s r = stage_bytes b s + stage_part s r'" for s
    using flight.change [OF assms(2)] stg.change [OF assms(2)] by simp_all
  then show ?thesis
    using assms(1) by (auto simp: gates_ok_iff algebra_simps)
qed

lemma gates_ok_admit:
  assumes "gates_ok b rs" "try_reserve b n = Some (b', r) \<or> reserve b n = Some (b', r)"
  shows "gates_ok b' (r # rs)"
proof -
  have "in_flight b' = in_flight b + held r"
    "stage_bytes b' s = stage_bytes b s + stage_part s r" for s
    using assms(2) flight.admit flight.try_admit stg.admit stg.try_admit
    by (auto simp: reserve_def try_reserve_def)
  then show ?thesis
    using assms(1) by (simp add: gates_ok_iff add.commute)
qed

lemma gates_ok_drop_all: "gates_ok b (gs @ rs) \<Longrightarrow> gates_ok (fst (drop_gates b n gs)) rs"
  by (induction gs arbitrary: b) (auto simp: drop_gates_def dest: gates_ok_drop)

lemma drop_gates_permits [simp]: "snd (drop_gates b n gs) = n + length gs"
  by (simp add: drop_gates_def)

lemma drop_gates_pair: "drop_gates b n gs = (b', n') \<Longrightarrow> n' = n + length gs"
  by (auto simp: drop_gates_def)

lemma extend_gates_facts:
  assumes "gates_ok b (gs @ rs)" "extend_gates n est b permits gs = (b', permits', gs')"
  shows "gates_ok b' (gs' @ rs) \<and> permits' + length gs' = permits + length gs \<and>
    length gs' \<le> length gs + n \<and> length gs \<le> length gs'"
  using assms
proof (induction n est b permits gs rule: extend_gates.induct)
  case (2 n est b permits gs)
  show ?case
  proof (cases "permits = 0 \<or> try_reserve b est = None")
    case True
    then show ?thesis using 2(2,3) by (auto split: if_splits)
  next
    case False
    then obtain b1 r where r: "try_reserve b est = Some (b1, r)" by auto
    obtain b2 r' where at: "attach_stage stage_source b1 r = (b2, r')" by fastforce
    have "gates_ok b1 (r # gs @ rs)"
      using gates_ok_admit [OF 2(2)] r by blast
    moreover have "res_apply b1 r (OpAttach stage_source) = (b2, Some r')"
      using at by simp
    ultimately have "gates_ok b2 (r' # gs @ rs)"
      by (rule gates_ok_change)
    then have "gates_ok b2 ((gs @ [r']) @ rs)"
      by (rule gates_ok_perm) simp
    then show ?thesis
      using 2(1) [OF _ r _ at [symmetric]] 2(3) False r at by fastforce
  qed
qed auto

section \<open>Admission and completion on the coordinator\<close>

lemma register_outstanding:
  assumes inv: "coord_inv c" and ok: "register_pending c low high = Inr c'"
  shows "outstanding c' = insert (low, high) (outstanding c)" "(low, high) \<notin> outstanding c"
    "acked_frontier c' = acked_frontier c" "settled c \<Longrightarrow> settled c'"
proof -
  note res = register_result [OF inv ok]
  show "outstanding c' = insert (low, high) (outstanding c)" "acked_frontier c' = acked_frontier c"
    by (auto simp: res(3) outstanding_code)
  show "settled c'" if "settled c"
    using apply_settled [OF inv that, of "EvRegister low high" c'] ok by simp
  show "(low, high) \<notin> outstanding c"
  proof
    assume "(low, high) \<in> outstanding c"
    then obtain r where "r \<in> set (map snd (pending c))" "pr_low r = low"
      by (auto simp: outstanding_code)
    then have "unat low < admitted_end c" "pending c \<noteq> []"
      using pending_above(2,3) [OF inv] by fastforce+
    then show False
      using res(2) coord_inv_not_fixed(2) [OF inv] by auto
  qed
qed

definition seq_pairs :: "u64 list \<Rightarrow> (u64 \<times> u64) set" where
  "seq_pairs qs = (\<lambda>q. (q, q)) ` set qs"

lemma seq_pairs_simps [simp]:
  "seq_pairs [] = {}" "seq_pairs (q # qs) = insert (q, q) (seq_pairs qs)"
  "seq_pairs (qs @ qs') = seq_pairs qs \<union> seq_pairs qs'" "(q, q') \<in> seq_pairs qs \<longleftrightarrow> q = q' \<and> q \<in> set qs"
  by (auto simp: seq_pairs_def)

definition same_but_coordinator :: "'k actor \<Rightarrow> 'k actor \<Rightarrow> bool" where
  "same_but_coordinator a a' =
     (act_source a' = act_source a \<and> last_ack_sent a' = last_ack_sent a \<and>
      ack_through_recorder a' = ack_through_recorder a \<and> admission_open a' = admission_open a \<and>
      initial_frontier_baseline (coordinator a') = initial_frontier_baseline (coordinator a) \<and>
      frontier (coordinator a') = frontier (coordinator a))"

lemma register_all_facts:
  assumes "register_all ds a = (res, a')" "coord_inv (coordinator a)" "settled (coordinator a)"
  shows "coord_inv (coordinator a') \<and> settled (coordinator a') \<and> same_but_coordinator a a' \<and>
    (res = Inr () \<longrightarrow>
       outstanding (coordinator a') = outstanding (coordinator a) \<union> seq_pairs (map sd_sequence ds) \<and>
       outstanding (coordinator a) \<inter> seq_pairs (map sd_sequence ds) = {} \<and>
       distinct (map sd_sequence ds) \<and>
       (unat (act_in_flight a) + length ds < 2 ^ 64 \<longrightarrow>
          unat (act_in_flight a') = unat (act_in_flight a) + length ds))"
  using assms
proof (induction ds arbitrary: a)
  case Nil
  then show ?case by (auto simp: same_but_coordinator_def)
next
  case (Cons d ds)
  let ?q = "sd_sequence d"
  let ?a1 = "a\<lparr>admission_recorder := admission_recorder a @ [?q]\<rparr>"
  show ?case
  proof (cases "register_pending (coordinator a) ?q ?q")
    case (Inl e)
    then show ?thesis using Cons.prems by (auto simp: Let_def same_but_coordinator_def)
  next
    case (Inr c)
    let ?a2 = "?a1\<lparr>coordinator := c, act_in_flight := saturating_add (act_in_flight a) 1\<rparr>"
    have run: "register_all ds ?a2 = (res, a')"
      using Cons.prems(1) Inr by (simp add: Let_def)
    note reg = register_outstanding [OF Cons.prems(2) Inr]
    have init: "initial_frontier_baseline c = initial_frontier_baseline (coordinator a)"
      using Inr by (auto simp: register_pending_def split: option.splits)
    have IH: "coord_inv (coordinator a') \<and> settled (coordinator a') \<and> same_but_coordinator ?a2 a' \<and>
      (res = Inr () \<longrightarrow>
       outstanding (coordinator a') = outstanding c \<union> seq_pairs (map sd_sequence ds) \<and>
       outstanding c \<inter> seq_pairs (map sd_sequence ds) = {} \<and> distinct (map sd_sequence ds) \<and>
       (unat (act_in_flight ?a2) + length ds < 2 ^ 64 \<longrightarrow>
          unat (act_in_flight a') = unat (act_in_flight ?a2) + length ds))"
      using Cons.IH [OF run] register_inv [OF Cons.prems(2) Inr] reg(4) [OF Cons.prems(3)] by simp
    have same: "same_but_coordinator a a'"
      using IH reg(3) init by (simp add: same_but_coordinator_def frontier_def)
    have fl: "unat (act_in_flight ?a2) = Suc (unat (act_in_flight a))"
      if "unat (act_in_flight a) + Suc (length ds) < 2 ^ 64"
      using that by (simp add: word_to_nat)
    show ?thesis
      using IH same reg(1,2) fl by auto
  qed
qed

section \<open>The invariant of the actor\<close>

definition ack_log_inv :: "runtime_options \<Rightarrow> u64 option \<Rightarrow> 'k actor \<Rightarrow> bool" where
  "ack_log_inv opts base a =
     (sorted_wrt (<) (ack_through_recorder a) \<and>
      last_acked (act_source a) = last_ack_sent a \<and>
      initial_frontier_baseline (coordinator a) = base \<and>
      (if dry_run opts then ack_through_recorder a = [] \<and> last_ack_sent a = base
       else
         (case frontier (coordinator a) of
            None \<Rightarrow> ack_through_recorder a = [] \<and> last_ack_sent a = base
          | Some f \<Rightarrow>
              ack_through_recorder a \<noteq> [] \<and> last (ack_through_recorder a) = f \<and>
              last_ack_sent a = Some f)))"

definition actor_inv :: "runtime_options \<Rightarrow> u64 option \<Rightarrow> 'k actor \<Rightarrow> bool" where
  "actor_inv opts base a =
     (coord_inv (coordinator a) \<and> settled (coordinator a) \<and> ack_log_inv opts base a)"

lemma actor_inv_start:
  assumes "last_acked src \<noteq> Some (- 1)"
  shows "actor_inv opts (last_acked src) (actor_start src (ack_new i (last_acked src)))"
  using coord_inv_new [OF assms] settled_new
  by (simp add: actor_inv_def ack_log_inv_def actor_start_def ack_new_def frontier_def)

lemma flush_last_acked [simp]: "last_acked (snd (flush_acks ops s)) = last_acked s"
  by (simp add: flush_acks_def split: option.split sum.split prod.split)

lemma ack_advance_facts:
  assumes "ack_advance ops opts f a = (res, a')"
  shows "coordinator a' = coordinator a" "ack_through_recorder a' = ack_through_recorder a @ [f]"
    "last_ack_sent a' = Some f" "last_acked (act_source a') = Some f"
    "act_in_flight a' = act_in_flight a" "admission_open a' = admission_open a"
    "admission_recorder a' = admission_recorder a"
proof -
  have fl: "last_acked src = Some f" if "flush_acks ops (ack_through f (act_source a)) = (r, src)" for r src
    using arg_cong [OF that, of "\<lambda>x. last_acked (snd x)"] by (simp add: ack_through_def)
  show "coordinator a' = coordinator a" "ack_through_recorder a' = ack_through_recorder a @ [f]"
    "last_ack_sent a' = Some f" "last_acked (act_source a') = Some f"
    "act_in_flight a' = act_in_flight a" "admission_open a' = admission_open a"
    "admission_recorder a' = admission_recorder a"
    using assms fl
    by (auto simp: ack_advance_def Let_def ack_through_def split: if_splits prod.splits sum.splits)
qed

lemma first_frontier_above_base:
  assumes "coord_inv c" "frontier c = Some f" "initial_frontier_baseline c = Some b"
  shows "b < f"
  using assms by (auto simp: coord_inv_def frontier_def start_seq_def word_less_nat_alt)

lemma ack_step_facts:
  assumes "ack_frontier_step ops opts a = (res, a')"
  shows "coordinator a' = coordinator a" "act_in_flight a' = act_in_flight a"
    "admission_open a' = admission_open a"
    "res = Inr () \<or> (\<exists>e. res = Inl (ErrSource e))"
    "(case frontier (coordinator a) of
        None \<Rightarrow> a' = a
      | Some f \<Rightarrow>
          if dry_run opts \<or> \<not> should_ack (last_ack_sent a) f then a' = a
          else ack_through_recorder a' = ack_through_recorder a @ [f] \<and> last_ack_sent a' = Some f \<and>
               last_acked (act_source a') = Some f)"
proof -
  show "res = Inr () \<or> (\<exists>e. res = Inl (ErrSource e))"
    using assms
    by (auto simp: ack_frontier_step_def ack_advance_def flush_acks_def Let_def
        split: if_splits option.splits sum.splits prod.splits)
qed (use assms ack_advance_facts [of ops opts _ a res a'] in
      \<open>auto simp: ack_frontier_step_def split: if_splits option.splits\<close>)

lemma ack_log_step:
  assumes log: "ack_log_inv opts base a" and step: "ack_frontier_step ops opts a1 = (res, a2)"
    and a1: "last_ack_sent a1 = last_ack_sent a" "ack_through_recorder a1 = ack_through_recorder a"
      "act_source a1 = act_source a"
      "initial_frontier_baseline (coordinator a1) = initial_frontier_baseline (coordinator a)"
    and inv: "coord_inv (coordinator a1)"
    and below: "seq_below (frontier (coordinator a)) (frontier (coordinator a1))"
  shows "ack_log_inv opts base a2"
proof (cases "dry_run opts \<or> frontier (coordinator a1) = None")
  case True
  then have "a2 = a1"
    using step by (auto simp: ack_frontier_step_def split: if_splits)
  then show ?thesis
    using True log a1 below by (auto simp: ack_log_inv_def seq_below_def split: option.splits)
next
  case False
  then obtain f where f: "frontier (coordinator a1) = Some f" and nd: "\<not> dry_run opts" by auto
  note facts = ack_step_facts [OF step]
  have base: "b < f" if "base = Some b" for b
    using first_frontier_above_base [OF inv f] log a1(4) that by (simp add: ack_log_inv_def)
  show ?thesis
  proof (cases "should_ack (last_ack_sent a1) f")
    case True
    have "\<forall>x\<in>set (ack_through_recorder a). x < f"
    proof (cases "frontier (coordinator a)")
      case None
      then show ?thesis using log nd by (simp add: ack_log_inv_def)
    next
      case (Some g)
      then have sorted: "sorted_wrt (<) (ack_through_recorder a)"
        and ne: "ack_through_recorder a \<noteq> []" "last (ack_through_recorder a) = g" "g < f"
        using log nd True a1(1) by (auto simp: ack_log_inv_def should_ack_def)
      then have "sorted_wrt (<) (butlast (ack_through_recorder a) @ [g])"
        by (metis append_butlast_last_id)
      then have "\<forall>x\<in>set (butlast (ack_through_recorder a) @ [g]). x \<le> g"
        by (auto simp: sorted_wrt_append)
      then show ?thesis
        using ne append_butlast_last_id [of "ack_through_recorder a"] by fastforce
    qed
    then show ?thesis
      using facts f nd True log a1 by (auto simp: ack_log_inv_def sorted_wrt_append)
  next
    case no: False
    then have "a2 = a1" using facts(5) f by simp
    moreover have "frontier (coordinator a) = Some f"
      using no log nd a1(1) base below f
      by (auto simp: ack_log_inv_def should_ack_def seq_below_def split: option.splits)
    ultimately show ?thesis
      using log nd a1 f by (auto simp: ack_log_inv_def)
  qed
qed

text \<open>What the completion arm does, for a range that is outstanding.\<close>

lemma completion_facts:
  assumes inv: "actor_inv opts base a" and out: "rng \<in> outstanding (coordinator a)"
    and run: "completion_committed ops opts rng rows a = (res, a')"
  shows "actor_inv opts base a'" "ack_commit (coordinator a) rng = Inr (coordinator a')"
    "act_in_flight a' = act_in_flight a - 1" "admission_open a' = admission_open a"
    "res = Inr () \<or> (\<exists>e. res = Inl (ErrSource e))"
proof -
  note ci = inv [unfolded actor_inv_def]
  obtain d where com: "ack_commit (coordinator a) rng = Inr d"
    using ack.com_ok [of "coordinator a" rng] ci out by blast
  then obtain c where c: "mark_committed (coordinator a) (fst rng) (snd rng) = Inr c"
    and d: "d = advance_frontier c"
    by (rule ack_commit_ok)
  have dinv: "coord_inv d \<and> settled d"
    using ack.com_inv [OF _ com] ci by blast
  have below: "seq_below (frontier (coordinator a)) (frontier d)"
    using apply_facts(3) [of "coordinator a" "EvCommit (fst rng) (snd rng)" d] ci com
    by (simp add: ack_commit_def frontier_def)
  have init: "initial_frontier_baseline d = initial_frontier_baseline (coordinator a)"
    using c by (auto simp: d mark_committed_def split: option.splits if_splits)
  let ?a1 = "a\<lparr>coordinator := d, act_in_flight := act_in_flight a - 1,
                progress := count_completion (snd rng) rows (progress a)\<rparr>"
  obtain res2 a2 where st: "ack_frontier_step ops opts ?a1 = (res2, a2)" by fastforce
  then have "(res = res2 \<and> a' = a2) \<or>
      (res = res2 \<and> a' = a2\<lparr>progress := (progress a2)\<lparr>pending_ranges_total := pending_count (coordinator a2)\<rparr>\<rparr>)"
    using run c d by (auto simp: completion_committed_def Let_def split: sum.splits)
  then obtain p where upd: "a' = a2\<lparr>progress := p\<rparr>" and res: "res = res2"
    using actor.surjective [of a2] by (metis actor.update_convs(3))
  note facts = ack_step_facts [OF st]
  show "ack_commit (coordinator a) rng = Inr (coordinator a')" "act_in_flight a' = act_in_flight a - 1"
    "admission_open a' = admission_open a" "res = Inr () \<or> (\<exists>e. res = Inl (ErrSource e))"
    using facts(1-4) upd com res by simp_all
  have "ack_log_inv opts base a2"
    using ack_log_step [OF _ st, of base a] ci dinv below init by simp
  then show "actor_inv opts base a'"
    using upd dinv facts(1) by (auto simp: actor_inv_def ack_log_inv_def cong: option.case_cong)
qed

text \<open>What the admission arm does.\<close>

definition consumer_bounded :: "'k consumer_ops \<Rightarrow> bool" where
  "consumer_bounded ops \<longleftrightarrow>
     (\<forall>n k ds k'. co_next_descriptors ops n k = (Inr ds, k') \<longrightarrow> length ds \<le> n)"

lemma next_descriptors_facts:
  assumes "next_descriptors ops n bud src = (res, src')"
  shows "last_acked src' = last_acked src" "src_id src' = src_id src"
    "consumer_bounded ops \<Longrightarrow> res = Inr ds \<Longrightarrow> length ds \<le> n"
  using assms
  by (fastforce simp: next_descriptors_def consumer_bounded_def split: prod.splits sum.splits)+

lemma actor_inv_source:
  "actor_inv opts base a \<Longrightarrow> last_acked src = last_acked (act_source a) \<Longrightarrow>
     actor_inv opts base (a\<lparr>act_source := src\<rparr>)"
  by (auto simp: actor_inv_def ack_log_inv_def cong: option.case_cong)

lemma actor_inv_registered:
  "actor_inv opts base a \<Longrightarrow> same_but_coordinator a a' \<Longrightarrow>
     coord_inv (coordinator a') \<Longrightarrow> settled (coordinator a') \<Longrightarrow> actor_inv opts base a'"
  by (auto simp: actor_inv_def ack_log_inv_def same_but_coordinator_def split: option.splits)

lemma send_all_facts:
  assumes "send_all src sends pairs b permits = (res, b', permits', sent)"
    "gates_ok b (map snd pairs @ rs)"
  shows "gates_ok b' (map snd sent @ rs)" "permits' + length sent = permits + length pairs"
    "res = Inr () \<Longrightarrow> sent = pairs"
proof -
  have "gates_ok (fst (drop_gates b permits (map snd (drop sends pairs)))) (map snd (take sends pairs) @ rs)"
    using gates_ok_perm [OF assms(2)] mset_drop_take [of sends "map snd pairs" rs]
    by (intro gates_ok_drop_all) (simp add: drop_map take_map)
  then show "gates_ok b' (map snd sent @ rs)" "permits' + length sent = permits + length pairs"
    "res = Inr () \<Longrightarrow> sent = pairs"
    using assms by (auto simp: send_all_def Let_def dest: drop_gates_pair split: if_splits prod.splits)
qed

definition admitted_ok ::
  "'k actor \<Rightarrow> 'k actor \<Rightarrow> (source_batch_descriptor \<times> reservation) list \<Rightarrow> bool" where
  "admitted_ok a a' sent =
     (outstanding (coordinator a') =
        outstanding (coordinator a) \<union> seq_pairs (map (sd_sequence \<circ> fst) sent) \<and>
      outstanding (coordinator a) \<inter> seq_pairs (map (sd_sequence \<circ> fst) sent) = {} \<and>
      distinct (map (sd_sequence \<circ> fst) sent) \<and>
      (unat (act_in_flight a) + length sent < 2 ^ 64 \<longrightarrow>
         unat (act_in_flight a') = unat (act_in_flight a) + length sent))"

lemma register_and_send_facts:
  assumes run: "register_and_send sends ds gates a b permits = (res, a', b', permits', sent)"
    and g: "gates_ok b (gates @ rs)" and inv: "actor_inv opts base a" and len: "length ds \<le> length gates"
  shows "gates_ok b' (map snd sent @ rs) \<and> permits' + length sent = permits + length gates \<and>
    actor_inv opts base a' \<and> admission_open a' = admission_open a \<and>
    (res = Inr () \<longrightarrow> admitted_ok a a' sent)"
proof -
  let ?kept = "take (length ds) gates" and ?rest = "drop (length ds) gates"
  obtain b1 n1 where d1: "drop_gates b permits ?rest = (b1, n1)" by fastforce
  obtain r2 a2 where reg: "register_all ds a = (r2, a2)" by fastforce
  have "gates_ok b (?rest @ ?kept @ rs)"
    by (rule gates_ok_perm [OF g]) (rule mset_drop_take [symmetric])
  then have g1: "gates_ok b1 (?kept @ rs)"
    using gates_ok_drop_all [of b ?rest "?kept @ rs" permits] d1 by simp
  have n1: "n1 = permits + length ?rest"
    using drop_gates_permits [of b permits ?rest] d1 by simp
  note rf = register_all_facts [OF reg] inv [unfolded actor_inv_def]
  have inv2: "actor_inv opts base a2" and open2: "admission_open a2 = admission_open a"
    using rf actor_inv_registered [OF inv, of a2] by (auto simp: same_but_coordinator_def)
  have zl: "length (zip ds ?kept) = length ds" "map fst (zip ds ?kept) = ds" "map snd (zip ds ?kept) = ?kept"
    using len by simp_all
  show ?thesis
  proof (cases r2)
    case (Inl e)
    obtain b2 n2 where d2: "drop_gates b1 n1 ?kept = (b2, n2)" by fastforce
    then have "gates_ok b2 rs" "n2 = n1 + length ?kept"
      using gates_ok_drop_all [OF g1, of n1] drop_gates_permits [of b1 n1 ?kept] by simp_all
    then show ?thesis
      using run d1 reg Inl d2 inv2 open2 n1 len by (auto simp: register_and_send_def Let_def)
  next
    case (Inr u)
    obtain r3 b2 n2 s2 where sa:
      "send_all (src_id (act_source a)) sends (zip ds ?kept) b1 n1 = (r3, b2, n2, s2)"
      by (metis prod_cases4)
    note sf = send_all_facts [OF sa, of rs, unfolded zl, OF g1]
    have eqs: "res = r3" "a' = a2" "b' = b2" "permits' = n2" "sent = s2"
      using run d1 reg Inr sa by (simp_all add: register_and_send_def Let_def)
    have "map (sd_sequence \<circ> fst) s2 = map sd_sequence ds \<and> length s2 = length ds" if "r3 = Inr ()"
      using sf(3) [OF that] zl by (simp flip: map_map)
    then have "r3 = Inr () \<longrightarrow> admitted_ok a a2 s2"
      using rf Inr by (auto simp: admitted_ok_def)
    then show ?thesis
      using sf(1,2) inv2 open2 n1 len unfolding eqs by simp
  qed
qed

lemma admission_arm_facts:
  assumes run: "admission_arm ops opts bp sends a b permits r0 = (res, a', b', permits', sent)"
    and g: "gates_ok b (r0 # rs)" and inv: "actor_inv opts base a" and ops: "consumer_bounded ops"
  shows "gates_ok b' (map snd sent @ rs) \<and> permits' + length sent = permits + 1 \<and>
    actor_inv opts base a' \<and> admission_open a' = admission_open a \<and>
    (res = Inr () \<longrightarrow> admitted_ok a a' sent)"
proof -
  obtain b1 r where at: "attach_stage stage_source b r0 = (b1, r)" by fastforce
  obtain b2 n2 gates where ext: "extend_gates (k_target opts bp b1 permits - 1)
      (estimated_max_batch_bytes bp) b1 permits [r] = (b2, n2, gates)"
    by (metis prod_cases3)
  obtain nres src where nx: "next_descriptors ops (length gates) default_budget_arg (act_source a) = (nres, src)"
    by fastforce
  have "gates_ok b1 (r # rs)"
    using gates_ok_change [OF g, of "OpAttach stage_source"] at by simp
  then have e: "gates_ok b2 (gates @ rs)" "n2 + length gates = permits + 1"
    using extend_gates_facts [of b1 "[r]" rs] ext by auto
  note nf = next_descriptors_facts [OF nx]
  let ?a1 = "a\<lparr>act_source := src\<rparr>"
  have inv1: "actor_inv opts base ?a1"
    by (rule actor_inv_source [OF inv nf(1)])
  have dropped: "gates_ok (fst (drop_gates b2 n2 gates)) rs"
    using gates_ok_drop_all [OF e(1), of n2] by simp
  show ?thesis
  proof (cases "\<exists>ds. nres = Inr ds \<and> ds \<noteq> []")
    case True
    then obtain ds where ds: "nres = Inr ds" "ds \<noteq> []" by blast
    have "register_and_send sends ds gates ?a1 b2 n2 = (res, a', b', permits', sent)"
      using run at ext nx ds by (simp add: admission_arm_def Let_def)
    from register_and_send_facts [OF this e(1) inv1] show ?thesis
      using nf(3) [OF ops ds(1)] e(2) by (simp add: admitted_ok_def)
  next
    case False
    then show ?thesis
      using run at ext nx dropped inv1 e(2)
      by (auto simp: admission_arm_def admitted_ok_def Let_def dest: drop_gates_pair
          split: sum.splits prod.splits)
  qed
qed

lemma register_all_source:
  "register_all ds a = (res, a') \<Longrightarrow>
     act_source a' = act_source a \<and> ack_through_recorder a' = ack_through_recorder a \<and>
     groups_since_flush a' = groups_since_flush a"
  by (induction ds a rule: register_all.induct) (auto simp: Let_def split: sum.splits)

text \<open>Every descriptor is sent with a reservation that is counted under the source stage.\<close>

lemma attach_stage_stage: "attach_stage k b r = (b', r') \<Longrightarrow> stage r' = Some k"
  by (auto simp: attach_stage_def Let_def)

lemma extend_gates_stages:
  assumes "extend_gates n est b permits gs = (b', permits', gs')" "\<forall>g\<in>set gs. stage g = Some stage_source"
  shows "\<forall>g\<in>set gs'. stage g = Some stage_source"
  using assms
proof (induction n arbitrary: b permits gs)
  case (Suc n)
  show ?case
  proof (cases "permits = 0 \<or> try_reserve b est = None")
    case True
    then show ?thesis using Suc.prems by (auto split: if_splits)
  next
    case False
    then obtain b1 r where r: "try_reserve b est = Some (b1, r)" by auto
    obtain b2 r' where at: "attach_stage stage_source b1 r = (b2, r')" by fastforce
    have "extend_gates n est b2 (permits - 1) (gs @ [r']) = (b', permits', gs')"
      using Suc.prems(1) False r at by simp
    from Suc.IH [OF this] show ?thesis
      using Suc.prems(2) attach_stage_stage [OF at] by auto
  qed
qed simp

lemma send_all_subset:
  assumes "send_all src sends pairs b permits = (res, b', permits', sent)"
  shows "set sent \<subseteq> set pairs"
  using assms set_take_subset [of sends pairs]
  by (auto simp: send_all_def Let_def split: if_splits prod.splits)

lemma register_and_send_subset:
  assumes "register_and_send sends ds gates a b permits = (res, a', b', permits', sent)"
  shows "snd ` set sent \<subseteq> set gates"
proof -
  obtain b1 n1 where d: "drop_gates b permits (drop (length ds) gates) = (b1, n1)" by fastforce
  obtain r2 a2 where reg: "register_all ds a = (r2, a2)" by fastforce
  obtain r3 b2 n2 s2 where sa: "send_all (src_id (act_source a)) sends (zip ds (take (length ds) gates)) b1 n1
      = (r3, b2, n2, s2)"
    by (metis prod_cases4)
  have "sent = [] \<or> sent = s2"
    using assms d reg sa by (cases r2) (auto simp: register_and_send_def Let_def split: prod.splits)
  moreover have "snd ` set s2 \<subseteq> set gates"
    using send_all_subset [OF sa] by (auto dest!: set_zip_rightD in_set_takeD dest: subsetD)
  ultimately show ?thesis by auto
qed

lemma admission_arm_stages:
  assumes run: "admission_arm ops opts bp sends a b permits r0 = (res, a', b', permits', sent)"
  shows "\<forall>dr\<in>set sent. stage (snd dr) = Some stage_source"
proof -
  obtain b1 r where at: "attach_stage stage_source b r0 = (b1, r)" by fastforce
  obtain b2 n2 gates where ext: "extend_gates (k_target opts bp b1 permits - 1)
      (estimated_max_batch_bytes bp) b1 permits [r] = (b2, n2, gates)"
    by (metis prod_cases3)
  obtain nres src where nx: "next_descriptors ops (length gates) default_budget_arg (act_source a) = (nres, src)"
    by fastforce
  have "\<forall>g\<in>set gates. stage g = Some stage_source"
    using extend_gates_stages [OF ext] attach_stage_stage [OF at] by simp
  moreover have "snd ` set sent \<subseteq> set gates"
  proof (cases "\<exists>ds. nres = Inr ds \<and> ds \<noteq> []")
    case True
    then obtain ds where "nres = Inr ds" "ds \<noteq> []" by blast
    then have "register_and_send sends ds gates (a\<lparr>act_source := src\<rparr>) b2 n2 = (res, a', b', permits', sent)"
      using run at ext nx by (simp add: admission_arm_def Let_def)
    then show ?thesis by (rule register_and_send_subset)
  next
    case False
    then have "sent = []"
      using run at ext nx by (auto simp: admission_arm_def Let_def split: sum.splits prod.splits)
    then show ?thesis by simp
  qed
  ultimately show ?thesis by auto
qed

lemma committed_from_abs: "coord_abs c' = coord_abs c \<Longrightarrow> committed_seqs c' = committed_seqs c"
  by (simp add: coord_abs_def)

lemma register_all_committed:
  assumes "register_all ds a = (res, a')" "coord_inv (coordinator a)"
  shows "committed_seqs (coordinator a') = committed_seqs (coordinator a)"
  using assms
proof (induction ds arbitrary: a)
  case (Cons d ds)
  show ?case
  proof (cases "register_pending (coordinator a) (sd_sequence d) (sd_sequence d)")
    case (Inl e)
    then show ?thesis using Cons.prems by (auto simp: Let_def)
  next
    case (Inr c)
    have "committed_seqs c = committed_seqs (coordinator a)"
      using register_abs [OF Cons.prems(2) Inr] by (simp add: coord_abs_def spec_register_def)
    then show ?thesis
      using Cons.IH Cons.prems(1) Inr register_inv [OF Cons.prems(2) Inr] by (fastforce simp: Let_def)
  qed
qed simp

lemma admission_arm_committed:
  assumes "admission_arm ops opts bp sends a b permits r = (res, a', b', permits', sent)"
    "coord_inv (coordinator a)"
  shows "committed_seqs (coordinator a') = committed_seqs (coordinator a)"
    "ack_through_recorder a' = ack_through_recorder a"
proof -
  have reg: "committed_seqs (coordinator x') = committed_seqs (coordinator a)"
    if "register_all ds (a\<lparr>act_source := src\<rparr>) = (r2, x')" for ds src r2 x'
    using register_all_committed [OF that] assms(2) by simp
  have rec: "ack_through_recorder x' = ack_through_recorder x" if "register_all ds x = (r2, x')" for ds x r2 x'
    using that by (induction ds arbitrary: x) (auto simp: Let_def split: sum.splits)
  show "committed_seqs (coordinator a') = committed_seqs (coordinator a)"
    "ack_through_recorder a' = ack_through_recorder a"
    using assms(1) reg rec
    by (fastforce simp: admission_arm_def register_and_send_def Let_def
        split: prod.splits sum.splits if_splits)+
qed

lemma ack_commit_committed:
  assumes "coord_inv c" "ack_commit c rng = Inr c'"
  shows "committed_seqs c' = committed_seqs c \<union> {unat (fst rng)..unat (snd rng)}"
  using apply_facts(2) [of c "EvCommit (fst rng) (snd rng)" c'] assms
  by (auto simp: ack_commit_def coord_abs_def spec_commit_def)

end
