(* ===== verification/Pipeline.thy ===== *)
theory Pipeline
  imports Per_Source_Actor
begin

text \<open>
  The pipelined runtime (\<open>runtime.rs\<close>) as a step relation: the actor's \<open>select!\<close> arms and the
  bodies of the fetch, decode and writer workers interleave in any order. Every admitted descriptor is
  one \<open>work\<close> item that carries its byte reservation (and one batch permit) through the stages;
  \<open>Releasing\<close> is a unit whose completion is sent and whose reservation is not dropped yet. The
  channels between the stages are the items in a queued state: several workers receive from each
  channel, so any queued item may be next. The completion channel has one receiver and keeps its order.
  A worker that fails reports a fatal completion and leaves; \<open>p_fetchers\<close>, \<open>p_decoders\<close> and
  \<open>p_writers\<close> count the workers that are left, and a batch that is handed to a stage without
  workers is lost, which is fatal too. The run is over when \<open>p_result\<close> holds the actor's result;
  after an error the hard abort makes the workers drop what they hold (\<open>abort_unit\<close>), a write in
  progress being cut off at any point. \<open>join_result\<close> is how
  \<open>Runtime::run\<close> combines the results of the actor and the workers.

  The invariant \<open>pipe_inv\<close> accounts for permits, bytes, in-flight count and outstanding ranges; in
  the context of the sink's contract, \<open>dur_inv\<close> adds that what the coordinator counts as committed
  is durable in the sink.
\<close>

section \<open>Definitions\<close>

datatype 'r work_state =
    Queued source_batch_descriptor
  | Fetching source_batch_descriptor
  | Fetched source_batch
  | Decoding source_batch
  | CommitQueued "'r sink_commit" "u64 \<times> u64"
  | Writing "'r sink_commit" "u64 \<times> u64"
  | Releasing

record 'r work =
  w_state :: "'r work_state"
  w_seq :: u64
  w_res :: reservation

datatype completion = CompletionCommitted "u64 \<times> u64" u64 | CompletionFatal runtime_error

record ('k, 'r, 's) pipe_env =
  pe_ops :: "'k consumer_ops"
  pe_decoder :: "'r decoder_ops"
  pe_sink :: "('r, 's) sink_ops"
  pe_options :: runtime_options
  pe_source :: source_id

record ('k, 'r, 's) pipe =
  p_actor :: "'k actor"
  p_budget :: budget
  p_permits :: nat
  p_units :: "'r work list"
  p_completions :: "completion list"
  p_sink :: 's
  p_result :: "(runtime_error + unit) option"
  p_fetchers :: nat
  p_decoders :: nat
  p_writers :: nat

definition pe_bp :: "('k, 'r, 's) pipe_env \<Rightarrow> backpressure_options" where
  "pe_bp e = backpressure_for (pe_options e) (pe_source e)"

definition channel_depth :: "('k, 'r, 's) pipe_env \<Rightarrow> nat" where
  "channel_depth e = option_max1 (max_inflight_batches (pe_bp e))"

definition pipe_start ::
  "('k, 'r, 's) pipe_env \<Rightarrow> 'k buffer_source \<Rightarrow> ack_coordinator \<Rightarrow> 's \<Rightarrow> ('k, 'r, 's) pipe" where
  "pipe_start e source c s =
     \<lparr>p_actor = actor_start source c,
      p_budget = budget_new (pe_source e) (max_inflight_bytes (pe_bp e)),
      p_permits = channel_depth e, p_units = [], p_completions = [], p_sink = s, p_result = None,
      p_fetchers = option_max1 (fetch_concurrency (pe_bp e)),
      p_decoders = option_max1 (decode_concurrency (pe_bp e)),
      p_writers = option_max1 (max_concurrent_commits (sink_options (pe_options e)))\<rparr>"

definition in_state :: "('r work_state \<Rightarrow> bool) \<Rightarrow> 'r work list \<Rightarrow> nat" where
  "in_state P us = length (filter (\<lambda>u. P (w_state u)) us)"

definition is_fetching :: "'r work_state \<Rightarrow> bool" where
  "is_fetching w = (case w of Fetching _ \<Rightarrow> True | _ \<Rightarrow> False)"

definition is_decoding :: "'r work_state \<Rightarrow> bool" where
  "is_decoding w = (case w of Decoding _ \<Rightarrow> True | _ \<Rightarrow> False)"

definition is_writing :: "'r work_state \<Rightarrow> bool" where
  "is_writing w = (case w of Writing _ _ \<Rightarrow> True | _ \<Rightarrow> False)"

definition queue_unit :: "source_batch_descriptor \<times> reservation \<Rightarrow> 'r work" where
  "queue_unit dr = \<lparr>w_state = Queued (fst dr), w_seq = sd_sequence (fst dr), w_res = snd dr\<rparr>"

definition move_unit ::
  "nat \<Rightarrow> 'r work_state \<Rightarrow> 'r work list \<Rightarrow> 'r work \<Rightarrow> 'r work list \<Rightarrow> ('k, 'r, 's) pipe \<Rightarrow> ('k, 'r, 's) pipe" where
  "move_unit st new_state xs u ys p =
     (let (b', r') = attach_stage st (p_budget p) (w_res u)
      in p\<lparr>p_budget := b', p_units := xs @ u\<lparr>w_state := new_state, w_res := r'\<rparr> # ys\<rparr>)"

definition fail_unit ::
  "runtime_error \<Rightarrow> 'r work list \<Rightarrow> 'r work \<Rightarrow> 'r work list \<Rightarrow> ('k, 'r, 's) pipe \<Rightarrow> ('k, 'r, 's) pipe" where
  "fail_unit err xs u ys p =
     p\<lparr>p_completions := p_completions p @ [CompletionFatal err],
       p_budget := res_drop (p_budget p) (w_res u), p_permits := Suc (p_permits p),
       p_units := xs @ ys\<rparr>"

definition report_unit ::
  "u64 \<times> u64 \<Rightarrow> u64 \<Rightarrow> 'r work list \<Rightarrow> 'r work \<Rightarrow> 'r work list \<Rightarrow> ('k, 'r, 's) pipe \<Rightarrow> ('k, 'r, 's) pipe" where
  "report_unit rng rows xs u ys p =
     p\<lparr>p_completions := p_completions p @ [CompletionCommitted rng rows],
       p_units := xs @ u\<lparr>w_state := Releasing\<rparr> # ys\<rparr>"

definition fetch_body ::
  "('k, 'r, 's) pipe_env \<Rightarrow> source_batch_descriptor \<Rightarrow> 'r work list \<Rightarrow> 'r work \<Rightarrow> 'r work list \<Rightarrow>
   ('k, 'r, 's) pipe \<Rightarrow> ('k, 'r, 's) pipe" where
  "fetch_body e d xs u ys p =
     (case handle_fetch (pe_ops e) (source_fetch_handle (act_source (p_actor p))) d of
        Inl err \<Rightarrow> (fail_unit err xs u ys p)\<lparr>p_fetchers := p_fetchers p - 1\<rparr>
      | Inr batch \<Rightarrow>
          if p_decoders p = 0
          then (fail_unit (ErrPipeline (FetchedBatchLost (pe_source e) (w_seq u))) xs u ys p)
                 \<lparr>p_fetchers := p_fetchers p - 1\<rparr>
          else p\<lparr>p_units := xs @ u\<lparr>w_state := Fetched batch\<rparr> # ys\<rparr>)"

definition decode_body ::
  "('k, 'r, 's) pipe_env \<Rightarrow> source_batch \<Rightarrow> 'r work list \<Rightarrow> 'r work \<Rightarrow> 'r work list \<Rightarrow>
   ('k, 'r, 's) pipe \<Rightarrow> ('k, 'r, 's) pipe" where
  "decode_body e batch xs u ys p =
     (case decode_one (pe_decoder e) (pe_options e) (so_id (pe_sink e)) batch (w_seq u) (pe_bp e)
             (p_budget p) (w_res u) of
        (Inl err, b, r) \<Rightarrow>
          (fail_unit err xs (u\<lparr>w_res := r\<rparr>) ys (p\<lparr>p_budget := b\<rparr>))\<lparr>p_decoders := p_decoders p - 1\<rparr>
      | (Inr (Live commit rng), b, r) \<Rightarrow>
          if p_writers p = 0
          then (fail_unit (ErrPipeline (SinkCommitLost (pe_source e) (w_seq u))) xs (u\<lparr>w_res := r\<rparr>) ys
                 (p\<lparr>p_budget := b\<rparr>))\<lparr>p_decoders := p_decoders p - 1\<rparr>
          else p\<lparr>p_budget := b, p_units := xs @ u\<lparr>w_state := CommitQueued commit rng, w_res := r\<rparr> # ys\<rparr>
      | (Inr (DryRun rng rows), b, r) \<Rightarrow>
          report_unit rng rows xs (u\<lparr>w_res := r\<rparr>) ys (p\<lparr>p_budget := b\<rparr>))"

definition write_body ::
  "('k, 'r, 's) pipe_env \<Rightarrow> (nat \<Rightarrow> abort_point) \<Rightarrow> 'r sink_commit \<Rightarrow> u64 \<times> u64 \<Rightarrow> 'r work list \<Rightarrow>
   'r work \<Rightarrow> 'r work list \<Rightarrow> ('k, 'r, 's) pipe \<Rightarrow> ('k, 'r, 's) pipe" where
  "write_body e abort commit rng xs u ys p =
     (let (attempt, s) = write_with_retry (pe_sink e) commit (pe_options e) abort (p_sink p);
          p1 = p\<lparr>p_sink := s\<rparr>
      in case wa_inner attempt of
           Inr (WroteCommitted result) \<Rightarrow> report_unit rng (rows_written result) xs u ys p1
         | Inr VerifiedAlreadyCommitted \<Rightarrow> report_unit rng 0 xs u ys p1
         | Inl err \<Rightarrow> (fail_unit err xs u ys p1)\<lparr>p_writers := p_writers p - 1\<rparr>)"

definition release_unit ::
  "'r work list \<Rightarrow> 'r work \<Rightarrow> 'r work list \<Rightarrow> ('k, 'r, 's) pipe \<Rightarrow> ('k, 'r, 's) pipe" where
  "release_unit xs u ys p =
     p\<lparr>p_budget := res_drop (p_budget p) (w_res u), p_permits := Suc (p_permits p),
       p_units := xs @ ys\<rparr>"

definition abort_unit ::
  "('k, 'r, 's) pipe_env \<Rightarrow> (nat \<Rightarrow> abort_point) \<Rightarrow> 'r work list \<Rightarrow> 'r work \<Rightarrow> 'r work list \<Rightarrow>
   ('k, 'r, 's) pipe \<Rightarrow> ('k, 'r, 's) pipe" where
  "abort_unit e abort xs u ys p =
     release_unit xs u ys
       (p\<lparr>p_sink :=
          (case w_state u of
             Writing commit rng \<Rightarrow> snd (write_with_retry (pe_sink e) commit (pe_options e) abort (p_sink p))
           | _ \<Rightarrow> p_sink p)\<rparr>)"

text \<open>A task that sends a completion waits until the channel has room for it.\<close>

definition fits :: "('k, 'r, 's) pipe_env \<Rightarrow> ('k, 'r, 's) pipe \<Rightarrow> bool" where
  "fits e p = (length (p_completions p) \<le> channel_depth e)"

definition result_of :: "runtime_error + unit \<Rightarrow> (runtime_error + unit) option" where
  "result_of r = (case r of Inl e \<Rightarrow> Some (Inl e) | Inr _ \<Rightarrow> None)"

inductive pipe_step :: "('k, 'r, 's) pipe_env \<Rightarrow> ('k, 'r, 's) pipe \<Rightarrow> ('k, 'r, 's) pipe \<Rightarrow> bool"
  for e :: "('k, 'r, 's) pipe_env" where
  shutdown:
    "p_result p = None \<Longrightarrow> admission_open (p_actor p) \<Longrightarrow>
       pipe_step e p (p\<lparr>p_actor := (p_actor p)\<lparr>admission_open := False\<rparr>\<rparr>)"
| admit:
    "p_result p = None \<Longrightarrow> admission_open (p_actor p) \<Longrightarrow>
       admission_attempt (pe_bp e) (p_budget p) (p_permits p) = Some (b, n, r) \<Longrightarrow>
       admission_arm (pe_ops e) (pe_options e) (pe_bp e) sends (p_actor p) b n r
         = (res, a', b', n', sent) \<Longrightarrow>
       pipe_step e p (p\<lparr>p_actor := a', p_budget := b', p_permits := n',
                         p_units := p_units p @ map queue_unit sent, p_result := result_of res\<rparr>)"
| complete:
    "p_result p = None \<Longrightarrow> 0 < act_in_flight (p_actor p) \<Longrightarrow>
       p_completions p = CompletionCommitted rng rows # rest \<Longrightarrow>
       completion_committed (pe_ops e) (pe_options e) rng rows (p_actor p) = (res, a') \<Longrightarrow>
       pipe_step e p (p\<lparr>p_actor := a', p_completions := rest, p_result := result_of res\<rparr>)"
| complete_fatal:
    "p_result p = None \<Longrightarrow> 0 < act_in_flight (p_actor p) \<Longrightarrow>
       p_completions p = CompletionFatal err # rest \<Longrightarrow>
       pipe_step e p (p\<lparr>p_completions := rest, p_result := Some (Inl err)\<rparr>)"
| workers_gone:
    "p_result p = None \<Longrightarrow> 0 < act_in_flight (p_actor p) \<Longrightarrow> p_completions p = [] \<Longrightarrow>
       p_fetchers p = 0 \<Longrightarrow> p_decoders p = 0 \<Longrightarrow> p_writers p = 0 \<Longrightarrow>
       pipe_step e p (p\<lparr>p_result := Some (Inl (ErrPipeline
         (WorkerExited (act_in_flight (p_actor p)) (pe_source e))))\<rparr>)"
| exit:
    "p_result p = None \<Longrightarrow> \<not> admission_open (p_actor p) \<Longrightarrow> act_in_flight (p_actor p) = 0 \<Longrightarrow>
       actor_exit (pe_ops e) (pe_options e) (p_actor p) = (res, a') \<Longrightarrow>
       pipe_step e p (p\<lparr>p_actor := a', p_result := Some res\<rparr>)"
| fetch_recv:
    "p_units p = xs @ u # ys \<Longrightarrow> w_state u = Queued d \<Longrightarrow>
       in_state is_fetching (p_units p) < p_fetchers p \<Longrightarrow>
       pipe_step e p (move_unit stage_fetch (Fetching d) xs u ys p)"
| fetch_done:
    "p_units p = xs @ u # ys \<Longrightarrow> w_state u = Fetching d \<Longrightarrow>
       fits e (fetch_body e d xs u ys p) \<Longrightarrow>
       pipe_step e p (fetch_body e d xs u ys p)"
| decode_recv:
    "p_units p = xs @ u # ys \<Longrightarrow> w_state u = Fetched batch \<Longrightarrow>
       in_state is_decoding (p_units p) < p_decoders p \<Longrightarrow>
       pipe_step e p (move_unit stage_decode (Decoding batch) xs u ys p)"
| decode_done:
    "p_units p = xs @ u # ys \<Longrightarrow> w_state u = Decoding batch \<Longrightarrow>
       fits e (decode_body e batch xs u ys p) \<Longrightarrow>
       pipe_step e p (decode_body e batch xs u ys p)"
| write_recv:
    "p_units p = xs @ u # ys \<Longrightarrow> w_state u = CommitQueued commit rng \<Longrightarrow>
       in_state is_writing (p_units p) < p_writers p \<Longrightarrow>
       pipe_step e p (move_unit stage_sink_dispatch (Writing commit rng) xs u ys p)"
| write_done:
    "p_units p = xs @ u # ys \<Longrightarrow> w_state u = Writing commit rng \<Longrightarrow>
       fits e (write_body e abort commit rng xs u ys p) \<Longrightarrow>
       pipe_step e p (write_body e abort commit rng xs u ys p)"
| release:
    "p_units p = xs @ u # ys \<Longrightarrow> w_state u = Releasing \<Longrightarrow>
       pipe_step e p (release_unit xs u ys p)"
| hard_abort:
    "p_result p = Some (Inl err) \<Longrightarrow> p_units p = xs @ u # ys \<Longrightarrow>
       pipe_step e p (abort_unit e abort xs u ys p)"

inductive pipe_reach ::
  "('k, 'r, 's) pipe_env \<Rightarrow> ('k, 'r, 's) pipe \<Rightarrow> ('k, 'r, 's) pipe \<Rightarrow> bool"
  for e :: "('k, 'r, 's) pipe_env" and p\<^sub>0 :: "('k, 'r, 's) pipe" where
  refl: "pipe_reach e p\<^sub>0 p\<^sub>0"
| step: "pipe_reach e p\<^sub>0 p \<Longrightarrow> pipe_step e p p' \<Longrightarrow> pipe_reach e p\<^sub>0 p'"

definition first_error :: "(runtime_error + unit) list \<Rightarrow> runtime_error + unit" where
  "first_error rs = foldl (\<lambda>acc r. if is_ok acc then r else acc) (Inr ()) rs"

definition join_result ::
  "runtime_error + unit \<Rightarrow> (runtime_error + unit) list \<Rightarrow> (runtime_error + unit) list \<Rightarrow>
   (runtime_error + unit) list \<Rightarrow> runtime_error + unit" where
  "join_result actor fetches decodes writers =
     (case actor of
        Inl e \<Rightarrow> Inl e
      | Inr _ \<Rightarrow>
          (case first_error fetches of
             Inl e \<Rightarrow> Inl e
           | Inr _ \<Rightarrow>
               (case first_error decodes of
                  Inl e \<Rightarrow> Inl e
                | Inr _ \<Rightarrow> first_error writers)))"

definition take_coordinator ::
  "source_id \<Rightarrow> ack_coordinators \<Rightarrow> runtime_error + ack_coordinator" where
  "take_coordinator source r =
     (case fst (acks_take r source) of None \<Rightarrow> Inl (ErrAck (NoCoordinator source)) | Some c \<Rightarrow> Inr c)"

definition emit_stage_inflight_gauges :: "budget \<Rightarrow> source_id \<Rightarrow> ((string \<times> source_id) \<times> int) list" where
  "emit_stage_inflight_gauges b source =
     map (\<lambda>(label, st). ((label, source), sint (stage_bytes b st)))
       [(''source'', stage_source), (''fetch'', stage_fetch), (''decode'', stage_decode),
        (''sink_dispatch'', stage_sink_dispatch)]"

text \<open>Bookkeeping: the units still on their way, and the sequences whose commit is reported.\<close>

definition is_live :: "'r work \<Rightarrow> bool" where
  "is_live u = (case w_state u of Releasing \<Rightarrow> False | _ \<Rightarrow> True)"

definition live_seqs :: "('k, 'r, 's) pipe \<Rightarrow> u64 list" where
  "live_seqs p = map w_seq (filter is_live (p_units p))"

definition reported_seqs :: "completion list \<Rightarrow> u64 list" where
  "reported_seqs cs =
     concat (map (\<lambda>c. case c of CompletionCommitted rng _ \<Rightarrow> [fst rng] | CompletionFatal _ \<Rightarrow> []) cs)"

definition no_fatal :: "completion list \<Rightarrow> bool" where
  "no_fatal cs = list_all (\<lambda>c. case c of CompletionCommitted _ _ \<Rightarrow> True | CompletionFatal _ \<Rightarrow> False) cs"

definition work_ok :: "'r work \<Rightarrow> bool" where
  "work_ok u =
     (case w_state u of
        CommitQueued c rng \<Rightarrow>
          rng = (w_seq u, w_seq u) \<and> ci_range (sc_identity c) = sequence_range_new (w_seq u) (w_seq u)
      | Writing c rng \<Rightarrow>
          rng = (w_seq u, w_seq u) \<and> ci_range (sc_identity c) = sequence_range_new (w_seq u) (w_seq u)
      | _ \<Rightarrow> True)"

definition completion_ok :: "completion \<Rightarrow> bool" where
  "completion_ok c = (case c of CompletionCommitted rng _ \<Rightarrow> fst rng = snd rng | CompletionFatal _ \<Rightarrow> True)"

definition ranges_inv :: "('k, 'r, 's) pipe \<Rightarrow> bool" where
  "ranges_inv p =
     (let qs = live_seqs p @ reported_seqs (p_completions p) in
      distinct qs \<and> seq_pairs qs \<subseteq> outstanding (coordinator (p_actor p)) \<and>
      (no_fatal (p_completions p) \<longrightarrow> outstanding (coordinator (p_actor p)) = seq_pairs qs))"

definition pipe_inv :: "('k, 'r, 's) pipe_env \<Rightarrow> u64 option \<Rightarrow> ('k, 'r, 's) pipe \<Rightarrow> bool" where
  "pipe_inv e base p =
     (actor_inv (pe_options e) base (p_actor p) \<and>
      gates_ok (p_budget p) (map w_res (p_units p)) \<and>
      p_permits p + length (p_units p) = channel_depth e \<and>
      length (p_completions p) \<le> channel_depth e \<and>
      list_all work_ok (p_units p) \<and> list_all completion_ok (p_completions p) \<and>
      (p_result p = None \<longrightarrow>
         ranges_inv p \<and>
         unat (act_in_flight (p_actor p)) = length (filter is_live (p_units p)) + length (p_completions p)))"

section \<open>Units that change state\<close>

lemma live_simps [simp]:
  "is_live (u\<lparr>w_state := Releasing\<rparr>) = False"
  "is_live (u\<lparr>w_res := r\<rparr>) = is_live u"
  "work_ok (u\<lparr>w_state := Releasing\<rparr>)"
  "work_ok (u\<lparr>w_res := r\<rparr>) = work_ok u"
  by (simp_all add: is_live_def work_ok_def split: work_state.split)

lemma gates_front:
  "gates_ok b (map w_res (xs @ u # ys)) \<longleftrightarrow> gates_ok b (w_res u # map w_res (xs @ ys))"
  by (metis (no_types, lifting) gates_ok_perm list.simps(9) map_append mset.simps(2) mset_append
      union_mset_add_mset_right)

lemma unit_gates:
  assumes "pipe_inv e base p" "p_units p = xs @ u # ys"
  shows "gates_ok (p_budget p) (w_res u # map w_res (xs @ ys))"
  using assms gates_front [of "p_budget p" xs u ys] by (simp add: pipe_inv_def)

lemma pipe_inv_frame [simp]:
  "pipe_inv e base (p\<lparr>p_sink := s\<rparr>) = pipe_inv e base p"
  "pipe_inv e base (p\<lparr>p_fetchers := n\<rparr>) = pipe_inv e base p"
  "pipe_inv e base (p\<lparr>p_decoders := n\<rparr>) = pipe_inv e base p"
  "pipe_inv e base (p\<lparr>p_writers := n\<rparr>) = pipe_inv e base p"
  by (simp_all add: pipe_inv_def ranges_inv_def live_seqs_def)

lemma keep_inv:
  assumes inv: "pipe_inv e base p" and us: "p_units p = xs @ u # ys" and live: "is_live u"
    and u': "is_live u'" "w_seq u' = w_seq u" "work_ok u'"
    and g: "gates_ok b' (w_res u' # map w_res (xs @ ys))"
  shows "pipe_inv e base (p\<lparr>p_budget := b', p_units := xs @ u' # ys\<rparr>)" (is "pipe_inv e base ?p")
proof -
  have "gates_ok b' (map w_res (xs @ u' # ys))"
    using g gates_front by blast
  moreover have "live_seqs ?p = live_seqs p"
    using us live u' by (simp add: live_seqs_def)
  then have "ranges_inv ?p = ranges_inv p"
    by (simp add: ranges_inv_def)
  ultimately show ?thesis
    using inv us live u' by (auto simp: pipe_inv_def)
qed

lemma reported_append [simp]:
  "reported_seqs (cs @ [CompletionCommitted rng rows]) = reported_seqs cs @ [fst rng]"
  "reported_seqs (cs @ [CompletionFatal err]) = reported_seqs cs"
  "no_fatal (cs @ [CompletionCommitted rng rows]) = no_fatal cs"
  "\<not> no_fatal (cs @ [CompletionFatal err])"
  by (simp_all add: reported_seqs_def no_fatal_def)

lemma reported_member:
  "CompletionCommitted rng rows \<in> set cs \<Longrightarrow> fst rng \<in> set (reported_seqs cs)"
  by (cases rng; induction cs) (auto simp: reported_seqs_def split: completion.splits)

lemma fail_inv:
  assumes inv: "pipe_inv e base p" and us: "p_units p = xs @ u # ys" and live: "is_live u"
    and room: "length (p_completions p) < channel_depth e"
  shows "pipe_inv e base (fail_unit err xs u ys p)" (is "pipe_inv e base ?p")
proof -
  have g: "gates_ok (p_budget ?p) (map w_res (p_units ?p))"
    using gates_ok_drop [OF unit_gates [OF inv us]] by (simp add: fail_unit_def)
  have "ranges_inv ?p" if "ranges_inv p"
    using that us live by (auto simp: ranges_inv_def live_seqs_def fail_unit_def Let_def)
  then show ?thesis
    using inv us live room g by (auto simp: pipe_inv_def fail_unit_def completion_ok_def)
qed

lemma report_inv:
  assumes inv: "pipe_inv e base p" and us: "p_units p = xs @ u # ys" and live: "is_live u"
    and rng: "rng = (w_seq u, w_seq u)" and room: "length (p_completions p) < channel_depth e"
  shows "pipe_inv e base (report_unit rng rows xs u ys p)" (is "pipe_inv e base ?p")
proof -
  have "ranges_inv ?p" if "ranges_inv p"
    using that us live rng by (auto simp: ranges_inv_def live_seqs_def report_unit_def Let_def)
  then show ?thesis
    using inv us live rng room by (auto simp: pipe_inv_def report_unit_def completion_ok_def)
qed

lemma release_inv:
  assumes inv: "pipe_inv e base p" and us: "p_units p = xs @ u # ys" and dead: "\<not> is_live u"
  shows "pipe_inv e base (release_unit xs u ys p)" (is "pipe_inv e base ?p")
proof -
  have g: "gates_ok (p_budget ?p) (map w_res (p_units ?p))"
    using gates_ok_drop [OF unit_gates [OF inv us]] by (simp add: release_unit_def)
  have "live_seqs ?p = live_seqs p"
    using us dead by (simp add: live_seqs_def release_unit_def)
  then have "ranges_inv ?p = ranges_inv p"
    by (simp add: ranges_inv_def release_unit_def)
  then show ?thesis
    using inv us dead g by (auto simp: pipe_inv_def release_unit_def)
qed

lemma abort_inv:
  assumes inv: "pipe_inv e base p" and us: "p_units p = xs @ u # ys" and over: "p_result p \<noteq> None"
  shows "pipe_inv e base (abort_unit e abort xs u ys p)"
  using inv us over gates_ok_drop [OF unit_gates [OF inv us]]
  by (auto simp: pipe_inv_def abort_unit_def release_unit_def)

lemma move_inv:
  assumes inv: "pipe_inv e base p" and us: "p_units p = xs @ u # ys" and live: "is_live u"
    and u': "is_live (u\<lparr>w_state := st\<rparr>)" "work_ok (u\<lparr>w_state := st\<rparr>)"
  shows "pipe_inv e base (move_unit k st xs u ys p)"
proof -
  obtain b' r' where at: "attach_stage k (p_budget p) (w_res u) = (b', r')" by fastforce
  have "gates_ok b' (r' # map w_res (xs @ ys))"
    using gates_ok_change [OF unit_gates [OF inv us], of "OpAttach k" b' r'] at by simp
  then show ?thesis
    using keep_inv [OF inv us live, of "u\<lparr>w_state := st, w_res := r'\<rparr>" b'] u' at
    by (simp add: move_unit_def)
qed

section \<open>The invariant holds in every reachable state\<close>

lemma work_ok_fresh [simp]:
  "w_state u = Fetched batch \<Longrightarrow> work_ok u" "w_state u = Queued d \<Longrightarrow> work_ok u"
  "w_state u = Fetching d \<Longrightarrow> work_ok u" "w_state u = Decoding batch \<Longrightarrow> work_ok u"
  by (simp_all add: work_ok_def)

lemma body_completions [simp]:
  "length (p_completions (fail_unit err xs u ys p)) = Suc (length (p_completions p))"
  "length (p_completions (report_unit rng rows xs u ys p)) = Suc (length (p_completions p))"
  "length (p_completions (write_body e abort c rng xs u ys p)) = Suc (length (p_completions p))"
  by (simp_all add: fail_unit_def report_unit_def write_body_def Let_def split: prod.split sum.split write_success.split)

lemma body_fits:
  assumes "length (p_completions p) < channel_depth e"
  shows "fits e (fetch_body e d xs u ys p)" "fits e (decode_body e batch xs u ys p)"
    "fits e (write_body e abort c rng xs u ys p)"
  using assms
  by (simp_all add: fits_def fetch_body_def decode_body_def split: sum.split prod.split decode_outcome.split)

lemma fetch_inv:
  assumes inv: "pipe_inv e base p" and us: "p_units p = xs @ u # ys" and st: "w_state u = Fetching d"
    and room: "fits e (fetch_body e d xs u ys p)"
  shows "pipe_inv e base (fetch_body e d xs u ys p)"
proof -
  have live: "is_live u" using st by (simp add: is_live_def)
  show ?thesis
  proof (cases "handle_fetch (pe_ops e) (source_fetch_handle (act_source (p_actor p))) d")
    case (Inl err)
    then show ?thesis using fail_inv [OF inv us live] room by (simp add: fetch_body_def fits_def)
  next
    case (Inr batch)
    have "pipe_inv e base (p\<lparr>p_budget := p_budget p, p_units := xs @ u\<lparr>w_state := Fetched batch\<rparr> # ys\<rparr>)"
      using unit_gates [OF inv us] by (intro keep_inv [OF inv us live]) (simp_all add: is_live_def)
    then show ?thesis
      using Inr fail_inv [OF inv us live] room by (auto simp: fetch_body_def fits_def split: if_splits)
  qed
qed

lemma pipe_inv_budget_res:
  assumes inv: "pipe_inv e base p" and us: "p_units p = xs @ u # ys" and live: "is_live u"
    and res: "reconcile n (p_budget p) (w_res u) = (b, r)"
  shows "pipe_inv e base (p\<lparr>p_budget := b, p_units := xs @ u\<lparr>w_res := r\<rparr> # ys\<rparr>)"
proof -
  have "gates_ok b (r # map w_res (xs @ ys))"
    using gates_ok_change [OF unit_gates [OF inv us], of "OpReconcile n" b r] res by simp
  moreover have "work_ok u"
    using inv us by (simp add: pipe_inv_def)
  ultimately show ?thesis
    using live by (intro keep_inv [OF inv us live]) simp_all
qed

lemma decode_inv:
  assumes inv: "pipe_inv e base p" and us: "p_units p = xs @ u # ys" and st: "w_state u = Decoding batch"
    and room: "fits e (decode_body e batch xs u ys p)"
  shows "pipe_inv e base (decode_body e batch xs u ys p)"
proof -
  have live: "is_live u" using st by (simp add: is_live_def)
  obtain res b r where run: "decode_one (pe_decoder e) (pe_options e) (so_id (pe_sink e)) batch (w_seq u)
      (pe_bp e) (p_budget p) (w_res u) = (res, b, r)"
    by (metis prod_cases3)
  show ?thesis
  proof (cases res)
    case (Inl err)
    then have "b = p_budget p" "r = w_res u"
      using run decode_one_error by blast+
    then show ?thesis
      using run Inl fail_inv [OF inv us live] room by (simp add: decode_body_def fits_def)
  next
    case (Inr out)
    then obtain d where d: "db_low_sequence d = w_seq u" "db_high_sequence d = w_seq u"
      "reconcile (actual_bytes d) (p_budget p) (w_res u) = (b, r)"
      "out = finish_decode (pe_options e) (so_id (pe_sink e)) d"
      using run by (auto elim!: decode_one_ok)
    note inv1 = pipe_inv_budget_res [OF inv us live d(3)]
    let ?p = "p\<lparr>p_budget := b, p_units := xs @ u\<lparr>w_res := r\<rparr> # ys\<rparr>"
    show ?thesis
    proof (cases "dry_run (pe_options e)")
      case True
      have "length (p_completions p) < channel_depth e"
        using room run Inr d True by (simp add: decode_body_def finish_decode_def Let_def fits_def)
      then have "pipe_inv e base (report_unit (w_seq u, w_seq u) rows xs (u\<lparr>w_res := r\<rparr>) ys ?p)" for rows
        using live by (intro report_inv [OF inv1]) simp_all
      then show ?thesis
        using run Inr d True by (simp add: decode_body_def finish_decode_def Let_def report_unit_def)
    next
      case False
      let ?c = "build_commit (so_id (pe_sink e)) (w_seq u) (w_seq u) d"
      have g: "gates_ok b (w_res (u\<lparr>w_res := r\<rparr>) # map w_res (xs @ ys))"
        using unit_gates [OF inv1, of xs "u\<lparr>w_res := r\<rparr>" ys] by simp
      have "pipe_inv e base (?p\<lparr>p_budget := b,
          p_units := xs @ u\<lparr>w_state := CommitQueued ?c (w_seq u, w_seq u), w_res := r\<rparr> # ys\<rparr>)"
        using live g
        by (intro keep_inv [OF inv1, of xs "u\<lparr>w_res := r\<rparr>" ys])
          (simp_all add: is_live_def work_ok_def build_commit_def)
      moreover have "pipe_inv e base (fail_unit err xs (u\<lparr>w_res := r\<rparr>) ys (p\<lparr>p_budget := b\<rparr>))"
        if "length (p_completions p) < channel_depth e" for err
        using fail_inv [OF inv1, of xs "u\<lparr>w_res := r\<rparr>" ys err] live that by (simp add: fail_unit_def)
      ultimately show ?thesis
        using run Inr d False room
        by (auto simp: decode_body_def finish_decode_def Let_def fits_def split: if_splits)
    qed
  qed
qed

lemma write_inv:
  assumes inv: "pipe_inv e base p" and us: "p_units p = xs @ u # ys" and st: "w_state u = Writing c rng"
    and room: "fits e (write_body e abort c rng xs u ys p)"
  shows "pipe_inv e base (write_body e abort c rng xs u ys p)"
proof -
  have live: "is_live u" using st by (simp add: is_live_def)
  have rng: "rng = (w_seq u, w_seq u)"
    using inv us st by (simp add: pipe_inv_def work_ok_def)
  have inv1: "pipe_inv e base (p\<lparr>p_sink := s\<rparr>)" for s
    using inv by simp
  show ?thesis
    using report_inv [OF inv1, where xs = xs and u = u and ys = ys and rng = rng]
      fail_inv [OF inv1, where xs = xs and u = u and ys = ys] us live rng room [unfolded fits_def]
    by (auto simp: write_body_def Let_def split: prod.splits sum.splits write_success.splits)
qed

lemma live_queue [simp]: "is_live (queue_unit dr)" "work_ok (queue_unit dr)"
  "w_seq (queue_unit dr) = sd_sequence (fst dr)" "w_res (queue_unit dr) = snd dr"
  by (simp_all add: is_live_def work_ok_def queue_unit_def)

lemma filter_live_queue [simp]: "filter is_live (map queue_unit sent) = map queue_unit sent"
  by (induction sent) auto

lemma depth_bound: "channel_depth e < 2 ^ 32"
  using unat_bound_len [of "max (max_inflight_batches (pe_bp e)) 1"]
  by (simp add: channel_depth_def option_max1_def)

lemma ranges_extend:
  assumes "distinct (L @ R)" "seq_pairs (L @ R) \<subseteq> out" "out \<inter> seq_pairs S = {}" "distinct S"
  shows "distinct ((L @ S) @ R)"
proof -
  have "x \<notin> set S" if "x \<in> set (L @ R)" for x
  proof
    assume "x \<in> set S"
    then have "(x, x) \<in> seq_pairs S" by simp
    moreover have "(x, x) \<in> seq_pairs (L @ R)" using that by simp
    ultimately show False using assms(2,3) by blast
  qed
  then show ?thesis using assms(1,4) by auto
qed

lemma ranges_inv_extend:
  assumes inv: "ranges_inv p" and live: "live_seqs p' = live_seqs p @ S"
    and same: "p_completions p' = p_completions p"
    and out: "outstanding (coordinator (p_actor p')) = outstanding (coordinator (p_actor p)) \<union> seq_pairs S"
    and new: "outstanding (coordinator (p_actor p)) \<inter> seq_pairs S = {}" "distinct S"
  shows "ranges_inv p'"
proof -
  obtain qs where qs: "qs = live_seqs p @ reported_seqs (p_completions p)" by blast
  have i: "distinct qs" "seq_pairs qs \<subseteq> outstanding (coordinator (p_actor p))"
    "no_fatal (p_completions p) \<longrightarrow> outstanding (coordinator (p_actor p)) = seq_pairs qs"
    using inv by (simp_all add: ranges_inv_def qs)
  have eq: "seq_pairs ((live_seqs p @ S) @ reported_seqs (p_completions p)) = seq_pairs qs \<union> seq_pairs S"
    by (auto simp: qs)
  have "distinct ((live_seqs p @ S) @ reported_seqs (p_completions p))"
    by (rule ranges_extend [OF i(1) [unfolded qs] i(2) [unfolded qs] new])
  then show ?thesis
    unfolding ranges_inv_def Let_def live same out eq using i(2,3) by blast
qed

lemma admit_inv:
  assumes inv: "pipe_inv e base p" and run: "p_result p = None" and ops: "consumer_bounded (pe_ops e)"
    and att: "admission_attempt (pe_bp e) (p_budget p) (p_permits p) = Some (b, n, r)"
    and arm: "admission_arm (pe_ops e) (pe_options e) (pe_bp e) sends (p_actor p) b n r = (res, a', b', n', sent)"
  shows "pipe_inv e base (p\<lparr>p_actor := a', p_budget := b', p_permits := n',
           p_units := p_units p @ map queue_unit sent, p_result := result_of res\<rparr>)" (is "pipe_inv e base ?p")
proof -
  let ?rs = "map w_res (p_units p)"
  have n: "Suc n = p_permits p" and rsv: "reserve (p_budget p) (estimated_max_batch_bytes (pe_bp e)) = Some (b, r)"
    using att by (auto simp: admission_attempt_def split: if_splits option.splits)
  have "gates_ok b (r # ?rs)"
    using gates_ok_admit [of "p_budget p" ?rs] inv rsv by (auto simp: pipe_inv_def)
  note f = admission_arm_facts [OF arm this _ ops, of base]
  have f: "gates_ok b' (map snd sent @ ?rs)" "n' + length sent = n + 1" "actor_inv (pe_options e) base a'"
    "res = Inr () \<longrightarrow> admitted_ok (p_actor p) a' sent"
    using f inv by (simp_all add: pipe_inv_def)
  have g: "gates_ok b' (map w_res (p_units ?p))"
    by (rule gates_ok_perm [OF f(1)]) (simp add: comp_def)
  have "ranges_inv ?p \<and> unat (act_in_flight a') = length (filter is_live (p_units ?p)) + length (p_completions p)"
    if res: "res = Inr ()"
  proof -
    note ad = f(4) [rule_format, OF res, unfolded admitted_ok_def]
    have seqs: "live_seqs ?p = live_seqs p @ map (sd_sequence \<circ> fst) sent"
      by (simp add: live_seqs_def comp_def)
    have old: "ranges_inv p" "unat (act_in_flight (p_actor p)) = length (filter is_live (p_units p)) + length (p_completions p)"
      using inv run by (simp_all add: pipe_inv_def)
    have "length (filter is_live (p_units p)) + length sent + length (p_completions p) \<le> 2 * channel_depth e"
      using inv n f(2) length_filter_le [of is_live "p_units p"] unfolding pipe_inv_def by linarith
    then have "unat (act_in_flight (p_actor p)) + length sent < 2 ^ 64"
      using old(2) depth_bound [of e] by simp
    moreover have "ranges_inv ?p"
      using ad by (intro ranges_inv_extend [OF old(1) seqs]) simp_all
    ultimately show ?thesis
      using ad old(2) by simp
  qed
  then show ?thesis
    using inv f g n by (auto simp: pipe_inv_def result_of_def list.pred_map comp_def list.pred_True
        split: sum.splits)
qed

lemma complete_inv:
  assumes inv: "pipe_inv e base p" and run: "p_result p = None" and pos: "0 < act_in_flight (p_actor p)"
    and cs: "p_completions p = CompletionCommitted rng rows # rest"
    and com: "completion_committed (pe_ops e) (pe_options e) rng rows (p_actor p) = (res, a')"
  shows "pipe_inv e base (p\<lparr>p_actor := a', p_completions := rest, p_result := result_of res\<rparr>)"
    (is "pipe_inv e base ?p")
    and "rng \<in> outstanding (coordinator (p_actor p))" "fst rng = snd rng"
proof -
  have ai: "actor_inv (pe_options e) base (p_actor p)" and ri: "ranges_inv p"
    and fl: "unat (act_in_flight (p_actor p)) = length (filter is_live (p_units p)) + length (p_completions p)"
    using inv run by (simp_all add: pipe_inv_def)
  show eq: "fst rng = snd rng"
    using inv cs by (simp add: pipe_inv_def completion_ok_def)
  then show out: "rng \<in> outstanding (coordinator (p_actor p))"
    using ri cs by (cases rng) (auto simp: ranges_inv_def Let_def reported_seqs_def)
  note cf = completion_facts [OF ai out com]
  have "outstanding (coordinator a') = outstanding (coordinator (p_actor p)) - {rng}"
    using ack.com_outst [OF _ cf(2)] ai by (simp add: actor_inv_def)
  moreover have "live_seqs ?p = live_seqs p" by (simp add: live_seqs_def)
  moreover have "reported_seqs (p_completions p) = fst rng # reported_seqs rest"
    "no_fatal (p_completions p) = no_fatal rest"
    by (simp_all add: cs reported_seqs_def no_fatal_def)
  ultimately have "ranges_inv ?p"
    using ri eq by (cases rng) (auto simp: ranges_inv_def Let_def seq_pairs_def)
  moreover have "unat (act_in_flight a') = length (filter is_live (p_units p)) + length rest"
    using cf(3) fl cs unat_minus_one [of "act_in_flight (p_actor p)"] pos by auto
  ultimately show "pipe_inv e base ?p"
    using inv cf(1) cs by (auto simp: pipe_inv_def)
qed

lemma actor_inv_cong:
  "actor_inv opts base a \<Longrightarrow> coordinator a' = coordinator a \<Longrightarrow>
     ack_through_recorder a' = ack_through_recorder a \<Longrightarrow> last_ack_sent a' = last_ack_sent a \<Longrightarrow>
     last_acked (act_source a') = last_acked (act_source a) \<Longrightarrow> actor_inv opts base a'"
  by (auto simp: actor_inv_def ack_log_inv_def split: option.splits)

lemma exit_facts:
  assumes "actor_exit ops opts a = (res, a')"
  shows "coordinator a' = coordinator a" "ack_through_recorder a' = ack_through_recorder a"
    "last_ack_sent a' = last_ack_sent a" "last_acked (act_source a') = last_acked (act_source a)"
    "act_in_flight a' = act_in_flight a"
    "\<not> dry_run opts \<Longrightarrow> res = Inr () \<Longrightarrow> pending_durable_ack (act_source a') = None"
  using assms flush_last_acked [of ops "act_source a"]
  by (auto simp: actor_exit_def Let_def flush_acks_def
      split: if_splits sum.splits prod.splits option.splits)

lemma exit_actor_inv:
  assumes "actor_exit ops opts a = (res, a')" "actor_inv opts base a"
  shows "actor_inv opts base a'"
  by (rule actor_inv_cong [OF assms(2) exit_facts(1-4) [OF assms(1)]])

lemma pipe_inv_result:
  "pipe_inv e base p \<Longrightarrow> actor_inv (pe_options e) base a \<Longrightarrow>
     pipe_inv e base (p\<lparr>p_actor := a, p_result := Some r\<rparr>)"
  by (simp add: pipe_inv_def)

lemma pipe_step_inv:
  assumes inv: "pipe_inv e base p" and ops: "consumer_bounded (pe_ops e)" and step: "pipe_step e p p'"
  shows "pipe_inv e base p'"
  using step
proof (cases rule: pipe_step.cases)
  case shutdown
  have "actor_inv (pe_options e) base ((p_actor p)\<lparr>admission_open := False\<rparr>)"
    using inv by (auto simp: pipe_inv_def actor_inv_def ack_log_inv_def cong: option.case_cong)
  then show ?thesis
    using shutdown inv by (simp add: pipe_inv_def ranges_inv_def live_seqs_def)
next
  case (admit b n r sends res a' b' n' sent)
  then show ?thesis using admit_inv [OF inv _ ops] by blast
next
  case (complete rng rows rest res a')
  then show ?thesis using complete_inv(1) [OF inv] by blast
next
  case (complete_fatal err rest)
  then show ?thesis using inv by (simp add: pipe_inv_def)
next
  case workers_gone
  then show ?thesis using inv by (simp add: pipe_inv_def)
next
  case (exit res a')
  then show ?thesis
    using inv pipe_inv_result [OF inv exit_actor_inv, of "pe_ops e" "p_actor p" res a' res]
    by (simp add: pipe_inv_def)
next
  case (fetch_recv xs u ys d)
  then show ?thesis by (auto intro!: move_inv [OF inv] simp: is_live_def)
next
  case (fetch_done xs u ys d)
  then show ?thesis using fetch_inv [OF inv] by blast
next
  case (decode_recv xs u ys batch)
  then show ?thesis by (auto intro!: move_inv [OF inv] simp: is_live_def)
next
  case (decode_done xs u ys batch)
  then show ?thesis using decode_inv [OF inv] by blast
next
  case (write_recv xs u ys commit rng)
  moreover have "work_ok u" using inv write_recv by (simp add: pipe_inv_def)
  ultimately show ?thesis by (auto intro!: move_inv [OF inv] simp: is_live_def work_ok_def)
next
  case (write_done xs u ys commit rng abort)
  then show ?thesis using write_inv [OF inv] by blast
next
  case (release xs u ys)
  then show ?thesis using release_inv [OF inv] by (auto simp: is_live_def)
next
  case (hard_abort err xs u ys abort)
  then show ?thesis using abort_inv [OF inv] by simp
qed

lemma pipe_start_inv:
  assumes "last_acked src \<noteq> Some (- 1)"
  shows "pipe_inv e (last_acked src) (pipe_start e src (ack_new i (last_acked src)) s)"
  using actor_inv_start [OF assms]
  by (simp add: pipe_inv_def pipe_start_def gates_ok_iff budget_new_def ranges_inv_def live_seqs_def
      reported_seqs_def actor_start_def ack_new_def outstanding_def)

lemma pipe_reach_inv:
  "pipe_reach e p0 p \<Longrightarrow> pipe_inv e base p0 \<Longrightarrow> consumer_bounded (pe_ops e) \<Longrightarrow> pipe_inv e base p"
  by (induction rule: pipe_reach.induct) (auto intro: pipe_step_inv)

section \<open>Draining\<close>

definition exit_inv :: "('k, 'r, 's) pipe_env \<Rightarrow> u64 option \<Rightarrow> ('k, 'r, 's) pipe \<Rightarrow> bool" where
  "exit_inv e base p =
     (p_result p = Some (Inr ()) \<longrightarrow>
        pending (coordinator (p_actor p)) = [] \<and>
        frontier (coordinator (p_actor p)) = last_registered_high (coordinator (p_actor p)) \<and>
        (\<not> dry_run (pe_options e) \<longrightarrow>
           pending_durable_ack (act_source (p_actor p)) = None \<and>
           last_acked (act_source (p_actor p)) =
             (case last_registered_high (coordinator (p_actor p)) of None \<Rightarrow> base | Some h \<Rightarrow> Some h)))"

lemma worker_step_same:
  "p_actor (move_unit k st xs u ys p) = p_actor p" "p_result (move_unit k st xs u ys p) = p_result p"
  "p_actor (fail_unit err xs u ys p) = p_actor p" "p_result (fail_unit err xs u ys p) = p_result p"
  "p_actor (report_unit rng rows xs u ys p) = p_actor p" "p_result (report_unit rng rows xs u ys p) = p_result p"
  "p_actor (release_unit xs u ys p) = p_actor p" "p_result (release_unit xs u ys p) = p_result p"
  "p_actor (abort_unit e abort xs u ys p) = p_actor p" "p_result (abort_unit e abort xs u ys p) = p_result p"
  by (simp_all add: move_unit_def fail_unit_def report_unit_def release_unit_def abort_unit_def split: prod.split)

lemma body_step_same:
  "p_actor (fetch_body e d xs u ys p) = p_actor p" "p_result (fetch_body e d xs u ys p) = p_result p"
  "p_actor (decode_body e batch xs u ys p) = p_actor p" "p_result (decode_body e batch xs u ys p) = p_result p"
  "p_actor (write_body e abort c rng xs u ys p) = p_actor p"
  "p_result (write_body e abort c rng xs u ys p) = p_result p"
  by (simp_all add: fetch_body_def decode_body_def write_body_def worker_step_same Let_def
      split: prod.split sum.split decode_outcome.split write_success.split)

lemmas worker_same = worker_step_same body_step_same

lemma exit_step:
  assumes inv: "pipe_inv e base p" and run: "p_result p = None"
    and idle: "act_in_flight (p_actor p) = 0"
    and ex: "actor_exit (pe_ops e) (pe_options e) (p_actor p) = (res, a')"
  shows "exit_inv e base (p\<lparr>p_actor := a', p_result := Some res\<rparr>)"
proof -
  let ?c = "coordinator (p_actor p)"
  have none: "p_completions p = []" "filter is_live (p_units p) = []" and ri: "ranges_inv p"
    and ai: "actor_inv (pe_options e) base (p_actor p)"
    using inv run idle by (simp_all add: pipe_inv_def)
  have "outstanding ?c = {}"
    using ri none by (simp add: ranges_inv_def live_seqs_def reported_seqs_def no_fatal_def)
  then have d: "pending ?c = []" "frontier ?c = last_registered_high ?c"
    using drained ai by (auto simp: actor_inv_def)
  moreover have "last_acked (act_source (p_actor p)) =
      (case last_registered_high ?c of None \<Rightarrow> base | Some h \<Rightarrow> Some h)" if "\<not> dry_run (pe_options e)"
    using ai that d(2) by (auto simp: actor_inv_def ack_log_inv_def split: option.splits)
  ultimately show ?thesis
    using exit_facts [OF ex] by (simp add: exit_inv_def)
qed

lemma exit_inv_step:
  assumes inv: "pipe_inv e base p" "exit_inv e base p" and step: "pipe_step e p p'"
  shows "exit_inv e base p'"
  using step
proof (cases rule: pipe_step.cases)
  case (exit res a')
  then show ?thesis using exit_step [OF inv(1)] by blast
qed (use inv(2) in \<open>auto simp: exit_inv_def result_of_def worker_same split: sum.splits\<close>)

section \<open>Stages\<close>

text \<open>The stage a unit's bytes are counted under; a unit being released keeps its last stage.\<close>

definition stage_ok :: "'r work \<Rightarrow> bool" where
  "stage_ok u =
     (case w_state u of
        Queued _ \<Rightarrow> stage (w_res u) = Some stage_source
      | Fetching _ \<Rightarrow> stage (w_res u) = Some stage_fetch
      | Fetched _ \<Rightarrow> stage (w_res u) = Some stage_fetch
      | Decoding _ \<Rightarrow> stage (w_res u) = Some stage_decode
      | CommitQueued _ _ \<Rightarrow> stage (w_res u) = Some stage_decode
      | Writing _ _ \<Rightarrow> stage (w_res u) = Some stage_sink_dispatch
      | Releasing \<Rightarrow> stage (w_res u) \<in> {Some stage_decode, Some stage_sink_dispatch})"

lemmas stage_defs = stage_source_def stage_fetch_def stage_decode_def stage_sink_dispatch_def

lemma reconcile_stage: "reconcile n b r = (b', r') \<Longrightarrow> stage r' = stage r"
  by (auto simp: reconcile_def Let_def split: if_splits)

lemma move_stages:
  "list_all stage_ok (xs @ ys) \<Longrightarrow> (\<And>r. stage r = Some k \<Longrightarrow> stage_ok (u\<lparr>w_state := st, w_res := r\<rparr>)) \<Longrightarrow>
     list_all stage_ok (p_units (move_unit k st xs u ys p))"
  by (auto simp: move_unit_def dest: attach_stage_stage split: prod.split)

lemma decode_stages:
  assumes "list_all stage_ok (xs @ u # ys)" "w_state u = Decoding batch"
  shows "list_all stage_ok (p_units (decode_body e batch xs u ys p))"
proof -
  obtain res b r where run: "decode_one (pe_decoder e) (pe_options e) (so_id (pe_sink e)) batch (w_seq u)
      (pe_bp e) (p_budget p) (w_res u) = (res, b, r)"
    by (metis prod_cases3)
  have "stage r = Some stage_decode" if "res = Inr out" for out
    using run that assms by (auto elim!: decode_one_ok simp: stage_ok_def dest!: reconcile_stage)
  then show ?thesis
    using assms run
    by (auto simp: decode_body_def fail_unit_def report_unit_def stage_ok_def split: sum.split decode_outcome.split)
qed

lemma stages_step:
  assumes inv: "list_all stage_ok (p_units p)" and step: "pipe_step e p p'"
  shows "list_all stage_ok (p_units p')"
  using step
proof (cases rule: pipe_step.cases)
  case (admit b n r sends res a' b' n' sent)
  then show ?thesis
    using inv admission_arm_stages [OF admit(5)]
    by (auto simp: list_all_iff stage_ok_def queue_unit_def)
next
  case (fetch_recv xs u ys d)
  then show ?thesis using inv by (auto intro!: move_stages simp: stage_ok_def)
next
  case (decode_recv xs u ys batch)
  then show ?thesis using inv by (auto intro!: move_stages simp: stage_ok_def)
next
  case (write_recv xs u ys commit rng)
  then show ?thesis using inv by (auto intro!: move_stages simp: stage_ok_def)
next
  case (decode_done xs u ys batch)
  then show ?thesis using inv decode_stages by metis
next
  case (fetch_done xs u ys d)
  then show ?thesis
    using inv by (auto simp: fetch_body_def fail_unit_def stage_ok_def split: sum.split)
next
  case (write_done xs u ys commit rng abort)
  then show ?thesis
    using inv
    by (auto simp: write_body_def report_unit_def fail_unit_def stage_ok_def Let_def
        split: prod.split sum.split write_success.split)
qed (use inv in \<open>auto simp: release_unit_def abort_unit_def\<close>)

lemma stages_reach:
  assumes "pipe_reach e (pipe_start e src c s) p"
  shows "list_all stage_ok (p_units p)"
  using assms by (induction rule: pipe_reach.induct) (auto simp: pipe_start_def intro: stages_step)

lemma stage_parts_held:
  assumes "list_all stage_ok us"
  shows "sum_list (map (held \<circ> w_res) us) =
    sum_list (map (\<lambda>k. sum_list (map (stage_part k \<circ> w_res) us))
      [stage_source, stage_fetch, stage_decode, stage_sink_dispatch])"
  using assms
proof (induction us)
  case (Cons u us)
  then have "held (w_res u) = sum_list (map (\<lambda>k. stage_part k (w_res u))
      [stage_source, stage_fetch, stage_decode, stage_sink_dispatch])"
    by (cases "w_state u") (auto simp: stage_ok_def stage_part_def stage_defs)
  then show ?case using Cons by (simp add: algebra_simps)
qed simp

text \<open>
  C17. Resources are accounted for in every reachable state, whatever the decoder, the sink and the
  interleaving: permits and units add up to the channel depth, so a send between stages never finds
  its channel full; the budget's in-flight bytes and every stage gauge are what the units hold, and
  the four gauges that are emitted add up to the in-flight bytes, also between two quiescent states; and
  while the actor runs, its in-flight counter is the number of units on their way plus the unread
  completions, the sequences of those are distinct, and each is outstanding at the coordinator, so
  that no commit report is ever refused.
\<close>

theorem pipeline_accounting:
  assumes base: "last_acked src \<noteq> Some (- 1)" and ops: "consumer_bounded (pe_ops e)"
    and reach: "pipe_reach e (pipe_start e src (ack_new (pe_source e) (last_acked src)) s) p"
  shows "p_permits p + length (p_units p) = channel_depth e
    \<and> in_flight (p_budget p) = sum_list (map (held \<circ> w_res) (p_units p))
    \<and> (\<forall>k. stage_bytes (p_budget p) k = sum_list (map (stage_part k \<circ> w_res) (p_units p)))
    \<and> in_flight (p_budget p) = sum_list (map (word_of_int \<circ> snd) (emit_stage_inflight_gauges (p_budget p) (pe_source e)))
    \<and> (p_result p = None \<longrightarrow>
         unat (act_in_flight (p_actor p)) = length (filter is_live (p_units p)) + length (p_completions p)
         \<and> distinct (live_seqs p @ reported_seqs (p_completions p))
         \<and> (\<forall>rng rows. CompletionCommitted rng rows \<in> set (p_completions p) \<longrightarrow>
              is_ok (mark_committed (coordinator (p_actor p)) (fst rng) (snd rng))))"
proof -
  note inv = pipe_reach_inv [OF reach pipe_start_inv [OF base] ops]
  have "is_ok (mark_committed (coordinator (p_actor p)) (fst rng) (snd rng))"
    if "p_result p = None" "CompletionCommitted rng rows \<in> set (p_completions p)" for rng rows
  proof -
    have "list_all completion_ok (p_completions p)"
      using inv by (simp add: pipe_inv_def)
    then have "fst rng = snd rng" "fst rng \<in> set (reported_seqs (p_completions p))"
      using that(2) reported_member by (auto simp: list_all_iff completion_ok_def)
    then have "(fst rng, snd rng) \<in> outstanding (coordinator (p_actor p))"
      using inv that(1) by (auto simp: pipe_inv_def ranges_inv_def Let_def)
    moreover have "coord_inv (coordinator (p_actor p))"
      using inv by (simp add: pipe_inv_def actor_inv_def)
    ultimately show ?thesis
      by (cases rng) (auto simp: outstanding_iff mark_committed_def)
  qed
  moreover have "in_flight (p_budget p) =
      sum_list (map (word_of_int \<circ> snd) (emit_stage_inflight_gauges (p_budget p) (pe_source e)))"
    using inv stage_parts_held [OF stages_reach [OF reach]]
    by (simp add: emit_stage_inflight_gauges_def pipe_inv_def gates_ok_iff)
  ultimately show ?thesis
    using inv by (simp add: pipe_inv_def gates_ok_iff ranges_inv_def Let_def)
qed

definition example_ops :: "nat consumer_ops" where
  "example_ops =
     \<lparr>co_next_descriptors =
        (\<lambda>n k. (Inr (if k = 0 \<and> 0 < n then [\<lparr>bd_sequence = 7, bd_location = ''obj'', bd_metadata = []\<rparr>] else []),
                Suc k)),
      co_ack_through = (\<lambda>q k. (Inr (), k)), co_len = (\<lambda>k. 0),
      co_fetch = (\<lambda>d. Inr \<lparr>cb_entries = [], cb_sequence = bd_sequence d, cb_location = bd_location d,
                              cb_metadata = []\<rparr>)\<rparr>"

definition example_env :: "(nat, unit, nat) pipe_env" where
  "example_env =
     \<lparr>pe_ops = example_ops,
      pe_decoder = \<lparr>dec_accepts = (\<lambda>m. True),
                    dec_decode = (\<lambda>b. Inr [(sc_batch example_commit)\<lparr>db_low_sequence := sb_sequence b,
                                            db_high_sequence := sb_sequence b\<rparr>])\<rparr>,
      pe_sink = flaky_sink, pe_options = runtime_options_default\<lparr>dry_run := False\<rparr>,
      pe_source = SourceId ''s''\<rparr>"

definition example_source :: "nat buffer_source" where
  "example_source = source_new 0 (SourceId ''s'') ''m'' None"

definition example_start :: "(nat, unit, nat) pipe" where
  "example_start =
     pipe_start example_env example_source (ack_new (pe_source example_env) (last_acked example_source)) 0"

lemma example_bounded: "consumer_bounded (pe_ops example_env)"
  by (auto simp: consumer_bounded_def example_env_def example_ops_def)

lemma example_base: "last_acked example_source \<noteq> Some (- 1)"
  by (simp add: example_source_def source_new_def)

lemma example_exit:
  "\<exists>p. pipe_reach example_env example_start p \<and> p_result p = Some (Inr ())"
proof -
  let ?p1 = "example_start\<lparr>p_actor := (p_actor example_start)\<lparr>admission_open := False\<rparr>\<rparr>"
  have open1: "p_result example_start = None" "admission_open (p_actor example_start)"
    "act_in_flight (p_actor example_start) = 0"
    by (simp_all add: example_start_def pipe_start_def actor_start_def)
  obtain res a' where ex: "actor_exit (pe_ops example_env) (pe_options example_env) (p_actor ?p1) = (res, a')"
    by fastforce
  then have "res = Inr ()"
    by (auto simp: actor_exit_def flush_acks_def example_start_def pipe_start_def actor_start_def
        example_source_def source_new_def Let_def split: if_splits)
  have "pipe_step example_env ?p1 (?p1\<lparr>p_actor := a', p_result := Some res\<rparr>)"
    using open1 ex by (intro pipe_step.exit) simp_all
  then have "pipe_reach example_env example_start (?p1\<lparr>p_actor := a', p_result := Some res\<rparr>)"
    by (rule pipe_reach.step [OF pipe_reach.step [OF pipe_reach.refl pipe_step.shutdown [OF open1(1,2)]]])
  then show ?thesis
    using \<open>res = Inr ()\<close> by (metis pipe.select_convs(7) pipe.surjective pipe.update_convs(7))
qed

theorem pipeline_accounting_witness:
  "p_permits example_start + length (p_units example_start) = channel_depth example_env
   \<and> in_flight (p_budget example_start) = 0"
  using pipeline_accounting [OF example_base example_bounded, of 0 example_start]
    pipe_reach.refl [of example_env example_start]
  by (simp add: example_start_def pipe_start_def)

text \<open>
  C18. A graceful shutdown drains completely: if the actor returns \<open>Ok\<close>, every admitted range has
  been committed and popped, the frontier is the last admitted sequence, and outside dry-run the
  source has acknowledged exactly that sequence and flushed it, with nothing left to flush.
\<close>

theorem clean_exit_drains:
  assumes base: "last_acked src \<noteq> Some (- 1)" and ops: "consumer_bounded (pe_ops e)"
    and reach: "pipe_reach e (pipe_start e src (ack_new (pe_source e) (last_acked src)) s) p"
    and ok: "p_result p = Some (Inr ())"
  shows "pending (coordinator (p_actor p)) = []
    \<and> frontier (coordinator (p_actor p)) = last_registered_high (coordinator (p_actor p))
    \<and> (\<not> dry_run (pe_options e) \<longrightarrow>
         pending_durable_ack (act_source (p_actor p)) = None
         \<and> last_acked (act_source (p_actor p)) =
             (case last_registered_high (coordinator (p_actor p)) of
                None \<Rightarrow> last_acked src | Some h \<Rightarrow> Some h))"
proof -
  let ?p0 = "pipe_start e src (ack_new (pe_source e) (last_acked src)) s"
  have "pipe_inv e (last_acked src) p \<and> exit_inv e (last_acked src) p"
    using reach
  proof (induction rule: pipe_reach.induct)
    case refl
    then show ?case using pipe_start_inv [OF base] by (simp add: exit_inv_def pipe_start_def)
  next
    case (step p p')
    then show ?case using pipe_step_inv [OF _ ops] exit_inv_step by blast
  qed
  then show ?thesis using ok by (simp add: exit_inv_def)
qed

theorem clean_exit_drains_witness:
  "\<exists>p. pipe_reach example_env example_start p \<and> p_result p = Some (Inr ())
     \<and> pending (coordinator (p_actor p)) = [] \<and> pending_durable_ack (act_source (p_actor p)) = None"
proof -
  obtain p where p: "pipe_reach example_env example_start p" "p_result p = Some (Inr ())"
    using example_exit by blast
  have "\<not> dry_run (pe_options example_env)"
    by (simp add: example_env_def)
  then show ?thesis
    using clean_exit_drains [OF example_base example_bounded p(1) [unfolded example_start_def] p(2)] p
    by blast
qed

section \<open>Acknowledged means durable\<close>

text \<open>
  Where the data of a unit come from: the batch was fetched from the consumer for a descriptor of the
  unit's sequence, and the commit is built from what the decoder made of that batch.
\<close>

definition fetched :: "('k, 'r, 's) pipe_env \<Rightarrow> u64 \<Rightarrow> source_batch \<Rightarrow> bool" where
  "fetched e q batch \<longleftrightarrow> (\<exists>h d. sd_sequence d = q \<and> handle_fetch (pe_ops e) h d = Inr batch)"

definition decoded_commit :: "('k, 'r, 's) pipe_env \<Rightarrow> u64 \<Rightarrow> 'r sink_commit \<Rightarrow> bool" where
  "decoded_commit e q c \<longleftrightarrow>
     (\<exists>batch d. fetched e q batch \<and> dec_decode (pe_decoder e) batch = Inr [d] \<and> db_low_sequence d = q \<and>
        db_high_sequence d = q \<and> c = build_commit (so_id (pe_sink e)) q q d)"

definition commits_decoded :: "('k, 'r, 's) pipe_env \<Rightarrow> 'r work \<Rightarrow> bool" where
  "commits_decoded e u =
     (case w_state u of
        Queued d \<Rightarrow> sd_sequence d = w_seq u
      | Fetching d \<Rightarrow> sd_sequence d = w_seq u
      | Fetched batch \<Rightarrow> fetched e (w_seq u) batch
      | Decoding batch \<Rightarrow> fetched e (w_seq u) batch
      | CommitQueued c _ \<Rightarrow> decoded_commit e (w_seq u) c
      | Writing c _ \<Rightarrow> decoded_commit e (w_seq u) c
      | Releasing \<Rightarrow> True)"

context sink_contract
begin

definition dur :: "('k, 'r, 's) pipe_env \<Rightarrow> 's \<Rightarrow> u64 \<Rightarrow> bool" where
  "dur e s q \<longleftrightarrow> (\<exists>c. decoded_commit e q c \<and> durable c s)"

definition dur_inv :: "('k, 'r, 's) pipe_env \<Rightarrow> ('k, 'r, 's) pipe \<Rightarrow> bool" where
  "dur_inv e p \<longleftrightarrow>
     list_all (commits_decoded e) (p_units p) \<and>
     (\<not> dry_run (pe_options e) \<longrightarrow>
        (\<forall>q\<in>set (reported_seqs (p_completions p)). dur e (p_sink p) q) \<and>
        (\<forall>n\<in>committed_seqs (coordinator (p_actor p)). dur e (p_sink p) (word_of_nat n)))"

lemma dur_retry:
  "dur e s q \<Longrightarrow> write_with_retry sink c opts abort s = (w, s') \<Longrightarrow> dur e s' q"
  using retry_keeps_durable unfolding dur_def by blast

lemma dur_abort:
  "dur e s q \<Longrightarrow> pe_sink e = sink \<Longrightarrow> dur e (snd (write_with_retry (pe_sink e) c opts abort s)) q"
  by (rule dur_retry [where c = c and opts = opts and abort = abort]) (simp_all add: prod_eq_iff)

lemma dur_crew [simp]: "dur_inv e (p\<lparr>p_writers := n\<rparr>) = dur_inv e p"
  by (simp add: dur_inv_def)

lemma dur_units:
  assumes inv: "dur_inv e p" and us: "p_units p = xs @ u # ys"
    and u': "commits_decoded e u'" and same: "p_actor p' = p_actor p" "p_completions p' = p_completions p"
      "p_sink p' = p_sink p" "p_units p' = xs @ u' # ys"
  shows "dur_inv e p'"
  using inv us u' same by (simp add: dur_inv_def)

lemma dur_fail:
  assumes "dur_inv e p" "p_units p = xs @ u # ys"
  shows "dur_inv e (fail_unit err xs u' ys p)"
  using assms by (simp add: dur_inv_def fail_unit_def)

lemma dur_move:
  assumes inv: "dur_inv e p" "p_units p = xs @ u # ys" and st: "commits_decoded e (u\<lparr>w_state := st\<rparr>)"
  shows "dur_inv e (move_unit k st xs u ys p)"
proof -
  obtain b r where at: "attach_stage k (p_budget p) (w_res u) = (b, r)" by fastforce
  have "commits_decoded e (u\<lparr>w_state := st, w_res := r\<rparr>)"
    using st by (simp add: commits_decoded_def split: work_state.splits)
  then show ?thesis
    by (rule dur_units [OF inv]) (simp_all add: move_unit_def at)
qed

lemma dur_decode:
  assumes inv: "dur_inv e p" and us: "p_units p = xs @ u # ys" and e: "pe_sink e = sink"
    and st: "w_state u = Decoding batch"
  shows "dur_inv e (decode_body e batch xs u ys p)"
proof -
  obtain res b r where run: "decode_one (pe_decoder e) (pe_options e) (so_id (pe_sink e)) batch (w_seq u)
      (pe_bp e) (p_budget p) (w_res u) = (res, b, r)"
    by (metis prod_cases3)
  show ?thesis
  proof (cases res)
    case (Inl err)
    then show ?thesis
      using run inv us by (simp add: decode_body_def dur_inv_def fail_unit_def)
  next
    case (Inr out)
    then obtain d where d: "dec_decode (pe_decoder e) batch = Inr [d]" "db_low_sequence d = w_seq u"
      "db_high_sequence d = w_seq u" "out = finish_decode (pe_options e) (so_id (pe_sink e)) d"
      using run by (auto elim!: decode_one_ok)
    show ?thesis
    proof (cases "dry_run (pe_options e)")
      case True
      then show ?thesis
        using run Inr d inv us
        by (simp add: decode_body_def finish_decode_def Let_def report_unit_def dur_inv_def commits_decoded_def)
    next
      case False
      let ?c = "build_commit (so_id (pe_sink e)) (w_seq u) (w_seq u) d"
      have "decoded_commit e (w_seq u) ?c"
        unfolding decoded_commit_def using d(1-3) inv us st
        by (auto simp: dur_inv_def commits_decoded_def)
      then show ?thesis
        using run Inr d inv us False
        by (simp add: decode_body_def finish_decode_def Let_def dur_inv_def commits_decoded_def fail_unit_def)
    qed
  qed
qed

lemma dur_write:
  assumes inv: "dur_inv e p" and us: "p_units p = xs @ u # ys" and st: "w_state u = Writing c rng"
    and ok: "work_ok u" and e: "pe_sink e = sink"
  shows "dur_inv e (write_body e abort c rng xs u ys p)"
proof -
  obtain w s where run: "write_with_retry sink c (pe_options e) abort (p_sink p) = (w, s)" by fastforce
  let ?p = "p\<lparr>p_sink := s\<rparr>"
  have inv1: "dur_inv e ?p"
    using inv by (auto simp: dur_inv_def intro: dur_retry [OF _ run])
  have c: "decoded_commit e (w_seq u) c" and rng: "fst rng = w_seq u"
    using inv us st ok by (simp_all add: dur_inv_def commits_decoded_def work_ok_def)
  have "dur_inv e (report_unit rng rows xs u ys ?p)" if "is_ok (wa_inner w)" for rows
  proof -
    have "dur e s (fst rng)"
      unfolding dur_def using c rng retry_success_durable [OF run that] by auto
    then show ?thesis
      using inv1 us by (simp add: dur_inv_def report_unit_def commits_decoded_def)
  qed
  moreover have "dur_inv e (fail_unit err xs u ys ?p)" for err
    using dur_fail [OF inv1] us by simp
  ultimately show ?thesis
    using run e by (auto simp: write_body_def Let_def is_ok_def split: sum.splits write_success.splits)
qed

lemma dur_step:
  assumes inv: "dur_inv e p" "pipe_inv e base p" and e: "pe_sink e = sink" and step: "pipe_step e p p'"
  shows "dur_inv e p'"
  using step
proof (cases rule: pipe_step.cases)
  case (admit b n r sends res a' b' n' sent)
  have "committed_seqs (coordinator a') = committed_seqs (coordinator (p_actor p))"
    using admission_arm_committed(1) [OF admit(5)] inv(2) by (simp add: pipe_inv_def actor_inv_def)
  then show ?thesis
    using inv(1) admit(1)
    by (simp add: dur_inv_def list.pred_map comp_def commits_decoded_def queue_unit_def list.pred_True)
next
  case (complete rng rows rest res a')
  note out = complete_inv(2,3) [OF inv(2) complete(2-5)]
  have ai: "actor_inv (pe_options e) base (p_actor p)" using inv(2) by (simp add: pipe_inv_def)
  have "committed_seqs (coordinator a') =
      committed_seqs (coordinator (p_actor p)) \<union> {unat (fst rng)..unat (snd rng)}"
    using ack_commit_committed [OF _ completion_facts(2) [OF ai out(1) complete(5)]] ai
    by (simp add: actor_inv_def)
  moreover have "reported_seqs (p_completions p) = fst rng # reported_seqs rest"
    by (simp add: complete(4) reported_seqs_def)
  ultimately show ?thesis
    using inv(1) complete(1) out(2) by (auto simp: dur_inv_def)
next
  case (complete_fatal err rest)
  then have "reported_seqs (p_completions p) = reported_seqs rest"
    by (simp add: reported_seqs_def)
  then show ?thesis using inv(1) complete_fatal by (simp add: dur_inv_def)
next
  case (exit res a')
  then show ?thesis using inv(1) exit_facts(1) [OF exit(5)] by (simp add: dur_inv_def)
next
  case (fetch_recv xs u ys d)
  then have "commits_decoded e u" using inv(1) by (simp add: dur_inv_def)
  then show ?thesis using fetch_recv dur_move [OF inv(1)] by (simp add: commits_decoded_def)
next
  case (fetch_done xs u ys d)
  then have d: "commits_decoded e u" using inv(1) by (simp add: dur_inv_def)
  then have "fetched e (w_seq u) batch"
    if "handle_fetch (pe_ops e) (source_fetch_handle (act_source (p_actor p))) d = Inr batch" for batch
    using fetch_done that by (auto simp: commits_decoded_def fetched_def)
  then show ?thesis
    using inv(1) fetch_done
    by (simp add: fetch_body_def dur_inv_def fail_unit_def commits_decoded_def split: sum.split)
next
  case (decode_recv xs u ys batch)
  then have "commits_decoded e u" using inv(1) by (simp add: dur_inv_def)
  then show ?thesis using decode_recv dur_move [OF inv(1)] by (simp add: commits_decoded_def)
next
  case (decode_done xs u ys batch)
  then show ?thesis using dur_decode [OF inv(1) _ e] by blast
next
  case (write_recv xs u ys commit rng)
  then have "commits_decoded e u" using inv(1) by (simp add: dur_inv_def)
  then show ?thesis
    using write_recv dur_move [OF inv(1)] by (simp add: commits_decoded_def)
next
  case (write_done xs u ys commit rng abort)
  moreover have "work_ok u" using inv(2) write_done by (simp add: pipe_inv_def)
  ultimately show ?thesis using dur_write [OF inv(1) _ _ _ e] by blast
next
  case (hard_abort err xs u ys abort)
  then show ?thesis
    using inv(1) e
    by (auto simp: dur_inv_def abort_unit_def release_unit_def dur_abort split: work_state.split)
qed (use inv(1) in \<open>simp_all add: dur_inv_def release_unit_def\<close>)

lemma acked_is_durable:
  assumes base: "last_acked src \<noteq> Some (- 1)" and ops: "consumer_bounded (pe_ops e)"
    and e: "pe_sink e = sink"
    and reach: "pipe_reach e (pipe_start e src (ack_new (pe_source e) (last_acked src)) s) p"
    and acked: "f \<in> set (ack_through_recorder (p_actor p))"
    and n: "start_seq (coordinator (p_actor p)) \<le> n" "n \<le> unat f"
  shows "\<exists>c. decoded_commit e (word_of_nat n) c \<and> durable c (p_sink p)"
proof -
  have inv: "pipe_inv e (last_acked src) p \<and> dur_inv e p"
    using reach
  proof (induction rule: pipe_reach.induct)
    case refl
    then show ?case
      using pipe_start_inv [OF base]
      by (simp add: dur_inv_def pipe_start_def actor_start_def ack_new_def reported_seqs_def
          committed_seqs_def next_seq_def start_seq_def split: option.split)
  next
    case (step p p')
    then show ?case using pipe_step_inv [OF _ ops] dur_step [OF _ _ e] by blast
  qed
  let ?a = "p_actor p"
  have log: "ack_log_inv (pe_options e) (last_acked src) ?a"
    using inv by (simp add: pipe_inv_def actor_inv_def)
  then have nd: "\<not> dry_run (pe_options e)"
    using acked by (auto simp: ack_log_inv_def)
  then obtain g where g: "frontier (coordinator ?a) = Some g" "last (ack_through_recorder ?a) = g"
    using log acked by (auto simp: ack_log_inv_def split: option.splits)
  have "f \<le> g"
    using log acked g(2) sorted_wrt_last_le [of "ack_through_recorder ?a" f] by (simp add: ack_log_inv_def)
  then have "n \<in> {start_seq (coordinator ?a)..<next_seq (coordinator ?a)}"
    using n g(1) by (simp add: next_seq_def frontier_def word_le_nat_alt)
  then show ?thesis
    using inv nd committed_prefix [of "coordinator ?a"] unfolding dur_inv_def dur_def by blast
qed

end

end
