(* ===== verification/Clickhouse_Sink.thy ===== *)
theory Clickhouse_Sink
  imports Pipeline Logs_Adapter Clickhouse_Writer
begin

text \<open>
  The ClickHouse sink (\<open>sink.rs\<close>): the runtime's \<open>Sink\<close> over an adapter and a writer. Its
  state is the writer's world with the two counters that the sink itself increments. The dynamic
  cast of the record carrier to \<open>TypedDecodedLogs\<close> is the parameter \<open>downcast\<close>.

  \<open>sink_contract\<close> is interpreted here: for this sink a commit is durable when every chunk of its
  plan has been answered with a success status. With the pipeline's own invariants this gives the
  end-to-end guarantee: nothing is acknowledged to the buffer before ClickHouse has acknowledged it.
\<close>

section \<open>Definitions\<close>

definition odb_run_id_attr :: string where
  "odb_run_id_attr = ''_odb_run_id''"

definition unknown_run_id_label :: string where
  "unknown_run_id_label = ''unknown''"

definition sink_budget_default :: sink_budget where
  "sink_budget_default = \<lparr>max_bytes_inflight = 0, sb_max_concurrent_commits = 0\<rparr>"

record clickhouse_sink =
  cs_id :: sink_id
  cs_adapter :: "decoded_log_record adapter"
  cs_writer :: clickhouse_writer
  cs_budget :: sink_budget

definition clickhouse_sink_new ::
  "sink_id \<Rightarrow> decoded_log_record adapter \<Rightarrow> clickhouse_writer \<Rightarrow> clickhouse_sink" where
  "clickhouse_sink_new i a wr =
     \<lparr>cs_id = i, cs_adapter = a, cs_writer = wr, cs_budget = sink_budget_default\<rparr>"

definition with_budget :: "sink_budget \<Rightarrow> clickhouse_sink \<Rightarrow> clickhouse_sink" where
  "with_budget b s = s\<lparr>cs_budget := b\<rparr>"

record 's sink_world =
  sw_http :: "'s http_world"
  sw_rows_committed :: "(string, u64) btree"
  sw_commit_bytes :: u64

definition run_id_of :: "decoded_log_record \<Rightarrow> string" where
  "run_id_of rec =
     (case bt_get odb_run_id_attr (log_attributes rec) of
        Some s \<Rightarrow> s
      | None \<Rightarrow> unknown_run_id_label)"

definition inc_by :: "string \<Rightarrow> u64 \<Rightarrow> (string, u64) btree \<Rightarrow> (string, u64) btree" where
  "inc_by k n m = bt_insert k ((case bt_get k m of Some c \<Rightarrow> c | None \<Rightarrow> 0) + n) m"

definition bucket_rows_by_run_id :: "decoded_log_record list \<Rightarrow> (string, u64) btree" where
  "bucket_rows_by_run_id records = foldl (\<lambda>counts rec. inc_by (run_id_of rec) 1 counts) [] records"

definition commit_group ::
  "otel_externs \<Rightarrow> commit_identity \<Rightarrow> decoded_log_record list \<Rightarrow> decoded_log_record adapter_batch" where
  "commit_group ox ident selected =
     \<lparr>ab_identity = ident, ab_records = selected,
      ab_bytes = sum_list (map (approx_size_bytes ox) selected)\<rparr>"

definition debug_schema :: "clickhouse_externs \<Rightarrow> typed_schema \<Rightarrow> string" where
  "debug_schema x sch =
     ''TypedSchema { name: '' @ cx_debug x (schema_name sch) @ '', version: SchemaVersion('' @
     show_word (version_number (schema_ver sch)) @ '') }''"

definition write_failure :: "writer_error \<Rightarrow> sink_commit_failure" where
  "write_failure e =
     (case error_class e of
        ClassRetryable \<Rightarrow> MaybeCommitted (display_writer_error e)
      | ClassRetryBudgetExhausted \<Rightarrow> MaybeCommitted (display_writer_error e)
      | ClassNonRetryable \<Rightarrow> Fatal (display_writer_error e))"

definition chunk_bytes :: "insert_chunk list \<Rightarrow> u64" where
  "chunk_bytes chunks =
     sum_list (map (\<lambda>c. sum_list (map (\<lambda>r. word_of_nat (length r)) (chunk_rows c))) chunks)"

definition chunk_row_total :: "insert_chunk list \<Rightarrow> nat" where
  "chunk_row_total chunks = sum_list (map rows_count chunks)"

definition write_chunks ::
  "clickhouse_externs \<Rightarrow> 's http_server \<Rightarrow> clickhouse_sink \<Rightarrow> decoded_log_record list \<Rightarrow> insert_chunk list \<Rightarrow>
   's sink_world \<Rightarrow> (sink_commit_failure + sink_commit_result) \<times> 's sink_world" where
  "write_chunks x srv sink selected chunks w =
     (if chunk_row_total chunks \<noteq> length selected
      then (Inl (Fatal (''adapter plan covered '' @ show_nat (chunk_row_total chunks) @
              '' rows but commit held '' @ show_nat (length selected) @
              ''; refusing to insert and ack a partial/dropped chunking'')), w)
      else case execute_all x srv (cs_writer sink) chunks (sw_http w) of
             (Inr _, h) \<Rightarrow>
               (Inr \<lparr>bytes_written = chunk_bytes chunks,
                     rows_written = sum_list (map (word_of_nat \<circ> rows_count) chunks)\<rparr>,
                w\<lparr>sw_http := h,
                  sw_rows_committed :=
                    foldl (\<lambda>m (k, n). inc_by k n m) (sw_rows_committed w) (bucket_rows_by_run_id selected),
                  sw_commit_bytes := sw_commit_bytes w + chunk_bytes chunks\<rparr>)
           | (Inl e, h) \<Rightarrow> (Inl (write_failure e), w\<lparr>sw_http := h\<rparr>))"

definition clickhouse_write ::
  "otel_externs \<Rightarrow> clickhouse_externs \<Rightarrow> 's http_server \<Rightarrow> ('r \<Rightarrow> decoded_log_record list option) \<Rightarrow>
   clickhouse_sink \<Rightarrow> 'r sink_commit \<Rightarrow> 's sink_world \<Rightarrow>
   (sink_commit_failure + sink_commit_result) \<times> 's sink_world" where
  "clickhouse_write ox x srv downcast sink commit w =
     (let ident = sc_identity commit; batch = sc_batch commit in
      if range_low (ci_range ident) \<noteq> db_low_sequence batch \<or> range_high (ci_range ident) \<noteq> db_high_sequence batch
      then (Inl (Fatal (''SinkCommit identity range '' @ show_word (range_low (ci_range ident)) @ ''..='' @
              show_word (range_high (ci_range ident)) @ '' disagrees with DecodedBatch range '' @
              show_word (db_low_sequence batch) @ ''..='' @ show_word (db_high_sequence batch))), w)
      else case db_records batch of Typed typed \<Rightarrow>
        (case downcast (tr_as_any typed) of
           None \<Rightarrow>
             (Inl (Fatal (''ClickHouseSink expects TypedDecodedLogs (schema opendata.otel.logs.v1), got '' @
                debug_schema x (tr_schema typed))), w)
         | Some selected \<Rightarrow>
             (case cs_adapter sink (commit_group ox ident selected) of
                Inl e \<Rightarrow> (Inl (Fatal (display_adapter_error e)), w)
              | Inr chunks \<Rightarrow> write_chunks x srv sink selected chunks w)))"

definition clickhouse_check_committed ::
  "commit_identity \<Rightarrow> 's sink_world \<Rightarrow> (runtime_error + commit_status) \<times> 's sink_world" where
  "clickhouse_check_committed ident w = (Inr StatusUnknown, w)"

definition clickhouse_sink_ops ::
  "otel_externs \<Rightarrow> clickhouse_externs \<Rightarrow> 's http_server \<Rightarrow> ('r \<Rightarrow> decoded_log_record list option) \<Rightarrow>
   clickhouse_sink \<Rightarrow> ('r, 's sink_world) sink_ops" where
  "clickhouse_sink_ops ox x srv downcast sink =
     \<lparr>so_id = cs_id sink, so_write = clickhouse_write ox x srv downcast sink,
      so_check_committed = clickhouse_check_committed\<rparr>"

section \<open>Durability\<close>

text \<open>A commit's records, as the sink reads them, and when the sink has made them durable.\<close>

definition commit_records :: "('r \<Rightarrow> decoded_log_record list option) \<Rightarrow> 'r sink_commit \<Rightarrow> decoded_log_record list option" where
  "commit_records downcast c = (case db_records (sc_batch c) of Typed t \<Rightarrow> downcast (tr_as_any t))"

definition clickhouse_durable ::
  "otel_externs \<Rightarrow> clickhouse_externs \<Rightarrow> ('r \<Rightarrow> decoded_log_record list option) \<Rightarrow> clickhouse_sink \<Rightarrow>
   'r sink_commit \<Rightarrow> 's sink_world \<Rightarrow> bool" where
  "clickhouse_durable ox x downcast sink c w \<longleftrightarrow>
     (\<exists>rs chunks. commit_records downcast c = Some rs \<and>
        cs_adapter sink (commit_group ox (sc_identity c) rs) = Inr chunks \<and>
        chunk_row_total chunks = length rs \<and>
        (\<forall>chunk\<in>set chunks. chunk_acknowledged x (cs_writer sink) (sw_http w) chunk))"

lemma write_chunks_ok:
  assumes "write_chunks x srv sink selected chunks w = (Inr res, w')"
  shows "chunk_row_total chunks = length selected \<and>
    execute_all x srv (cs_writer sink) chunks (sw_http w) = (Inr (), sw_http w')"
  using assms by (auto simp: write_chunks_def split: if_splits prod.splits sum.splits)

lemma write_chunks_http:
  "sw_http (snd (write_chunks x srv sink selected chunks w)) = sw_http w \<or>
   sw_http (snd (write_chunks x srv sink selected chunks w)) =
     snd (execute_all x srv (cs_writer sink) chunks (sw_http w))"
  by (auto simp: write_chunks_def split: prod.split sum.split)

lemma clickhouse_write_cases:
  assumes "clickhouse_write ox x srv downcast sink c w = (r, w')"
  shows "(w' = w \<and> (\<exists>m. r = Inl (Fatal m))) \<or>
    (\<exists>rs chunks. commit_records downcast c = Some rs \<and>
       cs_adapter sink (commit_group ox (sc_identity c) rs) = Inr chunks \<and>
       write_chunks x srv sink rs chunks w = (r, w'))"
  using assms
  by (auto simp: clickhouse_write_def commit_records_def Let_def
      split: if_splits decoded_records.splits option.splits sum.splits)

lemma clickhouse_write_keeps:
  "set (hw_sent (sw_http w)) \<subseteq> set (hw_sent (sw_http (snd (clickhouse_write ox x srv downcast sink c w))))"
proof -
  obtain r w' where run: "clickhouse_write ox x srv downcast sink c w = (r, w')" by fastforce
  then consider "w' = w" | rs chunks where "write_chunks x srv sink rs chunks w = (r, w')"
    using clickhouse_write_cases [OF run] by blast
  then show ?thesis
  proof cases
    case 2
    then show ?thesis
      using write_chunks_http [of x srv sink rs chunks w]
        execute_all_keeps [of "sw_http w" x srv "cs_writer sink" chunks]
      by (auto simp: run)
  qed (simp add: run)
qed

lemma durable_mono:
  assumes "clickhouse_durable ox x downcast sink c w"
    and "set (hw_sent (sw_http w)) \<subseteq> set (hw_sent (sw_http w'))"
  shows "clickhouse_durable ox x downcast sink c w'"
  using assms chunk_acknowledged_mono unfolding clickhouse_durable_def by blast

lemma clickhouse_write_durable:
  assumes "clickhouse_write ox x srv downcast sink c w = (Inr res, w')"
  shows "clickhouse_durable ox x downcast sink c w'"
proof -
  obtain rs chunks where p: "commit_records downcast c = Some rs"
    "cs_adapter sink (commit_group ox (sc_identity c) rs) = Inr chunks"
    "write_chunks x srv sink rs chunks w = (Inr res, w')"
    using clickhouse_write_cases [OF assms] by blast
  note ok = write_chunks_ok [OF p(3)]
  show ?thesis
    unfolding clickhouse_durable_def using p(1,2) ok execute_all_acknowledged by blast
qed

interpretation ch: sink_contract "clickhouse_sink_ops ox x srv downcast sink"
    "clickhouse_durable ox x downcast sink"
  for ox x srv downcast sink
proof unfold_locales
  show "clickhouse_durable ox x downcast sink c w'"
    if "so_write (clickhouse_sink_ops ox x srv downcast sink) c w = (Inr r, w')" for c w r w'
    using that clickhouse_write_durable by (simp add: clickhouse_sink_ops_def)
  show "clickhouse_durable ox x downcast sink c w'"
    if "so_check_committed (clickhouse_sink_ops ox x srv downcast sink) (sc_identity c) w = (Inr StatusCommitted, w')"
    for c w w'
    using that by (simp add: clickhouse_sink_ops_def clickhouse_check_committed_def)
  show "clickhouse_durable ox x downcast sink c (snd (so_write (clickhouse_sink_ops ox x srv downcast sink) d w))"
    if "clickhouse_durable ox x downcast sink c w" for c d w
    using durable_mono [OF that clickhouse_write_keeps] by (simp add: clickhouse_sink_ops_def)
  show "clickhouse_durable ox x downcast sink c
      (snd (so_check_committed (clickhouse_sink_ops ox x srv downcast sink) i w))"
    if "clickhouse_durable ox x downcast sink c w" for c i w
    using that by (simp add: clickhouse_sink_ops_def clickhouse_check_committed_def)
qed

section \<open>The counters\<close>

definition counter :: "string \<Rightarrow> (string, u64) btree \<Rightarrow> u64" where
  "counter k m = (case bt_get k m of Some c \<Rightarrow> c | None \<Rightarrow> 0)"

lemma inc_by_counter: "bt_wf m \<Longrightarrow> counter j (inc_by k n m) = counter j m + (if j = k then n else 0)"
  by (simp add: counter_def inc_by_def bt_simps)

lemma inc_by_wf: "bt_wf m \<Longrightarrow> bt_wf (inc_by k n m)"
  by (simp add: inc_by_def bt_simps)

lemma foldl_inc_by:
  "bt_wf m \<Longrightarrow> bt_wf (foldl (\<lambda>m (k, n). inc_by k n m) m es) \<and>
     counter j (foldl (\<lambda>m (k, n). inc_by k n m) m es) =
       counter j m + sum_list (map (\<lambda>(k, n). if j = k then n else 0) es)"
proof (induction es arbitrary: m)
  case (Cons e es)
  then show ?case by (cases e) (simp add: inc_by_wf inc_by_counter)
qed simp

lemma bucket_counter:
  "bt_wf (bucket_rows_by_run_id rs) \<and>
   counter j (bucket_rows_by_run_id rs) = word_of_nat (length (filter (\<lambda>r. run_id_of r = j) rs))"
proof (induction rs rule: rev_induct)
  case Nil
  then show ?case by (simp add: bucket_rows_by_run_id_def counter_def bt_get_def)
next
  case (snoc r rs)
  have "bucket_rows_by_run_id (rs @ [r]) = inc_by (run_id_of r) 1 (bucket_rows_by_run_id rs)"
    by (simp add: bucket_rows_by_run_id_def)
  then show ?case using snoc by (auto simp: inc_by_wf inc_by_counter)
qed

lemma sum_entries:
  "bt_wf m \<Longrightarrow> sum_list (map (\<lambda>(k, n). if j = k then n else 0) m) = counter j m"
proof (induction m)
  case (Cons e m)
  obtain k n where e: "e = (k, n)" by fastforce
  have "k \<noteq> fst x" if "x \<in> set m" for x using Cons.prems that by (auto simp: bt_wf_Cons e)
  then have "bt_get k m = None" by (auto simp: bt_get_def map_of_eq_None_iff)
  then show ?case using Cons by (auto simp: e bt_wf_Cons counter_def bt_get_def)
qed (simp add: counter_def bt_get_def)

lemma log_row_length: "length (log_row config r) = 18"
  by (simp add: log_row_def Let_def)

lemma plan_totals:
  assumes "plan ox a batch = Inr chunks"
  shows "chunk_row_total chunks = length (ab_records batch)"
    and "sum_list (map (word_of_nat \<circ> rows_count) chunks) = (word_of_nat (length (ab_records batch)) :: u64)"
    and "chunk_bytes chunks = word_of_nat (18 * length (ab_records batch))"
proof -
  let ?gs = "plan_groups ox a (ab_records batch)"
  note rows = plan_rows [OF assms]
  have len: "length (concat ?gs) = length (ab_records batch)" by (simp add: plan_groups_concat)
  have counts: "map rows_count chunks = map length ?gs"
    using arg_cong [OF rows, of "map length"] by (simp add: rows_count_def [abs_def] comp_def)
  show "chunk_row_total chunks = length (ab_records batch)"
    by (simp add: chunk_row_total_def counts flip: length_concat) (rule len)
  have sums: "sum_list (map word_of_nat ns) = (word_of_nat (sum_list ns) :: u64)" for ns
    by (induction ns) simp_all
  have "map (word_of_nat \<circ> rows_count) chunks = (map word_of_nat (map length ?gs) :: u64 list)"
    using counts by (simp flip: map_map)
  then show "sum_list (map (word_of_nat \<circ> rows_count) chunks) = (word_of_nat (length (ab_records batch)) :: u64)"
    by (metis len length_concat sums)
  have row: "(\<Sum>r\<leftarrow>g. word_of_nat (length (log_row (la_config a) r))) = (word_of_nat (18 * length g) :: u64)" for g
    by (induction g) (simp_all add: log_row_length algebra_simps)
  have "chunk_bytes chunks = (\<Sum>rs\<leftarrow>map chunk_rows chunks. \<Sum>r\<leftarrow>rs. word_of_nat (length r))"
    by (simp add: chunk_bytes_def comp_def)
  also have "\<dots> = sum_list (map word_of_nat (map (\<lambda>g. 18 * length g) ?gs))"
    unfolding rows by (simp add: comp_def row)
  also have "\<dots> = word_of_nat (18 * length (concat ?gs))"
    unfolding sums by (simp add: length_concat sum_list_const_mult)
  finally show "chunk_bytes chunks = word_of_nat (18 * length (ab_records batch))" using len by simp
qed


definition example_sink :: clickhouse_sink where
  "example_sink =
     clickhouse_sink_new (SinkId ''clickhouse_logs'') (plan example_externs example_adapter) example_writer"

definition example_sink_commit :: "decoded_log_record list sink_commit" where
  "example_sink_commit =
     build_commit (SinkId ''clickhouse_logs'') 4 4
       (logs_batch example_externs example_batch (map example_record [0, 1, 2]))"

definition example_sink_world :: "nat sink_world" where
  "example_sink_world = \<lparr>sw_http = example_world, sw_rows_committed = [], sw_commit_bytes = 0\<rparr>"

lemma example_write:
  "is_ok (fst (clickhouse_write example_externs example_clickhouse_externs example_server Some example_sink
     example_sink_commit example_sink_world))"
  by code_simp

lemma example_records: "commit_records Some example_sink_commit = Some (map example_record [0, 1, 2])"
  by (simp add: commit_records_def example_sink_commit_def build_commit_def logs_batch_def typed_decoded_logs_def)


section \<open>Retries replay the same requests\<close>

lemma execute_all_sent:
  "set (hw_sent (snd (execute_all x srv wr chunks w))) \<subseteq>
     set (hw_sent w) \<union> (chunk_request x wr ` set chunks) \<times> UNIV"
proof (induction chunks arbitrary: w)
  case (Cons chunk chunks)
  obtain r w1 where one: "execute_chunk x srv wr chunk w = (r, w1)" by fastforce
  have "set (hw_sent w1) \<subseteq> set (hw_sent w) \<union> {chunk_request x wr chunk} \<times> UNIV"
    using execute_chunk_trace [OF one] by auto
  then show ?case
    using Cons.IH [of w1] unfolding execute_all_Cons [OF one] by (cases r) auto
qed simp

lemma select_call_invariant:
  "(\<forall>s. P s \<longrightarrow> P (snd (call s))) \<Longrightarrow> P s \<Longrightarrow> select_call a call s = (v, s') \<Longrightarrow> P s'"
  by (fastforce simp: select_call_def split: abort_point.splits prod.splits)

lemma retry_invariant:
  assumes wr: "\<forall>s. P s \<longrightarrow> P (snd (so_write sink c s))"
    and ch: "\<forall>s. P s \<longrightarrow> P (snd (so_check_committed sink (sc_identity c) s))"
    and init: "P s" and run: "write_with_retry sink c opts abort s = (v, s')"
  shows "P s'"
proof -
  have once: "write_once sink c ex abort p s = (e, p', s') \<Longrightarrow> P s \<Longrightarrow> P s'" for ex p s e p' s'
    by (auto simp: write_once_def resolve_maybe_def dest!: select_call_invariant [OF wr, rotated]
        select_call_invariant [OF ch, rotated]
        split: prod.splits option.splits sum.splits sink_commit_failure.splits commit_status.splits)
  then show ?thesis
    using write_loop_exit [where P = P, OF _ init run [unfolded write_with_retry_def]] by blast
qed

definition plan_requests ::
  "otel_externs \<Rightarrow> clickhouse_externs \<Rightarrow> ('r \<Rightarrow> decoded_log_record list option) \<Rightarrow> clickhouse_sink \<Rightarrow>
   'r sink_commit \<Rightarrow> http_request set" where
  "plan_requests ox x downcast sink c =
     {chunk_request x (cs_writer sink) chunk | rs chunks chunk.
        commit_records downcast c = Some rs \<and>
        cs_adapter sink (commit_group ox (sc_identity c) rs) = Inr chunks \<and> chunk \<in> set chunks}"

lemma clickhouse_write_sent:
  "set (hw_sent (sw_http (snd (clickhouse_write ox x srv downcast sink c w)))) \<subseteq>
     set (hw_sent (sw_http w)) \<union> plan_requests ox x downcast sink c \<times> UNIV"
proof -
  obtain r w' where run: "clickhouse_write ox x srv downcast sink c w = (r, w')" by fastforce
  then consider "w' = w" | rs chunks where "commit_records downcast c = Some rs"
    "cs_adapter sink (commit_group ox (sc_identity c) rs) = Inr chunks" "write_chunks x srv sink rs chunks w = (r, w')"
    using clickhouse_write_cases [OF run] by blast
  then show ?thesis
  proof cases
    case 2
    then have "chunk_request x (cs_writer sink) ` set chunks \<subseteq> plan_requests ox x downcast sink c"
      unfolding plan_requests_def by blast
    then have "chunk_request x (cs_writer sink) ` set chunks \<times> UNIV \<subseteq> plan_requests ox x downcast sink c \<times> UNIV"
      by (rule Sigma_mono) simp
    then show ?thesis
      using write_chunks_http [of x srv sink rs chunks w]
        execute_all_sent [of x srv "cs_writer sink" chunks "sw_http w"]
      unfolding run 2(3) snd_conv by (elim disjE) (simp_all, blast)
  qed (simp add: run)
qed

lemma token_in_url:
  assumes "plan ox a b = Inr chunks" "chunk \<in> set chunks" "apply_deduplication_token (settings chunk)"
  shows "\<exists>pre post. rq_url (chunk_request x wr chunk) =
    pre @ ''&insert_deduplication_token='' @ cx_urlencode x (idempotency_token chunk) @ post"
proof -
  have token: "insert_deduplication_token (settings chunk) = idempotency_token chunk"
    using plan_emit [OF assms(1,2)] by (auto simp: emit_chunk_def Let_def)
  show ?thesis
    unfolding chunk_request_def insert_request_def build_insert_url_def Let_def http_request.select_convs
    by (simp only: assms(3) token if_True append_assoc) (metis append.assoc)
qed

text \<open>
  C33. Replaying a commit replays its requests: whatever the server and the hard abort do, every
  request that \<open>write_with_retry\<close> adds for a commit is, byte for byte, the request of a chunk of
  the plan of that commit, with the token of that chunk; a retry never sends anything new, and a
  commit that the retry loop reports as written is durable.
\<close>

theorem retries_replay_plan:
  assumes adapter: "cs_adapter sink = plan ox a"
    and run: "write_with_retry (clickhouse_sink_ops ox x srv downcast sink) c opts abort w = (v, w')"
  shows "(\<forall>rq ans. (rq, ans) \<in> set (hw_sent (sw_http w')) - set (hw_sent (sw_http w)) \<longrightarrow>
      (\<exists>rs chunks chunk. commit_records downcast c = Some rs \<and>
        plan ox a (commit_group ox (sc_identity c) rs) = Inr chunks \<and> chunk \<in> set chunks \<and>
        rq = chunk_request x (cs_writer sink) chunk \<and>
        (apply_deduplication_token (settings chunk) \<longrightarrow>
           (\<exists>pre post. rq_url rq =
              pre @ ''&insert_deduplication_token='' @ cx_urlencode x (idempotency_token chunk) @ post)))) \<and>
    (is_ok (wa_inner v) \<longrightarrow> clickhouse_durable ox x downcast sink c w')"
proof -
  let ?P = "\<lambda>u. set (hw_sent (sw_http u)) \<subseteq>
      set (hw_sent (sw_http w)) \<union> plan_requests ox x downcast sink c \<times> UNIV"
  have "?P (snd (clickhouse_write ox x srv downcast sink c u))" if "?P u" for u
    using that clickhouse_write_sent [of ox x srv downcast sink c u] by blast
  then have P: "?P w'"
    by (intro retry_invariant [where P = ?P, OF _ _ _ run])
      (simp_all add: clickhouse_sink_ops_def clickhouse_check_committed_def)
  have "\<exists>rs chunks chunk. commit_records downcast c = Some rs \<and>
        plan ox a (commit_group ox (sc_identity c) rs) = Inr chunks \<and> chunk \<in> set chunks \<and>
        rq = chunk_request x (cs_writer sink) chunk \<and>
        (apply_deduplication_token (settings chunk) \<longrightarrow>
           (\<exists>pre post. rq_url rq =
              pre @ ''&insert_deduplication_token='' @ cx_urlencode x (idempotency_token chunk) @ post))"
    if "(rq, ans) \<in> set (hw_sent (sw_http w')) - set (hw_sent (sw_http w))" for rq ans
  proof -
    have "rq \<in> plan_requests ox x downcast sink c" using P that by blast
    then show ?thesis unfolding plan_requests_def adapter using token_in_url by blast
  qed
  then show ?thesis using ch.retry_success_durable [OF run] by blast
qed

theorem retries_replay_plan_witness:
  "\<exists>v w' rq ans chunk. write_with_retry (clickhouse_sink_ops example_externs example_clickhouse_externs
       example_server Some example_sink) example_sink_commit runtime_options_default (\<lambda>p. NoAbort)
       example_sink_world = (v, w') \<and>
     is_ok (wa_inner v) \<and> (rq, ans) \<in> set (hw_sent (sw_http w')) \<and> acknowledged ans \<and>
     rq = chunk_request example_clickhouse_externs (cs_writer example_sink) chunk"
proof -
  obtain res w' where wr: "clickhouse_write example_externs example_clickhouse_externs example_server Some
      example_sink example_sink_commit example_sink_world = (Inr res, w')"
    using example_write by (metis fst_conv is_ok_iff surj_pair)
  let ?v = "\<lparr>wa_inner = Inr (WroteCommitted res), wa_outcome = OutcomeCommitted\<rparr>"
  have run: "write_with_retry (clickhouse_sink_ops example_externs example_clickhouse_externs example_server Some
       example_sink) example_sink_commit runtime_options_default (\<lambda>p. NoAbort) example_sink_world = (?v, w')"
    by (simp add: write_with_retry_def write_loop.simps write_once_def select_call_def
        clickhouse_sink_ops_def wr)
  have a: "cs_adapter example_sink = plan example_externs example_adapter"
    by (simp add: example_sink_def clickhouse_sink_new_def)
  obtain rs chunks where d: "commit_records Some example_sink_commit = Some rs" "chunk_row_total chunks = length rs"
    "\<forall>chunk\<in>set chunks. chunk_acknowledged example_clickhouse_externs (cs_writer example_sink) (sw_http w') chunk"
    using retries_replay_plan [OF a run] unfolding clickhouse_durable_def by auto
  then obtain chunk where "chunk \<in> set chunks"
    by (cases chunks) (auto simp: example_records chunk_row_total_def)
  then obtain ans where "(chunk_request example_clickhouse_externs (cs_writer example_sink) chunk, ans)
      \<in> set (hw_sent (sw_http w'))" "acknowledged ans"
    using d(3) by (auto simp: chunk_acknowledged_def)
  then show ?thesis using run by (intro exI [of _ ?v]) auto
qed

end
