(* ===== verification/Pipeline_Liveness.thy ===== *)
theory Pipeline_Liveness
  imports Pipeline
begin

text \<open>
  Progress of the pipelined runtime. Once admission is closed every step of the pipeline, whichever
  worker or actor arm takes it, strictly decreases \<open>rank\<close>, and as long as the actor has no result
  some step is enabled: a graceful shutdown therefore always comes to an end, within a bound that
  depends on the channel depth only. The executable scheduler \<open>drive\<close> picks one enabled step; it
  runs the model on concrete inputs.
\<close>

section \<open>Definitions\<close>

fun state_rank :: "'r work_state \<Rightarrow> nat" where
  "state_rank (Queued _) = 8"
| "state_rank (Fetching _) = 7"
| "state_rank (Fetched _) = 6"
| "state_rank (Decoding _) = 5"
| "state_rank (CommitQueued _ _) = 4"
| "state_rank (Writing _ _) = 3"
| "state_rank Releasing = 1"

definition units_rank :: "'r work list \<Rightarrow> nat" where
  "units_rank us = sum_list (map (state_rank \<circ> w_state) us)"

definition rank :: "('k, 'r, 's) pipe \<Rightarrow> nat" where
  "rank p = units_rank (p_units p) + length (p_completions p) + (if p_result p = None then 1 else 0)"

definition drive_unit ::
  "('k, 'r, 's) pipe_env \<Rightarrow> 'r work \<Rightarrow> 'r work list \<Rightarrow> ('k, 'r, 's) pipe \<Rightarrow> ('k, 'r, 's) pipe option" where
  "drive_unit e u ys p =
     (case w_state u of
        Queued d \<Rightarrow>
          if in_state is_fetching (p_units p) < p_fetchers p
          then Some (move_unit stage_fetch (Fetching d) [] u ys p) else None
      | Fetching d \<Rightarrow>
          if length (p_completions p) < channel_depth e then Some (fetch_body e d [] u ys p) else None
      | Fetched batch \<Rightarrow>
          if in_state is_decoding (p_units p) < p_decoders p
          then Some (move_unit stage_decode (Decoding batch) [] u ys p) else None
      | Decoding batch \<Rightarrow>
          if length (p_completions p) < channel_depth e then Some (decode_body e batch [] u ys p) else None
      | CommitQueued c rng \<Rightarrow>
          if in_state is_writing (p_units p) < p_writers p
          then Some (move_unit stage_sink_dispatch (Writing c rng) [] u ys p) else None
      | Writing c rng \<Rightarrow>
          if length (p_completions p) < channel_depth e
          then Some (write_body e (\<lambda>_. NoAbort) c rng [] u ys p) else None
      | Releasing \<Rightarrow> Some (release_unit [] u ys p))"

definition drive :: "('k, 'r, 's) pipe_env \<Rightarrow> ('k, 'r, 's) pipe \<Rightarrow> ('k, 'r, 's) pipe option" where
  "drive e p =
     (if p_result p \<noteq> None then None
      else case p_completions p of
        CompletionCommitted rng rows # rest \<Rightarrow>
          if 0 < act_in_flight (p_actor p)
          then (case completion_committed (pe_ops e) (pe_options e) rng rows (p_actor p) of
                  (res, a') \<Rightarrow> Some (p\<lparr>p_actor := a', p_completions := rest, p_result := result_of res\<rparr>))
          else None
      | CompletionFatal err # rest \<Rightarrow>
          if 0 < act_in_flight (p_actor p)
          then Some (p\<lparr>p_completions := rest, p_result := Some (Inl err)\<rparr>) else None
      | [] \<Rightarrow>
          (case p_units p of
             u # ys \<Rightarrow> drive_unit e u ys p
           | [] \<Rightarrow>
               if admission_open (p_actor p)
               then (case admission_attempt (pe_bp e) (p_budget p) (p_permits p) of
                       None \<Rightarrow> None
                     | Some (b, n, r) \<Rightarrow>
                         (case admission_arm (pe_ops e) (pe_options e) (pe_bp e) (channel_depth e) (p_actor p) b n r of
                            (res, a', b', n', sent) \<Rightarrow>
                              Some (p\<lparr>p_actor := a', p_budget := b', p_permits := n',
                                       p_units := map queue_unit sent, p_result := result_of res\<rparr>)))
               else None))"

fun drive_n :: "nat \<Rightarrow> ('k, 'r, 's) pipe_env \<Rightarrow> ('k, 'r, 's) pipe \<Rightarrow> ('k, 'r, 's) pipe" where
  "drive_n 0 e p = p"
| "drive_n (Suc n) e p = (case drive e p of None \<Rightarrow> p | Some p' \<Rightarrow> drive_n n e p')"

section \<open>The scheduler takes steps of the pipeline\<close>

lemma drive_unit_sound:
  assumes "p_units p = u # ys" "drive_unit e u ys p = Some p'"
  shows "pipe_step e p p'"
  using assms pipe_step.intros(7-13) [of p "[]" u ys, where e = e]
  by (auto simp: drive_unit_def body_fits split: work_state.splits if_splits)

lemma drive_sound: "drive e p = Some p' \<Longrightarrow> pipe_step e p p'"
  unfolding drive_def
  by (auto split: if_splits list.splits completion.splits option.splits prod.splits
      intro: drive_unit_sound pipe_step.complete pipe_step.complete_fatal)
    (metis append_Nil pipe_step.admit)+

lemma drive_n_reach: "pipe_reach e p0 p \<Longrightarrow> pipe_reach e p0 (drive_n n e p)"
proof (induction n arbitrary: p)
  case (Suc n)
  then show ?case
    by (cases "drive e p") (auto intro: pipe_reach.step dest: drive_sound)
qed simp

section \<open>Every step after shutdown decreases the rank\<close>

lemma units_rank_simps [simp]:
  "units_rank [] = 0" "units_rank (u # us) = state_rank (w_state u) + units_rank us"
  "units_rank (us @ vs) = units_rank us + units_rank vs"
  by (simp_all add: units_rank_def)

lemma worker_rank:
  assumes "p_units p = xs @ u # ys"
  shows "state_rank st < state_rank (w_state u) \<Longrightarrow> rank (move_unit k st xs u ys p) < rank p"
    and "1 < state_rank (w_state u) \<Longrightarrow> rank (fail_unit err xs u ys p) < rank p"
    and "2 < state_rank (w_state u) \<Longrightarrow> rank (report_unit rng rows xs u ys p) < rank p"
    and "0 < state_rank (w_state u) \<Longrightarrow> rank (release_unit xs u ys p) < rank p"
  using assms
  by (simp_all add: rank_def move_unit_def fail_unit_def report_unit_def release_unit_def split: prod.split)

lemma rank_frame [simp]: "rank (p\<lparr>p_budget := b\<rparr>) = rank p" "rank (p\<lparr>p_sink := s\<rparr>) = rank p"
  "rank (p\<lparr>p_fetchers := n\<rparr>) = rank p" "rank (p\<lparr>p_decoders := n\<rparr>) = rank p" "rank (p\<lparr>p_writers := n\<rparr>) = rank p"
  by (simp_all add: rank_def)

lemma fetch_rank:
  assumes "p_units p = xs @ u # ys" "w_state u = Fetching d"
  shows "rank (fetch_body e d xs u ys p) < rank p"
  using assms worker_rank(2) [OF assms(1)]
  by (simp add: fetch_body_def split: sum.split) (auto simp: rank_def)

lemma decode_rank:
  assumes us: "p_units p = xs @ u # ys" and st: "w_state u = Decoding batch"
  shows "rank (decode_body e batch xs u ys p) < rank p"
proof -
  obtain res b r where run: "decode_one (pe_decoder e) (pe_options e) (so_id (pe_sink e)) batch (w_seq u)
      (pe_bp e) (p_budget p) (w_res u) = (res, b, r)"
    by (metis prod_cases3)
  show ?thesis
  proof (cases res)
    case (Inl err)
    then show ?thesis using us st by (simp add: decode_body_def run fail_unit_def rank_def)
  next
    case (Inr out)
    then show ?thesis
      using us st by (cases out) (simp_all add: decode_body_def run report_unit_def fail_unit_def rank_def)
  qed
qed

lemma write_rank:
  assumes us: "p_units p = xs @ u # ys" and st: "w_state u = Writing c rng"
  shows "rank (write_body e abort c rng xs u ys p) < rank p"
  using us st
  by (simp add: write_body_def Let_def fail_unit_def report_unit_def rank_def
      split: prod.split sum.split write_success.split)

lemma abort_rank:
  assumes "p_units p = xs @ u # ys"
  shows "rank (abort_unit e abort xs u ys p) < rank p"
  using assms worker_rank(4) [of "p\<lparr>p_sink := s\<rparr>" xs u ys for s]
  by (cases "w_state u") (simp_all add: abort_unit_def rank_def release_unit_def)

text \<open>The step of a worker, as opposed to one of the actor, decreases the rank in every state.\<close>

lemma worker_step_rank:
  assumes "pipe_step e p p'" "p_result p \<noteq> None"
  shows "rank p' < rank p \<and> p_result p' = p_result p"
  using assms
  by (cases rule: pipe_step.cases)
    (auto simp: worker_same worker_rank fetch_rank decode_rank write_rank abort_rank)

lemma drain_step:
  assumes step: "pipe_step e p p'" and inv: "pipe_inv e base p" and closed: "\<not> admission_open (p_actor p)"
  shows "rank p' < rank p \<and> \<not> admission_open (p_actor p')"
  using step
proof (cases rule: pipe_step.cases)
  case (complete rng rows rest res a')
  have "rng \<in> outstanding (coordinator (p_actor p))"
    using complete_inv(2) [OF inv complete(2-5)] .
  moreover have "actor_inv (pe_options e) base (p_actor p)" using inv by (simp add: pipe_inv_def)
  ultimately have "admission_open a' = admission_open (p_actor p)"
    using completion_facts(4) complete(5) by blast
  then show ?thesis using complete closed by (simp add: rank_def)
next
  case (exit res a')
  then have "admission_open a' = admission_open (p_actor p)"
    by (auto simp: actor_exit_def Let_def split: prod.splits sum.splits if_splits)
  then show ?thesis using exit closed by (simp add: rank_def)
qed (use closed in \<open>auto simp: worker_same worker_rank fetch_rank decode_rank write_rank abort_rank\<close>,
    auto simp: rank_def)

section \<open>Some step is always enabled\<close>

lemma option_max1_pos: "0 < option_max1 w"
  by (auto simp: option_max1_def max_def unat_gt_0)

lemma in_state_none: "(\<And>u. u \<in> set us \<Longrightarrow> \<not> P (w_state u)) \<Longrightarrow> in_state P us = 0"
  by (simp add: in_state_def filter_False)

text \<open>
  A worker that leaves has reported a fatal completion first: as long as the actor runs and has no
  fatal completion to read, every worker is there.
\<close>

definition full_crew :: "('k, 'r, 's) pipe_env \<Rightarrow> ('k, 'r, 's) pipe \<Rightarrow> bool" where
  "full_crew e p \<longleftrightarrow>
     p_fetchers p = option_max1 (fetch_concurrency (pe_bp e)) \<and>
     p_decoders p = option_max1 (decode_concurrency (pe_bp e)) \<and>
     p_writers p = option_max1 (max_concurrent_commits (sink_options (pe_options e)))"

definition crew_inv :: "('k, 'r, 's) pipe_env \<Rightarrow> ('k, 'r, 's) pipe \<Rightarrow> bool" where
  "crew_inv e p \<longleftrightarrow> (p_result p = None \<and> no_fatal (p_completions p) \<longrightarrow> full_crew e p)"

lemma crew_bodies:
  assumes "crew_inv e p"
  shows "crew_inv e (fetch_body e d xs u ys p)" "crew_inv e (decode_body e batch xs u ys p)"
    "crew_inv e (write_body e abort c rng xs u ys p)"
  using assms
  by (auto simp: crew_inv_def full_crew_def fetch_body_def decode_body_def write_body_def fail_unit_def
      report_unit_def Let_def split: prod.splits sum.splits decode_outcome.splits write_success.splits)

lemma crew_step:
  assumes "crew_inv e p" "pipe_step e p p'"
  shows "crew_inv e p'"
  using assms(2)
proof (cases rule: pipe_step.cases)
  case (fetch_done xs u ys d)
  then show ?thesis using crew_bodies(1) [OF assms(1)] by simp
next
  case (decode_done xs u ys batch)
  then show ?thesis using crew_bodies(2) [OF assms(1)] by simp
next
  case (write_done xs u ys commit rng abort)
  then show ?thesis using crew_bodies(3) [OF assms(1)] by simp
next
  case (complete rng rows rest res a')
  then show ?thesis
    using assms(1) by (auto simp: crew_inv_def full_crew_def no_fatal_def result_of_def split: sum.splits)
qed (use assms(1) in \<open>auto simp: crew_inv_def full_crew_def result_of_def move_unit_def release_unit_def
    abort_unit_def split: sum.splits prod.splits\<close>)

lemma crew_reach:
  "pipe_reach e (pipe_start e src c s) p \<Longrightarrow> crew_inv e p"
proof (induction rule: pipe_reach.induct)
  case refl
  show ?case by (simp add: crew_inv_def full_crew_def pipe_start_def)
qed (rule crew_step)

lemma unit_progress:
  assumes us: "p_units p \<noteq> []" and none: "p_completions p = []" and depth: "0 < channel_depth e"
    and crew: "full_crew e p"
  shows "\<exists>p'. pipe_step e p p'"
proof (cases "\<exists>u\<in>set (p_units p). state_rank (w_state u) \<in> {1, 3, 5, 7}")
  case True
  then obtain xs u ys where split: "p_units p = xs @ u # ys" "state_rank (w_state u) \<in> {1, 3, 5, 7}"
    by (meson split_list)
  have room: "length (p_completions p) < channel_depth e" using none depth by simp
  show ?thesis
  proof (cases "w_state u")
    case (Fetching d)
    then show ?thesis using pipe_step.fetch_done [OF split(1)] body_fits [OF room] by blast
  next
    case (Decoding b)
    then show ?thesis using pipe_step.decode_done [OF split(1)] body_fits [OF room] by blast
  next
    case (Writing c rng)
    then show ?thesis using pipe_step.write_done [OF split(1)] body_fits [OF room] by blast
  next
    case Releasing
    then show ?thesis using pipe_step.release [OF split(1)] by blast
  qed (use split(2) in simp_all)
next
  case False
  then have "in_state is_fetching (p_units p) = 0" "in_state is_decoding (p_units p) = 0"
    "in_state is_writing (p_units p) = 0"
    by (auto intro!: in_state_none simp: is_fetching_def is_decoding_def is_writing_def split: work_state.splits)
  then have idle: "in_state is_fetching (p_units p) < p_fetchers p" "in_state is_decoding (p_units p) < p_decoders p"
    "in_state is_writing (p_units p) < p_writers p"
    using crew by (simp_all add: full_crew_def option_max1_pos)
  obtain u ys where hd: "p_units p = [] @ u # ys" using us by (cases "p_units p") auto
  show ?thesis
  proof (cases "w_state u")
    case (Queued d)
    then show ?thesis using pipe_step.fetch_recv [OF hd _ idle(1)] by blast
  next
    case (Fetched b)
    then show ?thesis using pipe_step.decode_recv [OF hd _ idle(2)] by blast
  next
    case (CommitQueued c rng)
    then show ?thesis using pipe_step.write_recv [OF hd _ idle(3)] by blast
  qed (use False hd in simp_all)
qed

lemma progress:
  assumes inv: "pipe_inv e base p" "crew_inv e p" and run: "p_result p = None"
    and closed: "\<not> admission_open (p_actor p)"
  shows "\<exists>p'. pipe_step e p p'"
proof (cases "p_completions p")
  case (Cons c rest)
  have "0 < unat (act_in_flight (p_actor p))" using inv(1) run Cons by (simp add: pipe_inv_def)
  then have busy: "0 < act_in_flight (p_actor p)" by (simp add: unat_gt_0 word_neq_0_conv)
  show ?thesis
  proof (cases c)
    case (CompletionCommitted rng rows)
    then show ?thesis
      using pipe_step.complete [OF run busy] Cons by (metis surj_pair)
  next
    case (CompletionFatal err)
    then show ?thesis using pipe_step.complete_fatal [OF run busy] Cons by metis
  qed
next
  case Nil
  show ?thesis
  proof (cases "p_units p = []")
    case True
    then have "unat (act_in_flight (p_actor p)) = 0" using inv(1) run Nil by (simp add: pipe_inv_def)
    then have "act_in_flight (p_actor p) = 0" by (simp add: unat_eq_zero)
    then show ?thesis using pipe_step.exit [OF run closed] by (metis surj_pair)
  next
    case False
    moreover have "0 < channel_depth e" by (simp add: channel_depth_def option_max1_pos)
    moreover have "full_crew e p" using inv(2) run Nil by (simp add: crew_inv_def no_fatal_def)
    ultimately show ?thesis using unit_progress Nil by blast
  qed
qed

lemma rank_bound:
  fixes p :: "('k, 'r, 's) pipe"
  assumes "pipe_inv e base p"
  shows "rank p \<le> 9 * channel_depth e + 1"
proof -
  have st: "state_rank st \<le> 8" for st :: "'r work_state" by (cases st) simp_all
  have "units_rank us \<le> 8 * length us" for us :: "'r work list"
    by (induction us) (simp_all add: add_mono [OF st])
  then have "units_rank (p_units p) \<le> 8 * length (p_units p)" .
  moreover have "length (p_units p) \<le> channel_depth e" "length (p_completions p) \<le> channel_depth e"
    using assms by (auto simp: pipe_inv_def)
  ultimately show ?thesis
    unfolding rank_def by (cases "p_result p = None") simp_all
qed

lemma drain_run:
  assumes "(pipe_step e ^^ n) p p'" "pipe_inv e base p" "consumer_bounded (pe_ops e)" "\<not> admission_open (p_actor p)"
    and "crew_inv e p"
  shows "n + rank p' \<le> rank p \<and> pipe_inv e base p' \<and> \<not> admission_open (p_actor p') \<and> crew_inv e p'"
  using assms(1)
proof (induction n arbitrary: p')
  case 0
  then show ?case using assms by simp
next
  case (Suc n)
  then obtain q where q: "(pipe_step e ^^ n) p q" "pipe_step e q p'" by auto
  then show ?case
    using Suc.IH [OF q(1)] drain_step [OF q(2)] pipe_step_inv [OF _ assms(3) q(2)] crew_step [OF _ q(2)] by fastforce
qed

text \<open>
  C19. A graceful shutdown always ends: from every reachable state whose admission is closed, whatever
  the order in which workers and actor run and whatever decoder, sink and consumer do, the pipeline
  takes at most nine steps per batch slot plus one, and it stops only with the actor's result; there
  is no deadlock between the stages, the permits and the completion channel.
\<close>

theorem shutdown_terminates:
  assumes base: "last_acked src \<noteq> Some (- 1)" and ops: "consumer_bounded (pe_ops e)"
    and reach: "pipe_reach e (pipe_start e src (ack_new (pe_source e) (last_acked src)) s) p"
    and closed: "\<not> admission_open (p_actor p)"
  shows "(\<forall>n p'. (pipe_step e ^^ n) p p' \<longrightarrow>
       n \<le> 9 * channel_depth e + 1 \<and> ((\<nexists>q. pipe_step e p' q) \<longrightarrow> p_result p' \<noteq> None))"
proof (intro allI impI)
  fix n p' assume run: "(pipe_step e ^^ n) p p'"
  have inv: "pipe_inv e (last_acked src) p" by (rule pipe_reach_inv [OF reach pipe_start_inv [OF base] ops])
  note fin = drain_run [OF run inv ops closed crew_reach [OF reach]]
  have "n \<le> 9 * channel_depth e + 1" using fin rank_bound [OF inv] by linarith
  then show "n \<le> 9 * channel_depth e + 1 \<and> ((\<nexists>q. pipe_step e p' q) \<longrightarrow> p_result p' \<noteq> None)"
    using progress [of e "last_acked src" p'] fin by blast
qed

lemma step_after_result:
  "p_result p \<noteq> None \<Longrightarrow> p_units p = [] \<Longrightarrow> \<not> pipe_step e p p'"
  by (auto elim: pipe_step.cases)

text \<open>
  C20. A failed run unwinds: once the actor has returned an error, in whatever state the batches are and
  whatever the order in which the workers notice the hard abort, at most nine steps per batch slot
  plus one follow, the error stays the result, and when no step is left every batch has been
  dropped, every permit and every byte of the budget has been given back and every stage gauge is
  zero.
\<close>

theorem hard_abort_unwinds:
  assumes base: "last_acked src \<noteq> Some (- 1)" and ops: "consumer_bounded (pe_ops e)"
    and reach: "pipe_reach e (pipe_start e src (ack_new (pe_source e) (last_acked src)) s) p"
    and failed: "p_result p = Some (Inl err)" and run: "(pipe_step e ^^ n) p p'"
  shows "n \<le> 9 * channel_depth e + 1 \<and> p_result p' = Some (Inl err) \<and>
    ((\<nexists>q. pipe_step e p' q) \<longrightarrow> p_units p' = [] \<and> p_permits p' = channel_depth e \<and>
       in_flight (p_budget p') = 0 \<and> (\<forall>k. stage_bytes (p_budget p') k = 0))"
proof -
  have inv: "pipe_inv e (last_acked src) p" by (rule pipe_reach_inv [OF reach pipe_start_inv [OF base] ops])
  have fin: "n + rank p' \<le> rank p \<and> pipe_inv e (last_acked src) p' \<and> p_result p' = Some (Inl err)"
    using run
  proof (induction n arbitrary: p')
    case 0
    then show ?case using inv failed by simp
  next
    case (Suc n)
    then obtain q where q: "(pipe_step e ^^ n) p q" "pipe_step e q p'" by auto
    then show ?case
      using Suc.IH [OF q(1)] worker_step_rank [OF q(2)] pipe_step_inv [OF _ ops q(2)] by fastforce
  qed
  have "p_units p' = []" if "\<nexists>q. pipe_step e p' q"
    using that pipe_step.hard_abort [of p' err "[]" "hd (p_units p')" "tl (p_units p')" e "\<lambda>_. NoAbort"] fin
    by (cases "p_units p'") auto
  moreover have "p_permits p' = channel_depth e" "in_flight (p_budget p') = 0" "\<forall>k. stage_bytes (p_budget p') k = 0"
    if "p_units p' = []"
    using fin that by (auto simp: pipe_inv_def gates_ok_iff)
  moreover have "n \<le> 9 * channel_depth e + 1" using fin rank_bound [OF inv] by linarith
  ultimately show ?thesis using fin by blast
qed

definition example_closed :: "(nat, unit, nat) pipe" where
  "example_closed =
     (let p = drive_n 2 example_env example_start in p\<lparr>p_actor := (p_actor p)\<lparr>admission_open := False\<rparr>\<rparr>)"

lemma example_closed_state:
  "map (state_rank \<circ> w_state) (p_units example_closed) = [7] \<and> p_result example_closed = None"
  "p_result (drive_n 2 example_env example_start) = None"
  "admission_open (p_actor (drive_n 2 example_env example_start))"
  by code_simp+

theorem shutdown_terminates_witness:
  "length (p_units example_closed) = 1 \<and> (\<exists>q. pipe_step example_env example_closed q)"
proof -
  have "pipe_reach example_env example_start example_closed"
    unfolding example_closed_def Let_def
    by (rule pipe_reach.step [OF drive_n_reach [OF pipe_reach.refl]
          pipe_step.shutdown [OF example_closed_state(2,3)]])
  from shutdown_terminates [OF example_base example_bounded this [unfolded example_start_def]]
  have "p_result example_closed \<noteq> None \<or> (\<exists>q. pipe_step example_env example_closed q)"
    by (metis (no_types, lifting) relpowp_0_I example_closed_def actor.select_convs(7) actor.surjective
        actor.update_convs(7) pipe.select_convs(1) pipe.surjective pipe.update_convs(1))
  moreover have "length (p_units example_closed) = 1"
    using example_closed_state(1) by (metis length_map One_nat_def length_Cons list.size(3))
  ultimately show ?thesis using example_closed_state(1) by simp
qed

definition failing_env :: "(nat, unit, nat) pipe_env" where
  "failing_env =
     example_env\<lparr>
       pe_ops := example_ops\<lparr>co_next_descriptors :=
         (\<lambda>n k. (Inr (if k = 0 then take n [\<lparr>bd_sequence = 7, bd_location = ''a'', bd_metadata = []\<rparr>,
                                       \<lparr>bd_sequence = 8, bd_location = ''b'', bd_metadata = []\<rparr>] else []), Suc k))\<rparr>,
       pe_decoder := \<lparr>dec_accepts = (\<lambda>m. True), dec_decode = (\<lambda>b. Inr [])\<rparr>\<rparr>"

definition failing_start :: "(nat, unit, nat) pipe" where
  "failing_start =
     pipe_start failing_env example_source (ack_new (pe_source failing_env) (last_acked example_source)) 0"

definition failed_run :: "(nat, unit, nat) pipe" where
  "failed_run = drive_n 6 failing_env failing_start"

lemma failed_run_state:
  "p_result failed_run = Some (Inl (ErrDecoder EmptyDecodedBatches)) \<and> length (p_units failed_run) = 1"
  by code_simp

theorem hard_abort_unwinds_witness:
  "length (p_units failed_run) = 1 \<and>
   (\<exists>p'. pipe_step failing_env failed_run p' \<and> p_permits p' = channel_depth failing_env \<and>
      in_flight (p_budget p') = 0)"
proof -
  obtain u where u: "p_units failed_run = [] @ u # []"
    using failed_run_state by (auto simp: length_Suc_conv)
  let ?p = "abort_unit failing_env (\<lambda>_. NoAbort) [] u [] failed_run"
  have step: "pipe_step failing_env failed_run ?p"
    by (rule pipe_step.hard_abort [OF conjunct1 [OF failed_run_state] u])
  have reach: "pipe_reach failing_env failing_start failed_run"
    unfolding failed_run_def by (rule drive_n_reach [OF pipe_reach.refl])
  have bounded: "consumer_bounded (pe_ops failing_env)"
    by (auto simp: consumer_bounded_def failing_env_def)
  have final: "\<nexists>q. pipe_step failing_env ?p q"
    using step_after_result [of ?p failing_env] failed_run_state
    by (auto simp: worker_same) (simp add: abort_unit_def release_unit_def)
  have "(pipe_step failing_env ^^ 1) failed_run ?p" using step by (simp add: relcompp_apply)
  from hard_abort_unwinds [OF example_base bounded reach [unfolded failing_start_def]
      conjunct1 [OF failed_run_state] this] final
  have "p_permits ?p = channel_depth failing_env \<and> in_flight (p_budget ?p) = 0" by blast
  then show ?thesis using step failed_run_state by blast
qed

end
