(* ===== verification/Dry_Run.thy ===== *)
theory Dry_Run
  imports Pipeline_Liveness
begin

text \<open>
  Dry-run mode of the pipelined runtime. \<open>rewired\<close> replaces what a run can do to the outside
  world, the sink's methods and the consumer's acknowledgement, by arbitrary other functions; a
  dry run has the same reachable states under every such replacement, so it calls none of them.
\<close>

section \<open>Definitions\<close>

definition rewired ::
  "(u64 \<Rightarrow> 'k \<Rightarrow> (string + unit) \<times> 'k) \<Rightarrow>
   ('r sink_commit \<Rightarrow> 's \<Rightarrow> (sink_commit_failure + sink_commit_result) \<times> 's) \<Rightarrow>
   (commit_identity \<Rightarrow> 's \<Rightarrow> (runtime_error + commit_status) \<times> 's) \<Rightarrow>
   ('k, 'r, 's) pipe_env \<Rightarrow> ('k, 'r, 's) pipe_env" where
  "rewired ack wr check e =
     e\<lparr>pe_ops := (pe_ops e)\<lparr>co_ack_through := ack\<rparr>,
       pe_sink := (pe_sink e)\<lparr>so_write := wr, so_check_committed := check\<rparr>\<rparr>"

definition commit_free :: "'r work \<Rightarrow> bool" where
  "commit_free u = (case w_state u of CommitQueued _ _ \<Rightarrow> False | Writing _ _ \<Rightarrow> False | _ \<Rightarrow> True)"

text \<open>What a dry run leaves alone.\<close>

definition untouched :: "'k buffer_source \<Rightarrow> 's \<Rightarrow> ('k, 'r, 's) pipe \<Rightarrow> bool" where
  "untouched src s p \<longleftrightarrow>
     p_sink p = s \<and> ack_through_recorder (p_actor p) = [] \<and>
     last_acked (act_source (p_actor p)) = last_acked src \<and>
     pending_durable_ack (act_source (p_actor p)) = pending_durable_ack src \<and>
     list_all commit_free (p_units p)"

section \<open>The actor in a dry run\<close>

lemma admission_arm_source:
  assumes "admission_arm ops opts bp sends a b n r = (res, a', b', n', sent)"
  shows "ack_through_recorder a' = ack_through_recorder a \<and>
    last_acked (act_source a') = last_acked (act_source a) \<and>
    pending_durable_ack (act_source a') = pending_durable_ack (act_source a)"
  using assms
  by (auto simp: admission_arm_def next_descriptors_def register_and_send_def Let_def
      dest!: register_all_source split: prod.splits sum.splits if_splits)

lemma admission_arm_rewired [simp]:
  "admission_arm (ops\<lparr>co_ack_through := ack\<rparr>) = admission_arm ops"
  by (intro ext) (simp add: admission_arm_def next_descriptors_def)

lemma completion_dry:
  assumes "dry_run opts" "completion_committed ops opts rng rows a = (res, a')"
  shows "ack_through_recorder a' = ack_through_recorder a \<and> act_source a' = act_source a \<and>
    completion_committed ops' opts rng rows a = (res, a')"
  using assms by (auto simp: completion_committed_def ack_frontier_step_def Let_def split: sum.splits)

lemma exit_dry:
  assumes "dry_run opts" "actor_exit ops opts a = (res, a')"
  shows "ack_through_recorder a' = ack_through_recorder a \<and> act_source a' = act_source a \<and>
    actor_exit ops' opts a = (res, a')"
  using assms by (auto simp: actor_exit_def)

section \<open>The stages in a dry run\<close>

lemma commit_free_simps [simp]:
  "commit_free (u\<lparr>w_state := st\<rparr>) = (case st of CommitQueued _ _ \<Rightarrow> False | Writing _ _ \<Rightarrow> False | _ \<Rightarrow> True)"
  "commit_free (u\<lparr>w_res := r\<rparr>) = commit_free u" "commit_free (queue_unit dr)"
  by (simp_all add: commit_free_def queue_unit_def split: work_state.split)

lemma untouched_moves:
  assumes "untouched src s p" "p_units p = xs @ u # ys"
  shows "(case st of CommitQueued _ _ \<Rightarrow> False | Writing _ _ \<Rightarrow> False | _ \<Rightarrow> True) \<Longrightarrow>
      untouched src s (move_unit k st xs u ys p)"
    and "untouched src s (fail_unit err xs u' ys (p\<lparr>p_budget := b\<rparr>))"
    and "untouched src s (report_unit rng rows xs u' ys (p\<lparr>p_budget := b\<rparr>))"
    and "untouched src s (release_unit xs u' ys p)"
    and "untouched src s (abort_unit e abort xs u ys p)"
  using assms
  by (auto simp: untouched_def move_unit_def fail_unit_def report_unit_def release_unit_def abort_unit_def
      commit_free_def split: prod.split work_state.splits)

lemma untouched_crew [simp]:
  "untouched src s (p\<lparr>p_fetchers := n\<rparr>) = untouched src s p"
  "untouched src s (p\<lparr>p_decoders := n\<rparr>) = untouched src s p"
  by (simp_all add: untouched_def)

lemma abort_rewired:
  assumes "untouched src s p" "p_units p = xs @ u # ys"
  shows "abort_unit (rewired ack wr check e) abort xs u ys p = abort_unit e abort xs u ys p"
  using assms by (cases "w_state u") (simp_all add: untouched_def abort_unit_def commit_free_def)

lemma untouched_fetch:
  assumes "untouched src s p" "p_units p = xs @ u # ys"
  shows "untouched src s (fetch_body e d xs u ys p)"
  using assms untouched_moves(2) [OF assms, of _ u "p_budget p"]
  by (auto simp: fetch_body_def untouched_def split: sum.split)

lemma untouched_decode:
  assumes dry: "dry_run (pe_options e)" and un: "untouched src s p" "p_units p = xs @ u # ys"
  shows "untouched src s (decode_body e batch xs u ys p)"
proof -
  obtain res b r where run: "decode_one (pe_decoder e) (pe_options e) (so_id (pe_sink e)) batch (w_seq u)
      (pe_bp e) (p_budget p) (w_res u) = (res, b, r)"
    by (metis prod_cases3)
  have "res \<noteq> Inr (Live c rng)" for c rng
    using run dry by (auto simp: decode_one_def finish_decode_def Let_def split: sum.splits if_splits prod.splits list.splits)
  then show ?thesis
    using untouched_moves(2,3) [OF un]
    by (auto simp: decode_body_def run split: sum.split decode_outcome.split)
qed

lemma rewired_simps [simp]:
  "pe_options (rewired ack wr check e) = pe_options e" "pe_source (rewired ack wr check e) = pe_source e"
  "pe_decoder (rewired ack wr check e) = pe_decoder e" "pe_bp (rewired ack wr check e) = pe_bp e"
  "channel_depth (rewired ack wr check e) = channel_depth e" "fits (rewired ack wr check e) p = fits e p"
  "so_id (pe_sink (rewired ack wr check e)) = so_id (pe_sink e)"
  "pe_ops (rewired ack wr check e) = (pe_ops e)\<lparr>co_ack_through := ack\<rparr>"
  by (simp_all add: rewired_def pe_bp_def channel_depth_def fits_def)

lemma handle_fetch_rewired [simp]: "handle_fetch (ops\<lparr>co_ack_through := ack\<rparr>) = handle_fetch ops"
  by (intro ext) (simp add: handle_fetch_def)

lemma rewired_bodies [simp]:
  "fetch_body (rewired ack wr check e) = fetch_body e" "decode_body (rewired ack wr check e) = decode_body e"
  by (intro ext; unfold fetch_body_def decode_body_def rewired_simps handle_fetch_rewired; rule HOL.refl)+

lemma dry_step:
  assumes dry: "dry_run (pe_options e)" and un: "untouched src s p" and step: "pipe_step e p p'"
  shows "untouched src s p' \<and> pipe_step (rewired ack wr check e) p p'"
  using step
proof (cases rule: pipe_step.cases)
  case shutdown
  then show ?thesis using un by (auto simp: untouched_def intro: pipe_step.shutdown)
next
  case (admit b n r sends res a' b' n' sent)
  have "pipe_step (rewired ack wr check e) p p'"
    unfolding admit(1) by (rule pipe_step.admit) (use admit in simp_all)
  then show ?thesis
    using un admission_arm_source [OF admit(5)] admit(1) by (auto simp: untouched_def list_all_iff)
next
  case (complete rng rows rest res a')
  note c = completion_dry [OF dry complete(5), of "(pe_ops e)\<lparr>co_ack_through := ack\<rparr>"]
  have "completion_committed (pe_ops (rewired ack wr check e)) (pe_options (rewired ack wr check e)) rng rows
      (p_actor p) = (res, a')"
    using c by (simp only: rewired_simps)
  then have "pipe_step (rewired ack wr check e) p p'"
    unfolding complete(1) by (rule pipe_step.complete [OF complete(2-4)])
  then show ?thesis using un c complete(1) by (auto simp: untouched_def)
next
  case (exit res a')
  note x = exit_dry [OF dry exit(5), of "(pe_ops e)\<lparr>co_ack_through := ack\<rparr>"]
  have "pipe_step (rewired ack wr check e) p p'"
    unfolding exit(1) by (rule pipe_step.exit) (use exit x in simp_all)
  then show ?thesis using un x exit(1) by (auto simp: untouched_def)
next
  case (complete_fatal err rest)
  then show ?thesis using un by (auto simp: untouched_def intro: pipe_step.complete_fatal)
next
  case workers_gone
  then have "pipe_step (rewired ack wr check e) p p'"
    using pipe_step.workers_gone [of p "rewired ack wr check e"] by simp
  then show ?thesis using un workers_gone by (auto simp: untouched_def)
next
  case (fetch_recv xs u ys d)
  then show ?thesis
    using untouched_moves(1) [OF un] pipe_step.fetch_recv [of p xs u ys d "rewired ack wr check e"] by simp
next
  case (fetch_done xs u ys d)
  then show ?thesis
    using untouched_fetch [OF un] pipe_step.fetch_done [of p xs u ys d "rewired ack wr check e"] by simp
next
  case (decode_recv xs u ys batch)
  then show ?thesis
    using untouched_moves(1) [OF un] pipe_step.decode_recv [of p xs u ys batch "rewired ack wr check e"] by simp
next
  case (decode_done xs u ys batch)
  then show ?thesis
    using untouched_decode [OF dry un] pipe_step.decode_done [of p xs u ys batch "rewired ack wr check e"] by simp
next
  case (release xs u ys)
  then show ?thesis
    using untouched_moves(4) [OF un] pipe_step.release [of p xs u ys "rewired ack wr check e"] by simp
next
  case (hard_abort err xs u ys abort)
  then show ?thesis
    using untouched_moves(5) [OF un] pipe_step.hard_abort [of p err xs u ys "rewired ack wr check e" abort]
      abort_rewired [OF un] by simp
qed (use un in \<open>auto simp: untouched_def commit_free_def\<close>)

text \<open>
  C35. A dry run has no effect outside the process: in every reachable state of a runtime with
  \<open>dry_run\<close> set nothing has been acknowledged, in memory or durably, the sink's state is the
  initial one and no batch waits for a write; and the same state is reachable when the sink's
  methods and the consumer's acknowledgement are replaced by any other functions, so that none of
  them was called.
\<close>

theorem dry_run_has_no_effect:
  assumes "dry_run (pe_options e)" and "pipe_reach e (pipe_start e src c s) p"
  shows "untouched src s p \<and> pipe_reach (rewired ack wr check e) (pipe_start e src c s) p"
  using assms(2)
proof (induction rule: pipe_reach.induct)
  case refl
  show ?case by (simp add: untouched_def pipe_start_def actor_start_def pipe_reach.refl)
next
  case (step p p')
  then show ?case using dry_step [OF assms(1)] pipe_reach.step by blast
qed

definition dry_env :: "(nat, unit, nat) pipe_env" where
  "dry_env = example_env\<lparr>pe_options := runtime_options_default\<rparr>"

lemma dry_progress: "length (p_completions (drive_n 5 dry_env example_start)) = 1"
  by code_simp

theorem dry_run_has_no_effect_witness:
  "length (p_completions (drive_n 5 dry_env example_start)) = 1 \<and>
   p_sink (drive_n 5 dry_env example_start) = p_sink example_start \<and>
   pipe_reach (rewired (\<lambda>q k. (Inl ''never'', 0)) (\<lambda>c n. (Inl (Fatal ''never''), 0))
       (\<lambda>i n. (Inr StatusUnknown, 0)) dry_env) example_start (drive_n 5 dry_env example_start)"
proof -
  have dry: "dry_run (pe_options dry_env)" by (simp add: dry_env_def runtime_options_default_def)
  have reach: "pipe_reach dry_env example_start (drive_n 5 dry_env example_start)"
    by (rule drive_n_reach [OF pipe_reach.refl])
  have start: "example_start =
      pipe_start dry_env example_source (ack_new (pe_source example_env) (last_acked example_source)) 0"
    by (simp add: example_start_def pipe_start_def dry_env_def example_env_def pe_bp_def channel_depth_def
        backpressure_for_def runtime_options_default_def)
  have "p_sink example_start = 0" by (simp add: example_start_def pipe_start_def)
  then show ?thesis
    using dry_run_has_no_effect [OF dry, of example_source "ack_new (pe_source example_env) (last_acked example_source)"
        0 "drive_n 5 dry_env example_start"] reach dry_progress
    unfolding start [symmetric] by (simp add: untouched_def)
qed

end
