(* ===== verification/Ingestor_Main.thy ===== *)
theory Ingestor_Main
  imports Ingestor_Config Clickhouse_Sink Dry_Run
begin

text \<open>
  The wiring of the ingestor binary (\<open>bin/clickhouse_ingestor.rs\<close>): the runtime options and the
  sink that \<open>main\<close> derives from the configuration, the builder calls, and the start-up sequence
  with its error contexts. The buffer crate, the object store, figment, the metrics recorder and the
  address parser are parameters (\<open>main_externs\<close>). Signal handling, the metrics server task and
  logging are left out.
\<close>

section \<open>Definitions\<close>

definition dry_run_sink :: "sink_id \<Rightarrow> ('r, 's) sink_ops" where
  "dry_run_sink i =
     \<lparr>so_id = i,
      so_write = (\<lambda>c s. (Inl (Fatal
        ''DryRunSink::write called; runtime should have short-circuited via dry_run=true''), s)),
      so_check_committed = (\<lambda>ident s. (Inr StatusUnknown, s))\<rparr>"

definition ingestor_options :: "'o ingestor_config \<Rightarrow> runtime_options" where
  "ingestor_options cfg =
     (let rt = ic_runtime cfg in
      \<lparr>ack_flush_policy = cfg_ack_flush_policy cfg, dry_run = rts_dry_run rt,
       poll_interval = unat (rts_poll_interval_ms rt),
       max_descriptors_per_poll = rts_max_descriptors_per_poll rt,
       max_retry_attempts = rts_retry_max_attempts rt,
       retry_backoff = unat (rts_retry_initial_backoff_ms rt),
       source_defaults =
         \<lparr>max_inflight_batches = rts_max_inflight_batches rt, max_inflight_bytes = rts_max_inflight_bytes rt,
          estimated_max_batch_bytes = rts_estimated_max_batch_bytes rt,
          fetch_concurrency = rts_fetch_concurrency rt, decode_concurrency = rts_decode_concurrency rt,
          oversize_fault_multiplier = rts_oversize_fault_multiplier rt\<rparr>,
       source_overrides = [],
       sink_options =
         \<lparr>max_concurrent_commits = ss_max_concurrent_commits (ic_sink cfg),
          retry_max_attempts = rts_retry_max_attempts rt,
          retry_initial_backoff_ms = rts_retry_initial_backoff_ms rt\<rparr>\<rparr>)"

definition ingestor_sink_id :: sink_id where
  "ingestor_sink_id = SinkId ''clickhouse_logs''"

definition live_sink :: "otel_externs \<Rightarrow> clickhouse_externs \<Rightarrow> 'o ingestor_config \<Rightarrow> clickhouse_sink" where
  "live_sink ox x cfg =
     clickhouse_sink_new ingestor_sink_id (plan ox (logs_adapter_new x (cfg_logs_adapter_config cfg)))
       (writer_new x (cfg_writer_config cfg))"

definition ingestor_sink ::
  "otel_externs \<Rightarrow> clickhouse_externs \<Rightarrow> 's http_server \<Rightarrow> 'o ingestor_config \<Rightarrow>
   (decoded_log_record list, 's sink_world) sink_ops" where
  "ingestor_sink ox x srv cfg =
     (if rts_dry_run (ic_runtime cfg) then dry_run_sink ingestor_sink_id
      else clickhouse_sink_ops ox x srv Some (live_sink ox x cfg))"

record 'o consumer_config =
  cc_object_store :: 'o
  cc_manifest_path :: string
  cc_data_path_prefix :: string
  cc_gc_interval :: nat
  cc_gc_grace_period :: nat

definition ingestor_consumer_config :: "'o ingestor_config \<Rightarrow> 'o consumer_config" where
  "ingestor_consumer_config cfg =
     \<lparr>cc_object_store = bs_object_store (ic_buffer cfg), cc_manifest_path = bs_manifest_path (ic_buffer cfg),
      cc_data_path_prefix = bs_data_prefix (ic_buffer cfg), cc_gc_interval = 5 * 60,
      cc_gc_grace_period = 10 * 60\<rparr>"

type_synonym ('k, 's) ingestor_runtime =
  "('k, decoded_log_record list decoder_ops, (decoded_log_record list, 's sink_world) sink_ops) runtime"

definition ingestor_build ::
  "otel_externs \<Rightarrow> clickhouse_externs \<Rightarrow> 's http_server \<Rightarrow> 'o ingestor_config \<Rightarrow> 'k \<Rightarrow>
   runtime_error + ('k, 's) ingestor_runtime" where
  "ingestor_build ox x srv cfg consumer =
     (let source = source_new consumer (SourceId ''buffer'') (bs_manifest_path (ic_buffer cfg)) None;
          builder = with_options (ingestor_options cfg) (add_decoder (otlp_logs_decoder ox)
                      (add_source source builder_new))
      in build (set_sink (ingestor_sink ox x srv cfg) builder))"

record ('o, 'st, 'k, 'addr) main_externs =
  mx_merged :: "string \<Rightarrow> string + 'o raw_config"
  mx_explain :: "'o raw_config \<Rightarrow> string"
  mx_install_recorder :: "string + unit"
  mx_object_store :: "'o \<Rightarrow> string + 'st"
  mx_consumer :: "'o consumer_config \<Rightarrow> 'st \<Rightarrow> string + 'k"
  mx_parse_addr :: "string \<Rightarrow> string + 'addr"

datatype main_error =
    LoadingConfig string ingestor_error
  | InstallingRecorder string
  | ConstructingObjectStore string
  | InitializingConsumer string
  | BuildingRuntime runtime_error
  | ParsingBindAddr string string
  | RuntimeFailed runtime_error

definition main_start ::
  "('o, 'st, 'k, 'addr) main_externs \<Rightarrow> otel_externs \<Rightarrow> clickhouse_externs \<Rightarrow> 's http_server \<Rightarrow> string \<Rightarrow>
   main_error + ('k, 's) ingestor_runtime \<times> 'addr" where
  "main_start mx ox x srv path =
     (case load (mx_merged mx) (mx_explain mx) path of
        Inl e \<Rightarrow> Inl (LoadingConfig path e)
      | Inr cfg \<Rightarrow>
     (case mx_install_recorder mx of
        Inl e \<Rightarrow> Inl (InstallingRecorder e)
      | Inr _ \<Rightarrow>
     (case mx_object_store mx (bs_object_store (ic_buffer cfg)) of
        Inl e \<Rightarrow> Inl (ConstructingObjectStore e)
      | Inr store \<Rightarrow>
     (case mx_consumer mx (ingestor_consumer_config cfg) store of
        Inl e \<Rightarrow> Inl (InitializingConsumer e)
      | Inr consumer \<Rightarrow>
     (case ingestor_build ox x srv cfg consumer of
        Inl e \<Rightarrow> Inl (BuildingRuntime e)
      | Inr rt \<Rightarrow>
     (case mx_parse_addr mx (ms_bind_addr (ic_metrics_server cfg)) of
        Inl e \<Rightarrow> Inl (ParsingBindAddr (ms_bind_addr (ic_metrics_server cfg)) e)
      | Inr addr \<Rightarrow> Inr (rt, addr)))))))"

definition main_result :: "runtime_error + unit \<Rightarrow> main_error + unit" where
  "main_result r = (case r of Inl e \<Rightarrow> Inl (RuntimeFailed e) | Inr _ \<Rightarrow> Inr ())"

text \<open>The pipeline that \<open>Runtime::run\<close> starts for a runtime that was built.\<close>

definition runtime_env ::
  "'k consumer_ops \<Rightarrow> ('k, 'r decoder_ops, ('r, 's) sink_ops) runtime \<Rightarrow> ('k, 'r, 's) pipe_env" where
  "runtime_env ops rt =
     \<lparr>pe_ops = ops, pe_decoder = rt_decoder rt, pe_sink = rt_sink rt, pe_options = rt_options rt,
      pe_source = src_id (rt_source rt)\<rparr>"

definition run_start ::
  "'k consumer_ops \<Rightarrow> ('k, 'r decoder_ops, ('r, 's) sink_ops) runtime \<Rightarrow> 's \<Rightarrow>
   runtime_error + ('k, 'r, 's) pipe" where
  "run_start ops rt s =
     (case take_coordinator (src_id (rt_source rt)) (rt_coordinators rt) of
        Inl e \<Rightarrow> Inl e
      | Inr c \<Rightarrow> Inr (pipe_start (runtime_env ops rt) (rt_source rt) c s))"

section \<open>Start-up\<close>

lemma ingestor_build_ok:
  assumes "ingestor_build ox x srv cfg consumer = Inr rt"
  shows "rt = \<lparr>rt_source = source_new consumer (SourceId ''buffer'') (bs_manifest_path (ic_buffer cfg)) None,
      rt_decoder = otlp_logs_decoder ox, rt_sink = ingestor_sink ox x srv cfg,
      rt_coordinators = [(SourceId ''buffer'', ack_new (SourceId ''buffer'') None)],
      rt_options = ingestor_options cfg,
      rt_budget = budget_new (SourceId ''buffer'') (rts_max_inflight_bytes (ic_runtime cfg))\<rparr>"
  using assms [unfolded ingestor_build_def Let_def]
  by (rule build_ok) (auto simp: set_sink_def with_options_def add_decoder_def add_source_def builder_new_def
      source_new_def backpressure_for_def ingestor_options_def Let_def)

lemma run_start_ok:
  assumes "ingestor_build ox x srv cfg consumer = Inr rt"
  shows "run_start ops rt s = Inr (pipe_start (runtime_env ops rt) (rt_source rt)
    (ack_new (pe_source (runtime_env ops rt)) (last_acked (rt_source rt))) s)"
  by (simp add: run_start_def ingestor_build_ok [OF assms] take_coordinator_def acks_take_def source_new_def
      bt_get_def runtime_env_def)

lemma main_start_ok:
  "main_start mx ox x srv path = Inr (rt, addr) \<longleftrightarrow>
     (\<exists>cfg store consumer. load (mx_merged mx) (mx_explain mx) path = Inr cfg \<and> is_ok (mx_install_recorder mx) \<and>
        mx_object_store mx (bs_object_store (ic_buffer cfg)) = Inr store \<and>
        mx_consumer mx (ingestor_consumer_config cfg) store = Inr consumer \<and>
        ingestor_build ox x srv cfg consumer = Inr rt \<and>
        mx_parse_addr mx (ms_bind_addr (ic_metrics_server cfg)) = Inr addr)"
  by (auto simp: main_start_def is_ok_iff split: sum.splits)

definition consistent_backpressure :: "runtime_section \<Rightarrow> bool" where
  "consistent_backpressure rt \<longleftrightarrow>
     rts_estimated_max_batch_bytes rt \<le> rts_max_inflight_bytes rt \<and> rts_max_inflight_batches rt \<noteq> 0 \<and>
     rts_fetch_concurrency rt \<noteq> 0 \<and> rts_decode_concurrency rt \<noteq> 0"

lemma ingestor_build_iff:
  "is_ok (ingestor_build ox x srv cfg consumer) \<longleftrightarrow> consistent_backpressure (ic_runtime cfg)"
  by (simp add: ingestor_build_def Let_def set_sink_def with_options_def add_decoder_def add_source_def
      builder_new_def build_def build_parts_def source_new_def backpressure_for_def ingestor_options_def
      validate_backpressure_def acks_register_source_def acks_new_def bt_get_def consistent_backpressure_def)
    (meson leD not_less)

lemma main_starts_iff:
  "is_ok (main_start mx ox x srv path) \<longleftrightarrow>
     (\<exists>cfg store consumer. load (mx_merged mx) (mx_explain mx) path = Inr cfg \<and> is_ok (mx_install_recorder mx) \<and>
        mx_object_store mx (bs_object_store (ic_buffer cfg)) = Inr store \<and>
        mx_consumer mx (ingestor_consumer_config cfg) store = Inr consumer \<and>
        consistent_backpressure (ic_runtime cfg) \<and> is_ok (mx_parse_addr mx (ms_bind_addr (ic_metrics_server cfg))))"
    (is "?L \<longleftrightarrow> ?R")
proof
  assume ?L
  then obtain rt addr where "main_start mx ox x srv path = Inr (rt, addr)" by (auto simp: is_ok_iff)
  then obtain cfg store consumer where "load (mx_merged mx) (mx_explain mx) path = Inr cfg"
    "is_ok (mx_install_recorder mx)" "mx_object_store mx (bs_object_store (ic_buffer cfg)) = Inr store"
    "mx_consumer mx (ingestor_consumer_config cfg) store = Inr consumer"
    "ingestor_build ox x srv cfg consumer = Inr rt"
    "mx_parse_addr mx (ms_bind_addr (ic_metrics_server cfg)) = Inr addr"
    unfolding main_start_ok by blast
  then show ?R using ingestor_build_iff [of ox x srv cfg consumer] by auto
next
  assume ?R
  then obtain cfg store consumer where c: "load (mx_merged mx) (mx_explain mx) path = Inr cfg"
    "is_ok (mx_install_recorder mx)" "mx_object_store mx (bs_object_store (ic_buffer cfg)) = Inr store"
    "mx_consumer mx (ingestor_consumer_config cfg) store = Inr consumer"
    "is_ok (ingestor_build ox x srv cfg consumer)"
    "is_ok (mx_parse_addr mx (ms_bind_addr (ic_metrics_server cfg)))"
    unfolding ingestor_build_iff by blast
  then obtain rt addr where "ingestor_build ox x srv cfg consumer = Inr rt"
    "mx_parse_addr mx (ms_bind_addr (ic_metrics_server cfg)) = Inr addr"
    unfolding is_ok_iff by blast
  then have "main_start mx ox x srv path = Inr (rt, addr)" unfolding main_start_ok using c by blast
  then show ?L by simp
qed


definition minimal_document :: "unit raw_config" where
  "minimal_document =
     \<lparr>raw_buffer = Some \<lparr>rb_manifest_path = Some ''m'', rb_data_prefix = Some ''d'', rb_object_store = Some ()\<rparr>,
      raw_clickhouse = Some \<lparr>rc_endpoint = Some ''http://x:8123'', rc_database = Some ''db'', rc_table = Some ''t'',
        rc_insert_quorum = None, rc_user = None, rc_password = None\<rparr>,
      raw_runtime = Some \<lparr>rr_dry_run = None, rr_poll_interval_ms = None, rr_retry_max_attempts = Some 3,
        rr_retry_initial_backoff_ms = None, rr_request_timeout_secs = None, rr_max_inflight_batches = None,
        rr_max_inflight_bytes = None, rr_estimated_max_batch_bytes = None, rr_fetch_concurrency = None,
        rr_decode_concurrency = None, rr_oversize_fault_multiplier = None, rr_max_descriptors_per_poll = None\<rparr>,
      raw_ack = Some \<lparr>ra_policy = Some PolicyEveryN, ra_n = Some 0\<rparr>,
      raw_adapter = Some \<lparr>rd_adapter_version = Some 1, rd_max_chunk_rows = Some 1, rd_max_chunk_bytes = Some 1,
        rd_apply_deduplication_token = None\<rparr>,
      raw_sink = None, raw_bind_addr = None\<rparr>"

definition example_mx :: "(unit, unit, nat, string) main_externs" where
  "example_mx =
     \<lparr>mx_merged = (\<lambda>path. if path = ''ok.yaml'' then Inr minimal_document else Inl ''no such file''),
      mx_explain = (\<lambda>raw. ''missing field''), mx_install_recorder = Inr (), mx_object_store = (\<lambda>cfg. Inr ()),
      mx_consumer = (\<lambda>c st. Inr 0), mx_parse_addr = (\<lambda>addr. Inr addr)\<rparr>"

lemma example_load:
  "\<exists>cfg. load (mx_merged example_mx) (mx_explain example_mx) ''ok.yaml'' = Inr cfg \<and>
     rts_retry_max_attempts (ic_runtime cfg) = 3 \<and> consistent_backpressure (ic_runtime cfg)"
  by (simp add: load_def example_mx_def minimal_document_def deserialize_def deserialize_buffer_def
      deserialize_clickhouse_def deserialize_runtime_def deserialize_ack_def deserialize_adapter_def or_default_def
      consistent_backpressure_def default_runtime_section_def Let_def)


section \<open>The defaults\<close>

definition only_required :: "'o raw_config \<Rightarrow> bool" where
  "only_required r \<longleftrightarrow>
     raw_runtime r = Some \<lparr>rr_dry_run = None, rr_poll_interval_ms = None, rr_retry_max_attempts = None,
        rr_retry_initial_backoff_ms = None, rr_request_timeout_secs = None, rr_max_inflight_batches = None,
        rr_max_inflight_bytes = None, rr_estimated_max_batch_bytes = None, rr_fetch_concurrency = None,
        rr_decode_concurrency = None, rr_oversize_fault_multiplier = None, rr_max_descriptors_per_poll = None\<rparr> \<and>
     (\<exists>ch. raw_clickhouse r = Some ch \<and> rc_insert_quorum ch = None \<and> rc_user ch = None \<and> rc_password ch = None) \<and>
     raw_ack r = Some \<lparr>ra_policy = Some PolicyEveryCommitGroup, ra_n = None\<rparr> \<and>
     raw_sink r = None \<and> raw_bind_addr r = None"


definition default_document :: "unit raw_config" where
  "default_document =
     minimal_document\<lparr>raw_runtime := map_option (\<lambda>r. r\<lparr>rr_retry_max_attempts := None\<rparr>) (raw_runtime minimal_document),
       raw_ack := Some \<lparr>ra_policy = Some PolicyEveryCommitGroup, ra_n = None\<rparr>\<rparr>"


end
