(* ===== verification/Flush_Window.thy ===== *)
theory Flush_Window
  imports Pipeline_Liveness
begin

text \<open>
  What a crash replays. The actor acknowledges in memory and flushes by policy
  (\<open>AckFlushPolicy\<close>); the buffer replays everything above the mark that its consumer holds
  durably. The mark is a function of the consumer state, a parameter, and \<open>consumer_durable\<close>
  states what the buffer documents of it.
\<close>

section \<open>The durable mark\<close>

text \<open>
  An acknowledgement that succeeds moves the mark, one that fails may or may not have moved it, and
  polling leaves it alone.
\<close>

definition consumer_durable :: "'k consumer_ops \<Rightarrow> ('k \<Rightarrow> u64 option) \<Rightarrow> bool" where
  "consumer_durable ops mark \<longleftrightarrow>
     (\<forall>q k k'. co_ack_through ops q k = (Inr (), k') \<longrightarrow> mark k' = Some q) \<and>
     (\<forall>q k e k'. co_ack_through ops q k = (Inl e, k') \<longrightarrow> mark k' = mark k \<or> mark k' = Some q) \<and>
     (\<forall>n k. mark (snd (co_next_descriptors ops n k)) = mark k)"

definition source_mark :: "('k \<Rightarrow> u64 option) \<Rightarrow> 'k actor \<Rightarrow> u64 option" where
  "source_mark mark a = mark (src_consumer (act_source a))"

definition flush_window :: "ack_flush_policy \<Rightarrow> nat" where
  "flush_window policy = (case policy of EveryCommitGroup \<Rightarrow> 1 | EveryN n \<Rightarrow> unat (max n 1))"

text \<open>
  The state of the flush: the last \<open>groups_since_flush\<close> acknowledgements are in memory only, the one
  before them is the durable mark.
\<close>

definition flush_state_ok ::
  "runtime_options \<Rightarrow> ('k \<Rightarrow> u64 option) \<Rightarrow> u64 option \<Rightarrow> 'k actor \<Rightarrow> bool" where
  "flush_state_ok opts mark base a =
     (let log = ack_through_recorder a; n = unat (groups_since_flush a)
      in n < flush_window (ack_flush_policy opts) \<and> n \<le> length log \<and>
         source_mark mark a = last_opt base (take (length log - n) log) \<and>
         pending_durable_ack (act_source a) = (if n = 0 then None else Some (last log)))"

definition mark_logged :: "('k \<Rightarrow> u64 option) \<Rightarrow> u64 option \<Rightarrow> 'k actor \<Rightarrow> bool" where
  "mark_logged mark base a \<longleftrightarrow>
     (\<exists>n\<le>length (ack_through_recorder a). source_mark mark a = last_opt base (take n (ack_through_recorder a)))"

lemma flush_state_logged:
  assumes "flush_state_ok opts mark base a"
  shows "mark_logged mark base a"
  unfolding mark_logged_def
  using assms
  by (intro exI [of _ "length (ack_through_recorder a) - unat (groups_since_flush a)"])
     (simp add: flush_state_ok_def Let_def)

lemma mark_logged_member:
  assumes "mark_logged mark base a"
  shows "source_mark mark a = base \<or> (\<exists>q\<in>set (ack_through_recorder a). source_mark mark a = Some q)"
  using assms unfolding mark_logged_def last_opt_def by (metis in_set_takeD last_in_set)

lemma flush_window_pos [simp]: "0 < flush_window policy"
  by (cases policy) (auto simp: flush_window_def unat_gt_0 max_def word_le_nat_alt)

lemma groups_count:
  assumes "unat g < flush_window policy"
  shows "unat (saturating_add g 1) = Suc (unat g)"
    "should_flush policy (saturating_add g 1) \<longleftrightarrow> Suc (unat g) = flush_window policy"
proof -
  have "flush_window policy < 2 ^ 32"
    using unsigned_less [of "case policy of EveryCommitGroup \<Rightarrow> 1 | EveryN n \<Rightarrow> max n 1"]
    by (cases policy) (simp_all add: flush_window_def)
  then show add: "unat (saturating_add g 1) = Suc (unat g)"
    using assms by (simp add: unat_saturating_add)
  show "should_flush policy (saturating_add g 1) \<longleftrightarrow> Suc (unat g) = flush_window policy"
    using assms
    by (cases policy) (auto simp: should_flush_def flush_window_def word_le_nat_alt add)
qed

lemma ack_advance_window:
  assumes dur: "consumer_durable ops mark" and ok: "flush_state_ok opts mark base a"
    and run: "ack_advance ops opts f a = (res, a')"
  shows "mark_logged mark base a' \<and> (res = Inr () \<longrightarrow> flush_state_ok opts mark base a')"
proof -
  let ?log = "ack_through_recorder a" and ?n = "unat (groups_since_flush a)"
    and ?k = "src_consumer (act_source a)" and ?w = "flush_window (ack_flush_policy opts)"
  have st: "?n < ?w" "?n \<le> length ?log" "mark ?k = last_opt base (take (length ?log - ?n) ?log)"
    using ok by (simp_all add: flush_state_ok_def source_mark_def Let_def)
  note count = groups_count [OF st(1)]
  have log: "ack_through_recorder a' = ?log @ [f]" by (rule ack_advance_facts(2) [OF run])
  show ?thesis
  proof (cases "Suc ?n = ?w")
    case False
    then have "act_source a' = ack_through f (act_source a)" "res = Inr ()"
      "unat (groups_since_flush a') = Suc ?n"
      using run count by (auto simp: ack_advance_def Let_def)
    then have "flush_state_ok opts mark base a'"
      using st log False by (simp add: flush_state_ok_def source_mark_def ack_through_def Let_def)
    then show ?thesis using flush_state_logged by blast
  next
    case True
    obtain r k' where ack: "co_ack_through ops f ?k = (r, k')" by fastforce
    show ?thesis
    proof (cases r)
      case (Inr u)
      then have "mark k' = Some f" using dur ack by (simp add: consumer_durable_def)
      moreover have "src_consumer (act_source a') = k'" "groups_since_flush a' = 0"
        "pending_durable_ack (act_source a') = None"
        using run True count ack Inr
        by (auto simp: ack_advance_def flush_acks_def ack_through_def Let_def)
      ultimately have "flush_state_ok opts mark base a'"
        using log by (simp add: flush_state_ok_def source_mark_def)
      then show ?thesis using flush_state_logged by blast
    next
      case (Inl e)
      then have "src_consumer (act_source a') = k'" "res = Inl (ErrSource e)"
        using run True count ack
        by (auto simp: ack_advance_def flush_acks_def ack_through_def Let_def)
      moreover have "mark k' = mark ?k \<or> mark k' = Some f"
        using dur ack Inl by (auto simp: consumer_durable_def)
      moreover have "mark ?k = last_opt base (take (length ?log - ?n) (?log @ [f]))"
        using st(3) by simp
      moreover have "Some f = last_opt base (take (Suc (length ?log)) (?log @ [f]))" by simp
      moreover have "length ?log - ?n \<le> Suc (length ?log)" by simp
      ultimately show ?thesis
        unfolding mark_logged_def source_mark_def log length_append_singleton by (metis Inl_Inr_False le_refl)
    qed
  qed
qed

lemma completion_window:
  assumes dur: "consumer_durable ops mark" and ok: "flush_state_ok opts mark base a"
    and run: "completion_committed ops opts rng rows a = (res, a')"
  shows "mark_logged mark base a' \<and> (res = Inr () \<longrightarrow> flush_state_ok opts mark base a')"
proof (cases "mark_committed (coordinator a) (fst rng) (snd rng)")
  case (Inl e)
  then show ?thesis
    using run ok flush_state_logged by (auto simp: completion_committed_def)
next
  case (Inr c)
  let ?a1 = "a\<lparr>coordinator := advance_frontier c, act_in_flight := act_in_flight a - 1,
                progress := count_completion (snd rng) rows (progress a)\<rparr>"
  have keep [simp]: "flush_state_ok opts mark base (x\<lparr>progress := g\<rparr>) = flush_state_ok opts mark base x"
    "mark_logged mark base (x\<lparr>progress := g\<rparr>) = mark_logged mark base x" for x g
    by (simp_all add: flush_state_ok_def mark_logged_def source_mark_def)
  obtain res2 a2 where st: "ack_frontier_step ops opts ?a1 = (res2, a2)" by fastforce
  have ok1: "flush_state_ok opts mark base ?a1"
    using ok by (simp add: flush_state_ok_def source_mark_def)
  have "mark_logged mark base a2 \<and> (res2 = Inr () \<longrightarrow> flush_state_ok opts mark base a2)"
    using st ack_advance_window [OF dur ok1, of _ res2 a2] ok1 flush_state_logged [OF ok1]
    by (auto simp: ack_frontier_step_def split: if_splits option.splits)
  then show ?thesis
    using run Inr st by (auto simp: completion_committed_def Let_def split: sum.splits)
qed

lemma poll_keeps_mark:
  assumes "consumer_durable ops mark" "next_descriptors ops n bud src = (res, src')"
  shows "mark (src_consumer src') = mark (src_consumer src) \<and> pending_durable_ack src' = pending_durable_ack src"
proof -
  have "mark (snd (co_next_descriptors ops n (src_consumer src))) = mark (src_consumer src)"
    using assms(1) by (simp add: consumer_durable_def)
  then show ?thesis
    using assms(2) by (auto simp: next_descriptors_def split: prod.splits sum.splits)
qed

lemma admission_window:
  assumes dur: "consumer_durable ops mark"
    and run: "admission_arm ops opts bp sends a b permits r0 = (res, a', b', permits', sent)"
  shows "source_mark mark a' = source_mark mark a \<and>
    pending_durable_ack (act_source a') = pending_durable_ack (act_source a) \<and>
    ack_through_recorder a' = ack_through_recorder a \<and> groups_since_flush a' = groups_since_flush a"
  using run unfolding admission_arm_def register_and_send_def source_mark_def
  by (fastforce simp: Let_def dest: register_all_source poll_keeps_mark [OF dur]
      split: prod.splits sum.splits if_splits)

lemma exit_window:
  assumes dur: "consumer_durable ops mark" and ok: "flush_state_ok opts mark base a"
    and idle: "dry_run opts \<Longrightarrow> ack_through_recorder a = []"
    and run: "actor_exit ops opts a = (res, a')"
  shows "mark_logged mark base a' \<and>
    (res = Inr () \<longrightarrow> source_mark mark a' = last_opt base (ack_through_recorder a'))"
proof -
  let ?log = "ack_through_recorder a" and ?n = "unat (groups_since_flush a)"
    and ?k = "src_consumer (act_source a)"
  have st: "?n \<le> length ?log" "mark ?k = last_opt base (take (length ?log - ?n) ?log)"
    "pending_durable_ack (act_source a) = (if ?n = 0 then None else Some (last ?log))"
    using ok by (simp_all add: flush_state_ok_def source_mark_def Let_def)
  have log: "ack_through_recorder a' = ?log"
    using run by (auto simp: actor_exit_def Let_def split: prod.splits sum.splits)
  have full: "Some (last ?log) = last_opt base (take (length ?log) ?log)" if "?n \<noteq> 0"
    using that st(1) by (auto simp: last_opt_def)
  show ?thesis
  proof (cases "dry_run opts \<or> ?n = 0")
    case True
    then have "act_source a' = act_source a" "?n = 0"
      using run st idle by (auto simp: actor_exit_def flush_acks_def Let_def split: if_splits)
    then show ?thesis
      using st log by (auto simp: mark_logged_def source_mark_def)
  next
    case False
    obtain r k' where ack: "co_ack_through ops (last ?log) ?k = (r, k')" by fastforce
    have k': "src_consumer (act_source a') = k'" "res = Inr () \<longleftrightarrow> r = Inr ()"
      using run False st(3) ack
      by (auto simp: actor_exit_def flush_acks_def Let_def split: sum.splits)
    have "mark k' = mark ?k \<or> mark k' = Some (last ?log)" "r = Inr () \<Longrightarrow> mark k' = Some (last ?log)"
      using dur ack by (cases r; auto simp: consumer_durable_def)+
    then show ?thesis
      using k' st(2) full False unfolding mark_logged_def source_mark_def log
      by (metis diff_le_self le_refl take_all)
  qed
qed

section \<open>The replay window\<close>

definition window_inv ::
  "('k, 'r, 's) pipe_env \<Rightarrow> ('k \<Rightarrow> u64 option) \<Rightarrow> u64 option \<Rightarrow> ('k, 'r, 's) pipe \<Rightarrow> bool" where
  "window_inv e mark base p =
     (mark_logged mark base (p_actor p) \<and>
      (p_result p = None \<longrightarrow> flush_state_ok (pe_options e) mark base (p_actor p)) \<and>
      (p_result p = Some (Inr ()) \<longrightarrow>
         source_mark mark (p_actor p) = last_opt base (ack_through_recorder (p_actor p))))"

lemma window_start:
  assumes "mark (src_consumer src) = last_acked src" "pending_durable_ack src = None"
  shows "window_inv e mark (last_acked src) (pipe_start e src c s)"
  using assms
  by (simp add: window_inv_def mark_logged_def flush_state_ok_def source_mark_def pipe_start_def actor_start_def)

lemma window_step:
  assumes dur: "consumer_durable (pe_ops e) mark" and inv: "window_inv e mark base p" "pipe_inv e base p"
    and step: "pipe_step e p p'"
  shows "window_inv e mark base p'"
  using step
proof (cases rule: pipe_step.cases)
  case shutdown
  then show ?thesis
    using inv(1) by (simp add: window_inv_def mark_logged_def flush_state_ok_def source_mark_def)
next
  case (admit b n r sends res a' b' n' sent)
  note same = admission_window [OF dur admit(5)]
  have "mark_logged mark base a'" "flush_state_ok (pe_options e) mark base a'"
    using same inv(1) admit(2) by (simp_all add: window_inv_def mark_logged_def flush_state_ok_def)
  then show ?thesis
    using admit(1) by (auto simp: window_inv_def result_of_def split: sum.splits)
next
  case (complete rng rows rest res a')
  then have "flush_state_ok (pe_options e) mark base (p_actor p)" using inv(1) by (simp add: window_inv_def)
  from completion_window [OF dur this complete(5)] show ?thesis
    using complete(1) by (auto simp: window_inv_def result_of_def split: sum.splits)
next
  case (exit res a')
  have "flush_state_ok (pe_options e) mark base (p_actor p)"
    "dry_run (pe_options e) \<Longrightarrow> ack_through_recorder (p_actor p) = []"
    using inv exit(2) by (simp_all add: window_inv_def pipe_inv_def actor_inv_def ack_log_inv_def)
  from exit_window [OF dur this exit(5)] show ?thesis
    using exit(1) by (simp add: window_inv_def)
qed (use inv(1) in \<open>simp_all add: window_inv_def worker_same\<close>)

lemma acked_committed:
  assumes "actor_inv opts base a" "q \<in> set (ack_through_recorder a)"
  shows "{start_seq (coordinator a)..unat q} \<subseteq> committed_seqs (coordinator a)"
proof -
  have log: "ack_log_inv opts base a" using assms(1) by (simp add: actor_inv_def)
  then obtain g where g: "frontier (coordinator a) = Some g" "last (ack_through_recorder a) = g"
    using assms(2) by (auto simp: ack_log_inv_def split: option.splits if_splits)
  have "q \<le> g"
    using log assms(2) g(2) sorted_wrt_last_le [of "ack_through_recorder a" q] by (simp add: ack_log_inv_def)
  then have "{start_seq (coordinator a)..unat q} \<subseteq> {start_seq (coordinator a)..<next_seq (coordinator a)}"
    using g(1) by (auto simp: next_seq_def frontier_def word_le_nat_alt)
  then show ?thesis using committed_prefix by blast
qed

lemma last_ack_logged:
  "actor_inv opts base a \<Longrightarrow> last_acked (act_source a) = last_opt base (ack_through_recorder a)"
  by (auto simp: actor_inv_def ack_log_inv_def last_opt_def split: if_splits option.splits)

text \<open>
  C2. What a crash can replay is bounded by the flush policy. In every reachable state the durable
  mark of the consumer is the one the run started with, or a sequence up to which everything admitted
  has been committed, so that a restart at the mark loses nothing. While the actor runs, the mark is
  behind the in-memory acknowledgements by exactly the \<open>groups_since_flush\<close> last of them, which are
  fewer than the policy's \<open>n\<close> (none under \<open>EveryCommitGroup\<close>); after a clean exit it is the last
  acknowledgement.
\<close>

theorem replay_window_bounded:
  assumes base: "last_acked src \<noteq> Some (- 1)" and ops: "consumer_bounded (pe_ops e)"
    and dur: "consumer_durable (pe_ops e) mark"
    and start: "mark (src_consumer src) = last_acked src" "pending_durable_ack src = None"
    and reach: "pipe_reach e (pipe_start e src (ack_new (pe_source e) (last_acked src)) s) p"
  shows "let a = p_actor p; log = ack_through_recorder a; n = unat (groups_since_flush a) in
    (source_mark mark a = last_acked src \<or>
      (\<exists>q. source_mark mark a = Some q \<and>
           {start_seq (coordinator a)..unat q} \<subseteq> committed_seqs (coordinator a)))
    \<and> (p_result p = None \<longrightarrow>
         n < flush_window (ack_flush_policy (pe_options e)) \<and> n \<le> length log
         \<and> source_mark mark a = last_opt (last_acked src) (take (length log - n) log))
    \<and> (p_result p = Some (Inr ()) \<longrightarrow> source_mark mark a = last_acked (act_source a))"
proof -
  have inv: "pipe_inv e (last_acked src) p \<and> window_inv e mark (last_acked src) p"
    using reach
  proof (induction rule: pipe_reach.induct)
    case refl
    then show ?case
      using pipe_start_inv [OF base, of e "pe_source e" s]
        window_start [of mark src e "ack_new (pe_source e) (last_acked src)" s, OF start] by simp
  next
    case (step p p')
    then show ?case using pipe_step_inv [OF _ ops] window_step [OF dur] by blast
  qed
  then have ai: "actor_inv (pe_options e) (last_acked src) (p_actor p)" by (simp add: pipe_inv_def)
  have "source_mark mark (p_actor p) = last_acked src \<or>
      (\<exists>q. source_mark mark (p_actor p) = Some q \<and>
           {start_seq (coordinator (p_actor p))..unat q} \<subseteq> committed_seqs (coordinator (p_actor p)))"
    using mark_logged_member acked_committed [OF ai] inv unfolding window_inv_def by blast
  then show ?thesis
    using inv last_ack_logged [OF ai] by (simp add: window_inv_def flush_state_ok_def Let_def)
qed

text \<open>A consumer that stores its mark, and a policy that flushes at every second acknowledgement.\<close>

definition marking_ops :: "(nat \<times> u64 option) consumer_ops" where
  "marking_ops =
     \<lparr>co_next_descriptors =
        (\<lambda>n (k, m). (Inr (if k = 0 \<and> 0 < n then [\<lparr>bd_sequence = 7, bd_location = ''obj'', bd_metadata = []\<rparr>] else []),
                     Suc k, m)),
      co_ack_through = (\<lambda>q (k, m). (Inr (), k, Some q)), co_len = (\<lambda>k. 0), co_fetch = co_fetch example_ops\<rparr>"

definition lagging_env :: "(nat \<times> u64 option, unit, nat) pipe_env" where
  "lagging_env =
     \<lparr>pe_ops = marking_ops, pe_decoder = pe_decoder example_env, pe_sink = flaky_sink,
      pe_options = runtime_options_default\<lparr>dry_run := False, ack_flush_policy := EveryN 2\<rparr>,
      pe_source = SourceId ''s''\<rparr>"

definition marking_source :: "(nat \<times> u64 option) buffer_source" where
  "marking_source = source_new (0, None) (SourceId ''s'') ''m'' None"

definition lagging_run :: "(nat \<times> u64 option, unit, nat) pipe" where
  "lagging_run =
     drive_n 8 lagging_env
       (pipe_start lagging_env marking_source (ack_new (pe_source lagging_env) (last_acked marking_source)) 0)"

lemma lagging_acknowledged:
  "ack_through_recorder (p_actor lagging_run) = [7] \<and> groups_since_flush (p_actor lagging_run) = 1 \<and>
   p_result lagging_run = None"
  by code_simp

theorem replay_window_bounded_witness:
  "ack_through_recorder (p_actor lagging_run) = [7] \<and> source_mark snd (p_actor lagging_run) = None \<and>
   p_result lagging_run = None"
proof -
  have "consumer_bounded (pe_ops lagging_env)" "consumer_durable (pe_ops lagging_env) snd"
    by (auto simp: consumer_bounded_def consumer_durable_def lagging_env_def marking_ops_def)
  moreover have "last_acked marking_source = None" "pending_durable_ack marking_source = None"
    "snd (src_consumer marking_source) = last_acked marking_source"
    by (simp_all add: marking_source_def source_new_def)
  moreover have "pipe_reach lagging_env (pipe_start lagging_env marking_source
      (ack_new (pe_source lagging_env) (last_acked marking_source)) 0) lagging_run"
    unfolding lagging_run_def by (rule drive_n_reach [OF pipe_reach.refl])
  ultimately show ?thesis
    using replay_window_bounded [of marking_source lagging_env snd 0 lagging_run] lagging_acknowledged
    by (simp add: Let_def)
qed

end
