(* ===== verification/Metrics.thy ===== *)
theory Metrics
  imports Sink_Writer Clickhouse_Writer
begin

text \<open>
  The metric surface (\<open>metrics.rs\<close> of the runtime and of the ClickHouse plugin), the registry
  of the ingestor (\<open>metrics_registry.rs\<close>) and the routes of its metrics server
  (\<open>metrics_server.rs\<close>). The metric structs are tables from field to family; histogram bounds are
  in ten-thousandths of the unit. The text encoder and the handle of the other metrics backend are
  parameters. What is emitted is the subject of \<open>Writer_Metrics\<close> and \<open>Pipeline_Metrics\<close>.
\<close>

section \<open>Definitions\<close>

datatype backpressure_reason = ReasonSourceBudget | ReasonDecodeBudget | ReasonSinkBudget | ReasonRetrying | ReasonFatalError

fun backpressure_reason_label :: "backpressure_reason \<Rightarrow> string" where
  "backpressure_reason_label ReasonSourceBudget = ''source_budget''"
| "backpressure_reason_label ReasonDecodeBudget = ''decode_budget''"
| "backpressure_reason_label ReasonSinkBudget = ''sink_budget''"
| "backpressure_reason_label ReasonRetrying = ''retrying''"
| "backpressure_reason_label ReasonFatalError = ''fatal_error''"

datatype insert_result = InsertOk | InsertRetryable | InsertNonRetryable | InsertRetryBudgetExhausted

fun insert_result_label :: "insert_result \<Rightarrow> string" where
  "insert_result_label InsertOk = ''ok''"
| "insert_result_label InsertRetryable = ''retryable''"
| "insert_result_label InsertNonRetryable = ''non_retryable''"
| "insert_result_label InsertRetryBudgetExhausted = ''retry_budget_exhausted''"

datatype metric_kind = Counter | Gauge | Histogram "nat list"

record metric_family =
  mf_labels :: "string list"
  mf_kind :: metric_kind

abbreviation family :: "string list \<Rightarrow> metric_kind \<Rightarrow> metric_family" where
  "family ls k \<equiv> \<lparr>mf_labels = ls, mf_kind = k\<rparr>"

definition seconds_histogram_buckets :: "nat list" where
  "seconds_histogram_buckets =
     [10, 25, 50, 100, 250, 500, 1000, 2500, 5000, 10000, 25000, 50000, 100000, 300000]"

definition admission_batch_buckets :: "nat list" where
  "admission_batch_buckets = map ((*) 10000) [0, 1, 2, 4, 8, 16, 32, 64]"

definition bytes_histogram_buckets :: "nat list" where
  "bytes_histogram_buckets =
     map ((*) 10000) [1024, 4096, 16384, 65536, 262144, 1048576, 4194304, 16777216, 67108864]"

definition rows_histogram_buckets :: "nat list" where
  "rows_histogram_buckets = map ((*) 10000) [100, 500, 1000, 5000, 10000, 50000, 100000, 500000, 1000000]"

definition runtime_metrics :: "(string \<times> metric_family) list" where
  "runtime_metrics =
     [(''backpressure_reason'', family [''source'', ''reason''] Counter),
      (''descriptors_handed_out'', family [''source''] Counter),
      (''bytes_fetched'', family [''source''] Counter),
      (''records_decoded'', family [''source''] Counter),
      (''sink_commits'', family [''source'', ''sink'', ''result''] Counter),
      (''admission_next_descriptors_calls'', family [''source''] Counter),
      (''admission_extension_releases'', family [''source''] Counter),
      (''ack_frontier'', family [''source''] Gauge),
      (''pending_ranges'', family [''source''] Gauge),
      (''buffer_consumer_seq_lag'', family [''source''] Gauge),
      (''stage_queue_depth'', family [''stage'', ''source''] Gauge),
      (''stage_inflight_bytes'', family [''stage'', ''source''] Gauge),
      (''sink_queue_depth'', family [''sink''] Gauge),
      (''sink_inflight_bytes'', family [''sink''] Gauge),
      (''ack_lag_seconds'', family [''source''] (Histogram seconds_histogram_buckets)),
      (''stage_latency_seconds'', family [''stage'', ''source''] (Histogram seconds_histogram_buckets)),
      (''admission_descriptors_per_call'', family [''source''] (Histogram admission_batch_buckets))]"

definition runtime_registrations :: "(string \<times> string \<times> string) list" where
  "runtime_registrations =
     [(''runtime_backpressure_reason'',
        ''Backpressure events emitted by the runtime, labeled by source and reason.'',
        ''backpressure_reason''),
      (''runtime_descriptors_handed_out'',
        ''Source descriptors admitted into the runtime pipeline.'',
        ''descriptors_handed_out''),
      (''ingestor_bytes_fetched'',
        ''Bytes pulled from the buffer source per fetched batch.'',
        ''bytes_fetched''),
      (''ingestor_records_decoded'',
        ''Records produced by the decoder stage.'',
        ''records_decoded''),
      (''runtime_sink_commits'',
        ''Sink commit attempts labeled by source, sink, and result.'',
        ''sink_commits''),
      (''runtime_admission_next_descriptors_calls'',
        ''Admission-arm invocations of next_descriptors per source.'',
        ''admission_next_descriptors_calls''),
      (''runtime_admission_extension_releases'',
        ''Excess gates released when next_descriptors returned fewer descriptors than gates acquired.'',
        ''admission_extension_releases''),
      (''runtime_ack_frontier'',
        ''Highest ack-through sequence the runtime has surfaced for a source.'',
        ''ack_frontier''),
      (''runtime_pending_ranges'',
        ''Number of pending commit ranges tracked by the coordinator.'',
        ''pending_ranges''),
      (''buffer_consumer_sequence_lag'',
        ''head_sequence '' @ [CHR 0xE2, CHR 0x88, CHR 0x92] @ '' last_acked_sequence as observed at last manifest read/write.'',
        ''buffer_consumer_seq_lag''),
      (''runtime_stage_queue_depth'',
        ''Pending items in each per-stage channel, labeled by stage and source.'',
        ''stage_queue_depth''),
      (''runtime_stage_inflight_bytes'',
        ''In-flight bytes per stage, labeled by stage and source.'',
        ''stage_inflight_bytes''),
      (''runtime_sink_queue_depth'',
        ''Pending sink commits in the dispatch queue, labeled by sink.'',
        ''sink_queue_depth''),
      (''runtime_sink_inflight_bytes'',
        ''In-flight bytes pinned by concurrent sink commits, labeled by sink.'',
        ''sink_inflight_bytes''),
      (''runtime_ack_lag_seconds'',
        ''Time spent waiting on ack-through coordination.'',
        ''ack_lag_seconds''),
      (''runtime_stage_latency_seconds'',
        ''Per-batch latency at each stage, labeled by stage and source.'',
        ''stage_latency_seconds''),
      (''runtime_admission_descriptors_per_call'',
        ''Descriptors returned by each next_descriptors invocation in the admission arm.'',
        ''admission_descriptors_per_call'')]"


definition clickhouse_metrics :: "(string \<times> metric_family) list" where
  "clickhouse_metrics =
     [(''rows_committed'', family [''run_id''] Counter),
      (''commit_bytes'', family [] Counter),
      (''retry_count'', family [''reason''] Counter),
      (''insert_errors'', family [''status_code''] Counter),
      (''http_concurrent_inflight'', family [''http_mode''] Gauge),
      (''serialization_duration_seconds'', family [''format''] (Histogram seconds_histogram_buckets)),
      (''serialized_bytes'', family [''format''] (Histogram bytes_histogram_buckets)),
      (''chunk_rows'', family [''format''] (Histogram rows_histogram_buckets)),
      (''insert_duration_seconds'', family [''format'', ''http_mode'', ''result''] (Histogram seconds_histogram_buckets))]"

definition clickhouse_registrations :: "(string \<times> string \<times> string) list" where
  "clickhouse_registrations =
     [(''clickhouse_ingestor_rows_committed'',
        ''Rows successfully committed to ClickHouse, labeled by _odb_run_id.'',
        ''rows_committed''),
      (''ingestor_commit_bytes'',
        ''Bytes successfully committed to ClickHouse (sum of serialized row lengths).'',
        ''commit_bytes''),
      (''ingestor_retry_count'',
        ''Per-chunk retry attempts, labeled by reason.'',
        ''retry_count''),
      (''clickhouse_insert_errors'',
        ''ClickHouse insert errors labeled by HTTP status_code (or '' @ [CHR 0x27] @ ''timeout'' @ [CHR 0x27] @ ''/'' @ [CHR 0x27] @ ''connect'' @ [CHR 0x27] @ ''/'' @ [CHR 0x27] @ ''network'' @ [CHR 0x27] @ '').'',
        ''insert_errors''),
      (''clickhouse_http_concurrent_inflight'',
        ''Concurrent HTTP requests in flight from the ClickHouse writer.'',
        ''http_concurrent_inflight''),
      (''clickhouse_serialization_duration_seconds'',
        ''Per-chunk serialization latency, labeled by format.'',
        ''serialization_duration_seconds''),
      (''clickhouse_serialized_bytes'',
        ''Per-chunk serialized body size in bytes, labeled by format.'',
        ''serialized_bytes''),
      (''clickhouse_chunk_rows'',
        ''Per-chunk row count, labeled by format.'',
        ''chunk_rows''),
      (''clickhouse_insert_duration_seconds'',
        ''Per-attempt ClickHouse insert latency, labeled by format, http_mode, and result.'',
        ''insert_duration_seconds'')]"

record registration =
  reg_name :: string
  reg_help :: string
  reg_family :: metric_family

type_synonym registry = "registration list"

definition register_all_families ::
  "(string \<times> string \<times> string) list \<Rightarrow> (string \<times> metric_family) list \<Rightarrow> registry \<Rightarrow> registry" where
  "register_all_families calls ms reg =
     foldl (\<lambda>reg (name, help, field). case map_of ms field of
              Some f \<Rightarrow> reg @ [\<lparr>reg_name = name, reg_help = help, reg_family = f\<rparr>]
            | None \<Rightarrow> reg) reg calls"

definition runtime_register :: "registry \<Rightarrow> registry" where
  "runtime_register = register_all_families runtime_registrations runtime_metrics"

definition clickhouse_register :: "registry \<Rightarrow> registry" where
  "clickhouse_register = register_all_families clickhouse_registrations clickhouse_metrics"

definition metrics_registry_new :: registry where
  "metrics_registry_new = clickhouse_register (runtime_register [])"

definition render_metrics ::
  "(registry \<Rightarrow> string + string) \<Rightarrow> string \<Rightarrow> registry \<Rightarrow> nat \<times> string" where
  "render_metrics encode rendered reg =
     (case encode reg of
        Inl e \<Rightarrow> (500, ''encode error: '' @ e)
      | Inr body \<Rightarrow> (200, body @ rendered))"

definition router ::
  "(registry \<Rightarrow> string + string) \<Rightarrow> string \<Rightarrow> registry \<Rightarrow> string \<Rightarrow> (nat \<times> string) option" where
  "router encode rendered reg path =
     (if path = ''/metrics'' then Some (render_metrics encode rendered reg)
      else if path = ''/-/healthy'' then Some (200, ''OK'')
      else None)"

section \<open>What a scrape shows\<close>

text \<open>The series of a family in the text format: a counter gets a suffix, a histogram three.\<close>

definition series :: "registration \<Rightarrow> string list" where
  "series r =
     (case mf_kind (reg_family r) of
        Counter \<Rightarrow> [reg_name r @ ''_total'']
      | Gauge \<Rightarrow> [reg_name r]
      | Histogram _ \<Rightarrow> map ((@) (reg_name r)) [''_bucket'', ''_sum'', ''_count''])"

definition buckets_ok :: "metric_kind \<Rightarrow> bool" where
  "buckets_ok k = (case k of Histogram bs \<Rightarrow> bs \<noteq> [] \<and> sorted_wrt (<) bs | _ \<Rightarrow> True)"

lemmas registry_defs =
  metrics_registry_new_def runtime_register_def clickhouse_register_def register_all_families_def
  runtime_registrations_def runtime_metrics_def clickhouse_registrations_def clickhouse_metrics_def

lemma registered_families:
  "map reg_family metrics_registry_new = map snd (runtime_metrics @ clickhouse_metrics)"
  by (simp add: registry_defs)

lemma series_distinct: "distinct (concat (map series metrics_registry_new))"
  by (simp add: registry_defs series_def)

lemma families_ok:
  "list_all (\<lambda>f. distinct (mf_labels f) \<and> buckets_ok (mf_kind f)) (map snd (runtime_metrics @ clickhouse_metrics))"
  by (simp add: runtime_metrics_def clickhouse_metrics_def buckets_ok_def seconds_histogram_buckets_def
      admission_batch_buckets_def bytes_histogram_buckets_def rows_histogram_buckets_def)

text \<open>
  The metric surface is consistent: both structs register every one of their families, in the
  order of the fields; no two of the twenty-six families share a series of the text format, so
  that a scrape never shows two metrics under one name; label names are distinct within a family,
  and the bounds of every histogram are strictly increasing.
\<close>

theorem metric_surface_consistent:
  "map reg_family metrics_registry_new = map snd (runtime_metrics @ clickhouse_metrics) \<and>
   distinct (concat (map series metrics_registry_new)) \<and>
   list_all (\<lambda>r. distinct (mf_labels (reg_family r)) \<and> buckets_ok (mf_kind (reg_family r))) metrics_registry_new"
  using registered_families series_distinct families_ok
  by (metis (no_types, lifting) list.pred_map list.pred_mono_strong comp_apply)

end
