(* ===== verification/Writer_Metrics.thy ===== *)
theory Writer_Metrics
  imports Metrics
begin

text \<open>
  The metrics that the ClickHouse writer emits (\<open>writer.rs\<close>: \<open>execute_once\<close>, \<open>execute_chunk\<close>,
  \<open>execute_all\<close>, \<open>classify_reqwest\<close>, \<open>classify_status\<close>). The operations of \<open>Clickhouse_Writer\<close>
  once more, with the metric structs threaded through; a family is a function from its labels. Of
  the histograms of durations only the number of samples is kept, the observed values of the other
  histograms are kept in order. The metered operations do what the plain ones do, and what they count is what
  went over the wire.
\<close>

section \<open>Definitions\<close>

record writer_metrics =
  wm_retry_count :: "string \<Rightarrow> u64"
  wm_insert_errors :: "string \<Rightarrow> u64"
  wm_http_concurrent_inflight :: "string \<Rightarrow> int"
  wm_serialization_duration :: "string \<Rightarrow> u64"
  wm_serialized_bytes :: "string \<Rightarrow> nat list"
  wm_chunk_rows :: "string \<Rightarrow> nat list"
  wm_insert_duration :: "string \<times> string \<times> string \<Rightarrow> u64"

definition inc :: "'l \<Rightarrow> ('l \<Rightarrow> 'n::comm_monoid_add) \<Rightarrow> 'n \<Rightarrow> 'l \<Rightarrow> 'n" where
  "inc l f n = f(l := f l + n)"

definition observe :: "'l \<Rightarrow> ('l \<Rightarrow> 'v list) \<Rightarrow> 'v \<Rightarrow> 'l \<Rightarrow> 'v list" where
  "observe l f v = f(l := f l @ [v])"

definition reqwest_label :: "send_error \<Rightarrow> string" where
  "reqwest_label err =
     (if is_timeout err then ''timeout'' else if is_connect err then ''connect''
      else if is_status err then ''http'' else ''network'')"

definition metered_classify_reqwest :: "send_error \<Rightarrow> writer_metrics \<Rightarrow> writer_error \<times> writer_metrics" where
  "metered_classify_reqwest err m =
     (classify_reqwest err, m\<lparr>wm_insert_errors := inc (reqwest_label err) (wm_insert_errors m) 1\<rparr>)"

definition metered_classify_status :: "u16 \<Rightarrow> string \<Rightarrow> writer_metrics \<Rightarrow> writer_error \<times> writer_metrics" where
  "metered_classify_status status resp_body m =
     (classify_status status resp_body, m\<lparr>wm_insert_errors := inc (show_word status) (wm_insert_errors m) 1\<rparr>)"

definition metered_execute_once ::
  "clickhouse_externs \<Rightarrow> 's http_server \<Rightarrow> clickhouse_writer \<Rightarrow> string \<Rightarrow> bytes \<Rightarrow> insert_chunk \<Rightarrow>
   's http_world \<Rightarrow> writer_metrics \<Rightarrow> (writer_error + unit) \<times> 's http_world \<times> writer_metrics" where
  "metered_execute_once x srv wr sql_clean body_bytes chunk w m =
     (case http_client x wr of
        Inl e \<Rightarrow> (Inl e, w, m)
      | Inr _ \<Rightarrow>
          (let mode = http_mode_label (http_client_mode (wr_config wr));
               m1 = m\<lparr>wm_http_concurrent_inflight := inc mode (wm_http_concurrent_inflight m) 1\<rparr>;
               (ans, w') = http_send srv (insert_request x (wr_config wr) sql_clean body_bytes chunk) w;
               m2 = m1\<lparr>wm_http_concurrent_inflight := inc mode (wm_http_concurrent_inflight m1) (- 1)\<rparr>
           in case ans of
                SendFailed err \<Rightarrow> (let (e, m3) = metered_classify_reqwest err m2 in (Inl e, w', m3))
              | Responded status resp \<Rightarrow>
                  if is_success status then (Inr (), w', m2)
                  else (let (e, m3) = metered_classify_status status (unwrap_or_default resp) m2
                        in (Inl e, w', m3))))"

definition attempt_result :: "writer_error + unit \<Rightarrow> insert_result" where
  "attempt_result r =
     (case r of
        Inr _ \<Rightarrow> InsertOk
      | Inl e \<Rightarrow>
          (case error_class e of
             ClassRetryable \<Rightarrow> InsertRetryable
           | ClassNonRetryable \<Rightarrow> InsertNonRetryable
           | ClassRetryBudgetExhausted \<Rightarrow> InsertRetryBudgetExhausted))"

definition attempt_labels :: "clickhouse_writer \<Rightarrow> insert_result \<Rightarrow> string \<times> string \<times> string" where
  "attempt_labels wr r =
     (format_label (serialization_format (wr_config wr)),
      http_mode_label (http_client_mode (wr_config wr)), insert_result_label r)"

function metered_execute_loop ::
  "clickhouse_externs \<Rightarrow> 's http_server \<Rightarrow> clickhouse_writer \<Rightarrow> string \<Rightarrow> bytes \<Rightarrow> insert_chunk \<Rightarrow>
   nat \<Rightarrow> int \<Rightarrow> 's http_world \<Rightarrow> writer_metrics \<Rightarrow> (writer_error + unit) \<times> 's http_world \<times> writer_metrics" where
  "metered_execute_loop x srv wr sql_clean body_bytes chunk attempt backoff w m =
     (case metered_execute_once x srv wr sql_clean body_bytes chunk w m of
        (res, w', m1) \<Rightarrow>
          (let m2 = m1\<lparr>wm_insert_duration :=
                      inc (attempt_labels wr (attempt_result res)) (wm_insert_duration m1) 1\<rparr>
           in case res of
                Inr _ \<Rightarrow> (Inr (), w', m2)
              | Inl err \<Rightarrow>
                  (case error_class err of
                     ClassRetryable \<Rightarrow>
                       if attempt + 1 < unat (max_attempts (wr_config wr))
                       then metered_execute_loop x srv wr sql_clean body_bytes chunk (attempt + 1)
                              (double_backoff backoff) (w'\<lparr>hw_slept := hw_slept w' @ [backoff]\<rparr>)
                              (m2\<lparr>wm_retry_count := inc ''retryable'' (wm_retry_count m2) 1\<rparr>)
                       else (Inl (budget_exhausted (max_attempts (wr_config wr)) err), w', m2)
                   | ClassRetryBudgetExhausted \<Rightarrow> (Inl err, w', m2)
                   | ClassNonRetryable \<Rightarrow> (Inl err, w', m2))))"
  by pat_completeness auto

termination metered_execute_loop
  by (relation "measure (\<lambda>(_, _, wr, _, _, _, attempt, _, _, _). unat (max_attempts (wr_config wr)) - attempt)") auto

declare metered_execute_loop.simps [simp del]

definition metered_execute_chunk ::
  "clickhouse_externs \<Rightarrow> 's http_server \<Rightarrow> clickhouse_writer \<Rightarrow> insert_chunk \<Rightarrow>
   's http_world \<Rightarrow> writer_metrics \<Rightarrow> (writer_error + unit) \<times> 's http_world \<times> writer_metrics" where
  "metered_execute_chunk x srv wr chunk w m =
     (let fmt = serialization_format (wr_config wr); l = format_label fmt
      in case serialize x fmt chunk of
           Inl e \<Rightarrow> (Inl e, w, m)
         | Inr body_bytes \<Rightarrow>
             (let m1 = m\<lparr>wm_serialization_duration := inc l (wm_serialization_duration m) 1,
                         wm_serialized_bytes := observe l (wm_serialized_bytes m) (length body_bytes),
                         wm_chunk_rows := observe l (wm_chunk_rows m) (rows_count chunk)\<rparr>
              in metered_execute_loop x srv wr (render_insert_sql_clean chunk fmt) body_bytes chunk 0
                   (initial_backoff (wr_config wr)) w m1))"

fun metered_execute_all ::
  "clickhouse_externs \<Rightarrow> 's http_server \<Rightarrow> clickhouse_writer \<Rightarrow> insert_chunk list \<Rightarrow>
   's http_world \<Rightarrow> writer_metrics \<Rightarrow> (writer_error + unit) \<times> 's http_world \<times> writer_metrics" where
  "metered_execute_all x srv wr [] w m = (Inr (), w, m)"
| "metered_execute_all x srv wr (chunk # chunks) w m =
     (case metered_execute_chunk x srv wr chunk w m of
        (Inl e, w', m') \<Rightarrow> (Inl e, w', m')
      | (Inr _, w', m') \<Rightarrow> metered_execute_all x srv wr chunks w' m')"

section \<open>Counting does not change the run\<close>

lemma once_erases:
  "metered_execute_once x srv wr sql b chunk w m = (r, w', m') \<Longrightarrow> execute_once x srv wr sql b chunk w = (r, w')"
  by (auto simp: metered_execute_once_def execute_once_def metered_classify_reqwest_def
      metered_classify_status_def Let_def split: sum.splits prod.splits http_answer.splits if_splits)

lemma loop_erases:
  assumes "metered_execute_loop x srv wr sql b chunk k d w m = (r, w', m')"
  shows "execute_loop x srv wr sql b chunk k d w = (r, w')"
  using assms
proof (induction x srv wr sql b chunk k d w m rule: metered_execute_loop.induct)
  case (1 x srv wr sql b chunk k d w m)
  obtain r1 w1 m1 where one: "metered_execute_once x srv wr sql b chunk w m = (r1, w1, m1)"
    by (metis prod_cases3)
  note loops = metered_execute_loop.simps [of x srv wr sql b chunk k d w m]
    execute_loop.simps [of x srv wr sql b chunk k d w]
  show ?case
  proof (cases "\<exists>e. r1 = Inl e \<and> error_class e = ClassRetryable \<and> k + 1 < unat (max_attempts (wr_config wr))")
    case True
    then show ?thesis
      using 1 one once_erases [OF one] by (auto simp: loops Let_def)
  next
    case False
    then show ?thesis
      using 1(2) one once_erases [OF one]
      by (auto simp: loops Let_def split: sum.splits writer_error_class.splits)
  qed
qed

lemma chunk_erases:
  "metered_execute_chunk x srv wr chunk w m = (r, w', m') \<Longrightarrow> execute_chunk x srv wr chunk w = (r, w')"
  by (auto simp: metered_execute_chunk_def execute_chunk_def Let_def dest: loop_erases split: sum.splits)

lemma all_erases:
  "metered_execute_all x srv wr chunks w m = (r, w', m') \<Longrightarrow> execute_all x srv wr chunks w = (r, w')"
proof (induction chunks arbitrary: w m)
  case (Cons chunk chunks)
  obtain r1 w1 m1 where one: "metered_execute_chunk x srv wr chunk w m = (r1, w1, m1)" by (metis prod_cases3)
  then show ?case
    using Cons chunk_erases [OF one] by (cases r1) auto
qed simp

section \<open>What is counted\<close>

definition answer_label :: "http_answer \<Rightarrow> string option" where
  "answer_label ans =
     (case ans of
        SendFailed e \<Rightarrow> Some (reqwest_label e)
      | Responded status _ \<Rightarrow> if is_success status then None else Some (show_word status))"

definition answer_result :: "http_answer \<Rightarrow> insert_result" where
  "answer_result ans =
     (if acknowledged ans then InsertOk else if transient ans then InsertRetryable else InsertNonRetryable)"

definition counted ::
  "clickhouse_writer \<Rightarrow> http_answer list \<Rightarrow> nat \<Rightarrow> writer_metrics \<Rightarrow> writer_metrics \<Rightarrow> bool" where
  "counted wr answers retries m m' \<longleftrightarrow>
     wm_http_concurrent_inflight m' = wm_http_concurrent_inflight m \<and>
     (\<forall>l. wm_insert_errors m' l =
        wm_insert_errors m l + word_of_nat (length (filter (\<lambda>a. answer_label a = Some l) answers))) \<and>
     (\<forall>l. wm_retry_count m' l = wm_retry_count m l + (if l = ''retryable'' then word_of_nat retries else 0)) \<and>
     (\<forall>l. wm_insert_duration m' l =
        wm_insert_duration m l +
        word_of_nat (length (filter (\<lambda>a. attempt_labels wr (answer_result a) = l) answers)))"

lemma counted_Nil: "counted wr [] 0 m m"
  by (simp add: counted_def)

lemma counted_trans:
  "counted wr as n m m1 \<Longrightarrow> counted wr bs k m1 m2 \<Longrightarrow> counted wr (as @ bs) (n + k) m m2"
  by (simp add: counted_def)

lemma counted_retry:
  "counted wr as n m m1 \<Longrightarrow>
     counted wr as (Suc n) m (m1\<lparr>wm_retry_count := inc ''retryable'' (wm_retry_count m1) 1\<rparr>)"
  by (simp add: counted_def inc_def)

lemma once_counted:
  assumes client: "is_ok (http_client x wr)"
    and run: "metered_execute_once x srv wr sql b chunk w m = (r, w', m')"
  shows "\<exists>ans. hw_sent w' = hw_sent w @ [(insert_request x (wr_config wr) sql b chunk, ans)] \<and>
    hw_slept w' = hw_slept w \<and> answered r ans \<and>
    counted wr [ans] 0 m (m'\<lparr>wm_insert_duration :=
      inc (attempt_labels wr (attempt_result r)) (wm_insert_duration m') 1\<rparr>)"
proof -
  let ?rq = "insert_request x (wr_config wr) sql b chunk"
  obtain c where c: "http_client x wr = Inr c" using client by (auto simp: is_ok_iff)
  obtain ans s where srv: "srv ?rq (hw_server w) = (ans, s)" by fastforce
  have inflight: "inc l (inc l f (1 :: int)) (- 1) = f" for l :: string and f by (simp add: inc_def)
  note run = run [unfolded metered_execute_once_def http_send_def metered_classify_reqwest_def
      metered_classify_status_def Let_def, simplified c srv sum.case prod.case, simplified]
  note defs = answered_def counted_def attempt_result_def answer_result_def answer_label_def
    acknowledged_def transient_def class_classify_status
  show ?thesis
  proof (cases ans)
    case (SendFailed err)
    then show ?thesis
      using run by (intro exI [of _ ans]) (auto simp: defs inflight, auto simp: inc_def)
  next
    case (Responded status resp)
    then show ?thesis
      using run by (intro exI [of _ ans]) (auto simp: defs inflight split: if_splits, auto simp: inc_def)
  qed
qed

definition chunk_samples :: "writer_metrics \<Rightarrow> (string \<Rightarrow> u64) \<times> (string \<Rightarrow> nat list) \<times> (string \<Rightarrow> nat list)" where
  "chunk_samples m = (wm_serialization_duration m, wm_serialized_bytes m, wm_chunk_rows m)"

lemma once_samples: "metered_execute_once x srv wr sql b chunk w m = (r, w', m') \<Longrightarrow> chunk_samples m' = chunk_samples m"
  by (auto simp: metered_execute_once_def metered_classify_reqwest_def metered_classify_status_def
      chunk_samples_def Let_def split: sum.splits prod.splits http_answer.splits if_splits)

text \<open>The part of a run between two worlds, as the metrics see it.\<close>

definition run_counted ::
  "clickhouse_writer \<Rightarrow> 's http_world \<Rightarrow> 's http_world \<Rightarrow> writer_metrics \<Rightarrow> writer_metrics \<Rightarrow> bool" where
  "run_counted wr w w' m m' \<longleftrightarrow>
     (\<exists>sent slept. hw_sent w' = hw_sent w @ sent \<and> hw_slept w' = hw_slept w @ slept \<and>
        counted wr (map snd sent) (length slept) m m')"

lemma run_counted_refl: "run_counted wr w w m m"
  unfolding run_counted_def by (intro exI [of _ "[]"]) (simp add: counted_Nil)

lemma run_counted_trans:
  "run_counted wr w w1 m m1 \<Longrightarrow> run_counted wr w1 w2 m1 m2 \<Longrightarrow> run_counted wr w w2 m m2"
  unfolding run_counted_def using counted_trans by (smt (verit) append.assoc length_append map_append)

lemma run_counted_samples:
  "run_counted wr w w' (m\<lparr>wm_serialization_duration := a, wm_serialized_bytes := c, wm_chunk_rows := d\<rparr>) m' =
     run_counted wr w w' m m'"
  by (simp add: run_counted_def counted_def)

lemma loop_counted:
  assumes "is_ok (http_client x wr)" "metered_execute_loop x srv wr sql b chunk k d w m = (r, w', m')"
  shows "run_counted wr w w' m m' \<and> chunk_samples m' = chunk_samples m"
  using assms
proof (induction x srv wr sql b chunk k d w m rule: metered_execute_loop.induct)
  case (1 x srv wr sql b chunk k d w m)
  obtain r1 w1 m1 where one: "metered_execute_once x srv wr sql b chunk w m = (r1, w1, m1)"
    by (metis prod_cases3)
  let ?m2 = "m1\<lparr>wm_insert_duration := inc (attempt_labels wr (attempt_result r1)) (wm_insert_duration m1) 1\<rparr>"
  obtain ans where ans: "hw_sent w1 = hw_sent w @ [(insert_request x (wr_config wr) sql b chunk, ans)]"
      "hw_slept w1 = hw_slept w" "counted wr [ans] 0 m ?m2"
    using once_counted [OF 1(2) one] by blast
  have same: "chunk_samples ?m2 = chunk_samples m"
    using once_samples [OF one] by (simp add: chunk_samples_def)
  note loop = 1(3) [unfolded metered_execute_loop.simps [of x srv wr sql b chunk k d w m], simplified one prod.case Let_def]
  show ?case
  proof (cases "\<exists>e. r1 = Inl e \<and> error_class e = ClassRetryable \<and> k + 1 < unat (max_attempts (wr_config wr))")
    case True
    then obtain e where e: "r1 = Inl e" "error_class e = ClassRetryable" "k + 1 < unat (max_attempts (wr_config wr))" by blast
    let ?m3 = "?m2\<lparr>wm_retry_count := inc ''retryable'' (wm_retry_count ?m2) 1\<rparr>"
      and ?w = "w1\<lparr>hw_slept := hw_slept w1 @ [d]\<rparr>"
    have "run_counted wr w ?w m ?m3"
      unfolding run_counted_def using ans counted_retry [OF ans(3)]
      by (intro exI [of _ "[(insert_request x (wr_config wr) sql b chunk, ans)]"] exI [of _ "[d]"]) simp
    moreover have "run_counted wr ?w w' ?m3 m' \<and> chunk_samples m' = chunk_samples ?m3"
      using 1(1) [OF one [symmetric] HOL.refl HOL.refl e(1-3) 1(2)] loop e by simp
    ultimately show ?thesis
      using run_counted_trans same by (auto simp: chunk_samples_def)
  next
    case False
    then have "w' = w1" "m' = ?m2"
      using loop by (auto split: sum.splits writer_error_class.splits if_splits)
    then show ?thesis
      using ans same unfolding run_counted_def
      by (auto intro!: exI [of _ "[(insert_request x (wr_config wr) sql b chunk, ans)]"] exI [of _ "[]"])
  qed
qed

lemma chunk_counted:
  assumes "is_ok (http_client x wr)" "metered_execute_chunk x srv wr chunk w m = (r, w', m')"
  shows "run_counted wr w w' m m' \<and>
    (case serialize x (serialization_format (wr_config wr)) chunk of
       Inl e \<Rightarrow> r = Inl e \<and> wm_chunk_rows m' = wm_chunk_rows m
     | Inr _ \<Rightarrow> wm_chunk_rows m' =
         observe (format_label (serialization_format (wr_config wr))) (wm_chunk_rows m) (rows_count chunk))"
proof (cases "serialize x (serialization_format (wr_config wr)) chunk")
  case (Inl e)
  then show ?thesis
    using assms(2) run_counted_refl by (simp add: metered_execute_chunk_def Let_def)
next
  case (Inr b)
  from loop_counted [OF assms(1)] show ?thesis
    using assms(2) Inr unfolding metered_execute_chunk_def Let_def
    by (fastforce simp: run_counted_samples chunk_samples_def)
qed

lemma all_counted:
  assumes "is_ok (http_client x wr)" "metered_execute_all x srv wr chunks w m = (r, w', m')"
  shows "run_counted wr w w' m m' \<and>
    (r = Inr () \<longrightarrow>
       wm_chunk_rows m' (format_label (serialization_format (wr_config wr))) =
       wm_chunk_rows m (format_label (serialization_format (wr_config wr))) @ map rows_count chunks)"
  using assms(2)
proof (induction chunks arbitrary: w m)
  case Nil
  then show ?case using run_counted_refl by simp
next
  case (Cons chunk chunks)
  obtain r1 w1 m1 where one: "metered_execute_chunk x srv wr chunk w m = (r1, w1, m1)" by (metis prod_cases3)
  note first = chunk_counted [OF assms(1) one]
  show ?case
  proof (cases r1)
    case (Inl e)
    then show ?thesis using Cons.prems one first by auto
  next
    case (Inr u)
    then have rest: "metered_execute_all x srv wr chunks w1 m1 = (r, w', m')" using Cons.prems one by simp
    show ?thesis
      using Cons.IH [OF rest] first Inr run_counted_trans
      by (auto simp: observe_def split: sum.splits)
  qed
qed


definition zero_metrics :: writer_metrics where
  "zero_metrics =
     \<lparr>wm_retry_count = (\<lambda>_. 0), wm_insert_errors = (\<lambda>_. 0), wm_http_concurrent_inflight = (\<lambda>_. 0),
      wm_serialization_duration = (\<lambda>_. 0), wm_serialized_bytes = (\<lambda>_. []), wm_chunk_rows = (\<lambda>_. []),
      wm_insert_duration = (\<lambda>_. 0)\<rparr>"


end
