(* ===== verification/Pipeline_Metrics.thy ===== *)
theory Pipeline_Metrics
  imports Pipeline_Liveness Writer_Metrics
begin

text \<open>
  The metrics that the pipelined runtime emits (\<open>runtime.rs\<close>). \<open>metered_step\<close> is \<open>pipe_step\<close>
  with the counters, the sample counts of the duration histograms, the observed batch sizes and the
  gauges that only the actor sets. Every arm and worker has a function for what it emits, on each
  of its paths. The backpressure timer may fire whenever a task can be parked, which allows more
  firings than the one per wait of the source.
  The gauges of queue depths and stage bytes are set by several workers from separate loads and are
  left out here.
\<close>

section \<open>Definitions\<close>

record runtime_counters =
  rm_backpressure_reason :: "source_id \<times> backpressure_reason \<Rightarrow> u64"
  rm_descriptors_handed_out :: "source_id \<Rightarrow> u64"
  rm_bytes_fetched :: "source_id \<Rightarrow> u64"
  rm_records_decoded :: "source_id \<Rightarrow> u64"
  rm_sink_commits :: "source_id \<times> sink_id \<times> sink_commit_outcome \<Rightarrow> u64"
  rm_next_descriptors_calls :: "source_id \<Rightarrow> u64"
  rm_extension_releases :: "source_id \<Rightarrow> u64"
  rm_ack_frontier :: "source_id \<Rightarrow> int"
  rm_pending_ranges :: "source_id \<Rightarrow> int"
  rm_seq_lag :: "source_id \<Rightarrow> int"
  rm_ack_lag :: "source_id \<Rightarrow> u64"
  rm_stage_latency :: "nat \<times> source_id \<Rightarrow> u64"
  rm_descriptors_per_call :: "source_id \<Rightarrow> nat list"

definition counters_new :: runtime_counters where
  "counters_new =
     \<lparr>rm_backpressure_reason = (\<lambda>_. 0), rm_descriptors_handed_out = (\<lambda>_. 0), rm_bytes_fetched = (\<lambda>_. 0),
      rm_records_decoded = (\<lambda>_. 0), rm_sink_commits = (\<lambda>_. 0), rm_next_descriptors_calls = (\<lambda>_. 0),
      rm_extension_releases = (\<lambda>_. 0), rm_ack_frontier = (\<lambda>_. 0), rm_pending_ranges = (\<lambda>_. 0),
      rm_seq_lag = (\<lambda>_. 0), rm_ack_lag = (\<lambda>_. 0), rm_stage_latency = (\<lambda>_. 0),
      rm_descriptors_per_call = (\<lambda>_. [])\<rparr>"

definition observe_latency :: "nat \<Rightarrow> source_id \<Rightarrow> runtime_counters \<Rightarrow> runtime_counters" where
  "observe_latency st source m = m\<lparr>rm_stage_latency := inc (st, source) (rm_stage_latency m) 1\<rparr>"

definition count_backpressure :: "source_id \<Rightarrow> backpressure_reason \<Rightarrow> runtime_counters \<Rightarrow> runtime_counters" where
  "count_backpressure source reason m =
     m\<lparr>rm_backpressure_reason := inc (source, reason) (rm_backpressure_reason m) 1\<rparr>"

fun hand_out ::
  "source_id \<Rightarrow> source_batch_descriptor list \<Rightarrow> ack_coordinator \<Rightarrow> runtime_counters \<Rightarrow> runtime_counters" where
  "hand_out source [] c m = m"
| "hand_out source (d # ds) c m =
     (case register_pending c (sd_sequence d) (sd_sequence d) of
        Inl _ \<Rightarrow> m
      | Inr c' \<Rightarrow>
          hand_out source ds c'
            (m\<lparr>rm_descriptors_handed_out := inc source (rm_descriptors_handed_out m) 1\<rparr>))"

definition poll_emits :: "source_id \<Rightarrow> nat \<Rightarrow> nat \<Rightarrow> runtime_counters \<Rightarrow> runtime_counters" where
  "poll_emits source gates returned m =
     (let m1 = m\<lparr>rm_next_descriptors_calls := inc source (rm_next_descriptors_calls m) 1,
                 rm_descriptors_per_call := observe source (rm_descriptors_per_call m) returned\<rparr>
      in if returned < gates
         then m1\<lparr>rm_extension_releases :=
                 inc source (rm_extension_releases m1) (word_of_nat (gates - returned))\<rparr>
         else m1)"

definition admission_emits ::
  "'k consumer_ops \<Rightarrow> runtime_options \<Rightarrow> backpressure_options \<Rightarrow> source_id \<Rightarrow> nat \<Rightarrow> 'k actor \<Rightarrow> budget \<Rightarrow> nat \<Rightarrow>
   reservation \<Rightarrow> runtime_counters \<Rightarrow> runtime_counters" where
  "admission_emits ops opts bp source sends a b permits r0 m =
     (let (b1, r) = attach_stage stage_source b r0;
          (b2, permits2, gates) =
            extend_gates (k_target opts bp b1 permits - 1) (estimated_max_batch_bytes bp) b1 permits [r];
          (res, src) = next_descriptors ops (length gates) default_budget_arg (act_source a)
      in case res of
           Inl e \<Rightarrow> m
         | Inr ds \<Rightarrow>
             (let m1 = poll_emits source (length gates) (length ds) m
              in if ds = [] then observe_latency stage_source source m1
                 else
                   (let m2 = hand_out source ds (coordinator a) m1;
                        (outcome, _) = register_and_send sends ds gates (a\<lparr>act_source := src\<rparr>) b2 permits2
                    in if is_ok outcome then observe_latency stage_source source m2 else m2)))"

definition ack_emits ::
  "runtime_options \<Rightarrow> source_id \<Rightarrow> 'k actor \<Rightarrow> runtime_counters \<Rightarrow> runtime_counters" where
  "ack_emits opts source a m =
     (if dry_run opts then m
      else
        (case frontier (coordinator a) of
           None \<Rightarrow> m
         | Some f \<Rightarrow>
             (let m1 = (if should_ack (last_ack_sent a) f
                        then m\<lparr>rm_ack_lag := inc source (rm_ack_lag m) 1\<rparr> else m)
              in m1\<lparr>rm_ack_frontier := (rm_ack_frontier m1)(source := sint f)\<rparr>)))"

definition completion_emits ::
  "'k consumer_ops \<Rightarrow> runtime_options \<Rightarrow> source_id \<Rightarrow> u64 \<times> u64 \<Rightarrow> u64 \<Rightarrow> 'k actor \<Rightarrow> runtime_counters \<Rightarrow>
   runtime_counters" where
  "completion_emits ops opts source rng rows a m =
     (case mark_committed (coordinator a) (fst rng) (snd rng) of
        Inl e \<Rightarrow> m
      | Inr c \<Rightarrow>
          (let a1 = a\<lparr>coordinator := advance_frontier c, act_in_flight := act_in_flight a - 1,
                      progress := count_completion (snd rng) rows (progress a)\<rparr>;
               (res, a2) = ack_frontier_step ops opts a1
           in case res of
                Inl e \<Rightarrow> m
              | Inr _ \<Rightarrow>
                  (let m1 = ack_emits opts source a1 m
                   in observe_latency stage_source source
                        (m1\<lparr>rm_pending_ranges :=
                              (rm_pending_ranges m1)(source := int (pending_count (coordinator a2))),
                            rm_seq_lag :=
                              (rm_seq_lag m1)(source := int (source_pending_count ops (act_source a2)))\<rparr>))))"

definition fetched_bytes :: "source_batch \<Rightarrow> u64" where
  "fetched_bytes batch =
     sum_list (map (\<lambda>entry. word_of_nat (length (raw_bytes entry)) + word_of_nat (length (raw_metadata entry)))
       (sb_entries batch))"

definition fetch_emits ::
  "('k, 'r, 's) pipe_env \<Rightarrow> source_batch_descriptor \<Rightarrow> ('k, 'r, 's) pipe \<Rightarrow> runtime_counters \<Rightarrow> runtime_counters" where
  "fetch_emits e d p m =
     (case handle_fetch (pe_ops e) (source_fetch_handle (act_source (p_actor p))) d of
        Inl err \<Rightarrow> m
      | Inr batch \<Rightarrow>
          (let m1 = observe_latency stage_fetch (pe_source e) m
           in m1\<lparr>rm_bytes_fetched := inc (pe_source e) (rm_bytes_fetched m1) (fetched_bytes batch)\<rparr>))"

definition count_records :: "'r decoded_batch \<Rightarrow> runtime_counters \<Rightarrow> runtime_counters" where
  "count_records decoded m =
     m\<lparr>rm_records_decoded :=
        inc (db_source decoded) (rm_records_decoded m) (word_of_nat (records_count (db_records decoded)))\<rparr>"

definition decode_emits ::
  "('k, 'r, 's) pipe_env \<Rightarrow> source_batch \<Rightarrow> 'r work \<Rightarrow> ('k, 'r, 's) pipe \<Rightarrow> runtime_counters \<Rightarrow> runtime_counters" where
  "decode_emits e batch u p m =
     observe_latency stage_decode (pe_source e)
       (case (decode_one (pe_decoder e) (pe_options e) (so_id (pe_sink e)) batch (w_seq u) (pe_bp e)
               (p_budget p) (w_res u), dec_decode (pe_decoder e) batch) of
          ((Inr out, _), Inr (decoded # _)) \<Rightarrow> count_records decoded m
        | _ \<Rightarrow> m)"

definition write_emits ::
  "('k, 'r, 's) pipe_env \<Rightarrow> (nat \<Rightarrow> abort_point) \<Rightarrow> 'r sink_commit \<Rightarrow> ('k, 'r, 's) pipe \<Rightarrow> runtime_counters \<Rightarrow>
   runtime_counters" where
  "write_emits e abort commit p m =
     (let attempt = fst (write_with_retry (pe_sink e) commit (pe_options e) abort (p_sink p));
          m1 = observe_latency stage_sink_dispatch (pe_source e) m
      in m1\<lparr>rm_sink_commits :=
             inc (pe_source e, so_id (pe_sink e), wa_outcome attempt) (rm_sink_commits m1) 1\<rparr>)"

definition abort_emits ::
  "('k, 'r, 's) pipe_env \<Rightarrow> (nat \<Rightarrow> abort_point) \<Rightarrow> 'r work \<Rightarrow> ('k, 'r, 's) pipe \<Rightarrow> runtime_counters \<Rightarrow>
   runtime_counters" where
  "abort_emits e abort u p m =
     (case w_state u of Writing commit rng \<Rightarrow> write_emits e abort commit p m | _ \<Rightarrow> m)"

text \<open>Where a task can be parked under the backpressure timer.\<close>

definition can_park :: "('k, 'r, 's) pipe \<Rightarrow> backpressure_reason \<Rightarrow> bool" where
  "can_park p reason =
     (case reason of
        ReasonSourceBudget \<Rightarrow> p_result p = None \<and> admission_open (p_actor p)
      | ReasonDecodeBudget \<Rightarrow> 0 < in_state is_fetching (p_units p)
      | ReasonSinkBudget \<Rightarrow> 0 < in_state is_decoding (p_units p)
      | ReasonRetrying \<Rightarrow> 0 < in_state is_writing (p_units p)
      | ReasonFatalError \<Rightarrow> False)"

inductive metered_step ::
  "('k, 'r, 's) pipe_env \<Rightarrow> ('k, 'r, 's) pipe \<times> runtime_counters \<Rightarrow> ('k, 'r, 's) pipe \<times> runtime_counters \<Rightarrow> bool"
  for e :: "('k, 'r, 's) pipe_env" where
  m_timer:
    "can_park p reason \<Longrightarrow> metered_step e (p, m) (p, count_backpressure (pe_source e) reason m)"
| m_shutdown:
    "p_result p = None \<Longrightarrow> admission_open (p_actor p) \<Longrightarrow>
       metered_step e (p, m) (p\<lparr>p_actor := (p_actor p)\<lparr>admission_open := False\<rparr>\<rparr>, m)"
| m_admit:
    "p_result p = None \<Longrightarrow> admission_open (p_actor p) \<Longrightarrow>
       admission_attempt (pe_bp e) (p_budget p) (p_permits p) = Some (b, n, r) \<Longrightarrow>
       admission_arm (pe_ops e) (pe_options e) (pe_bp e) sends (p_actor p) b n r
         = (res, a', b', n', sent) \<Longrightarrow>
       metered_step e (p, m)
         (p\<lparr>p_actor := a', p_budget := b', p_permits := n',
            p_units := p_units p @ map queue_unit sent, p_result := result_of res\<rparr>,
          admission_emits (pe_ops e) (pe_options e) (pe_bp e) (pe_source e) sends (p_actor p) b n r m)"
| m_complete:
    "p_result p = None \<Longrightarrow> 0 < act_in_flight (p_actor p) \<Longrightarrow>
       p_completions p = CompletionCommitted rng rows # rest \<Longrightarrow>
       completion_committed (pe_ops e) (pe_options e) rng rows (p_actor p) = (res, a') \<Longrightarrow>
       metered_step e (p, m)
         (p\<lparr>p_actor := a', p_completions := rest, p_result := result_of res\<rparr>,
          completion_emits (pe_ops e) (pe_options e) (pe_source e) rng rows (p_actor p) m)"
| m_complete_fatal:
    "p_result p = None \<Longrightarrow> 0 < act_in_flight (p_actor p) \<Longrightarrow>
       p_completions p = CompletionFatal err # rest \<Longrightarrow>
       metered_step e (p, m) (p\<lparr>p_completions := rest, p_result := Some (Inl err)\<rparr>, m)"
| m_workers_gone:
    "p_result p = None \<Longrightarrow> 0 < act_in_flight (p_actor p) \<Longrightarrow> p_completions p = [] \<Longrightarrow>
       p_fetchers p = 0 \<Longrightarrow> p_decoders p = 0 \<Longrightarrow> p_writers p = 0 \<Longrightarrow>
       metered_step e (p, m)
         (p\<lparr>p_result := Some (Inl (ErrPipeline (WorkerExited (act_in_flight (p_actor p)) (pe_source e))))\<rparr>, m)"
| m_exit:
    "p_result p = None \<Longrightarrow> \<not> admission_open (p_actor p) \<Longrightarrow> act_in_flight (p_actor p) = 0 \<Longrightarrow>
       actor_exit (pe_ops e) (pe_options e) (p_actor p) = (res, a') \<Longrightarrow>
       metered_step e (p, m) (p\<lparr>p_actor := a', p_result := Some res\<rparr>, m)"
| m_fetch_recv:
    "p_units p = xs @ u # ys \<Longrightarrow> w_state u = Queued d \<Longrightarrow>
       in_state is_fetching (p_units p) < p_fetchers p \<Longrightarrow>
       metered_step e (p, m) (move_unit stage_fetch (Fetching d) xs u ys p, m)"
| m_fetch_done:
    "p_units p = xs @ u # ys \<Longrightarrow> w_state u = Fetching d \<Longrightarrow>
       fits e (fetch_body e d xs u ys p) \<Longrightarrow>
       metered_step e (p, m) (fetch_body e d xs u ys p, fetch_emits e d p m)"
| m_decode_recv:
    "p_units p = xs @ u # ys \<Longrightarrow> w_state u = Fetched batch \<Longrightarrow>
       in_state is_decoding (p_units p) < p_decoders p \<Longrightarrow>
       metered_step e (p, m) (move_unit stage_decode (Decoding batch) xs u ys p, m)"
| m_decode_done:
    "p_units p = xs @ u # ys \<Longrightarrow> w_state u = Decoding batch \<Longrightarrow>
       fits e (decode_body e batch xs u ys p) \<Longrightarrow>
       metered_step e (p, m) (decode_body e batch xs u ys p, decode_emits e batch u p m)"
| m_write_recv:
    "p_units p = xs @ u # ys \<Longrightarrow> w_state u = CommitQueued commit rng \<Longrightarrow>
       in_state is_writing (p_units p) < p_writers p \<Longrightarrow>
       metered_step e (p, m) (move_unit stage_sink_dispatch (Writing commit rng) xs u ys p, m)"
| m_write_done:
    "p_units p = xs @ u # ys \<Longrightarrow> w_state u = Writing commit rng \<Longrightarrow>
       fits e (write_body e abort commit rng xs u ys p) \<Longrightarrow>
       metered_step e (p, m) (write_body e abort commit rng xs u ys p, write_emits e abort commit p m)"
| m_release:
    "p_units p = xs @ u # ys \<Longrightarrow> w_state u = Releasing \<Longrightarrow>
       metered_step e (p, m) (release_unit xs u ys p, m)"
| m_hard_abort:
    "p_result p = Some (Inl err) \<Longrightarrow> p_units p = xs @ u # ys \<Longrightarrow>
       metered_step e (p, m) (abort_unit e abort xs u ys p, abort_emits e abort u p m)"

inductive metered_reach ::
  "('k, 'r, 's) pipe_env \<Rightarrow> ('k, 'r, 's) pipe \<Rightarrow> ('k, 'r, 's) pipe \<times> runtime_counters \<Rightarrow> bool"
  for e :: "('k, 'r, 's) pipe_env" and p\<^sub>0 :: "('k, 'r, 's) pipe" where
  m_refl: "metered_reach e p\<^sub>0 (p\<^sub>0, counters_new)"
| m_step: "metered_reach e p\<^sub>0 pm \<Longrightarrow> metered_step e pm pm' \<Longrightarrow> metered_reach e p\<^sub>0 pm'"

section \<open>Counting does not change a run\<close>

lemma metered_erases:
  assumes "metered_step e (p, m) (p', m')"
  shows "pipe_step e p p' \<or> (p' = p \<and> (\<exists>reason. can_park p reason \<and> m' = count_backpressure (pe_source e) reason m))"
  using assms
proof (cases rule: metered_step.cases)
  case m_timer
  then show ?thesis by blast
qed (auto intro: pipe_step.intros)

lemma metered_lifts: "pipe_step e p p' \<Longrightarrow> \<exists>m'. metered_step e (p, m) (p', m')"
  by (cases rule: pipe_step.cases) (auto intro: metered_step.intros)

lemma metered_reach_erases: "metered_reach e p0 pm \<Longrightarrow> pipe_reach e p0 (fst pm)"
proof (induction rule: metered_reach.induct)
  case m_refl
  then show ?case by (simp add: pipe_reach.refl)
next
  case (m_step pm pm')
  then show ?case using metered_erases [of e "fst pm" "snd pm" "fst pm'" "snd pm'"] by (auto intro: pipe_reach.step)
qed

lemma metered_reach_lifts: "pipe_reach e p0 p \<Longrightarrow> \<exists>m. metered_reach e p0 (p, m)"
proof (induction rule: pipe_reach.induct)
  case refl
  then show ?case using metered_reach.m_refl by blast
next
  case (step p p')
  then obtain m where m: "metered_reach e p0 (p, m)" by blast
  then show ?case using metered_lifts [OF step(2)] metered_reach.m_step by blast
qed

section \<open>What the emissions leave alone\<close>

lemma inc_simps [simp]:
  "inc l f 0 = f" "inc l f n l = f l + n" "k \<noteq> l \<Longrightarrow> inc l f n k = f k" "inc l (inc l f n) n' = inc l f (n + n')"
  by (auto simp: inc_def add.assoc)

lemma observe_simps [simp]: "observe l f v l = f l @ [v]"
  by (simp add: observe_def)

definition sink_view :: "runtime_counters \<Rightarrow> source_id \<Rightarrow> (source_id \<times> sink_id \<times> sink_commit_outcome \<Rightarrow> u64) \<times> u64 \<times> u64" where
  "sink_view m source =
     (rm_sink_commits m, rm_stage_latency m (stage_sink_dispatch, source),
      rm_backpressure_reason m (source, ReasonFatalError))"

definition ack_view :: "runtime_counters \<Rightarrow> (source_id \<Rightarrow> u64) \<times> (source_id \<Rightarrow> int)" where
  "ack_view m = (rm_ack_lag m, rm_ack_frontier m)"

definition poll_view :: "runtime_counters \<Rightarrow> (source_id \<Rightarrow> u64) \<times> (source_id \<Rightarrow> u64) \<times> (source_id \<Rightarrow> nat list)" where
  "poll_view m = (rm_descriptors_handed_out m, rm_next_descriptors_calls m, rm_descriptors_per_call m)"

lemmas view_defs = sink_view_def ack_view_def poll_view_def
lemmas emit_defs = observe_latency_def count_backpressure_def inc_def observe_def stage_defs

lemma latency_views [simp]:
  "ack_view (observe_latency st src m) = ack_view m" "poll_view (observe_latency st src m) = poll_view m"
  "st \<noteq> stage_sink_dispatch \<Longrightarrow> sink_view (observe_latency st src m) source = sink_view m source"
  by (simp_all add: view_defs observe_latency_def inc_def)

lemma stage_neq [simp]: "stage_source \<noteq> stage_sink_dispatch" "stage_fetch \<noteq> stage_sink_dispatch"
  "stage_decode \<noteq> stage_sink_dispatch"
  by (simp_all add: stage_defs)

lemma fetch_views [simp]:
  "ack_view (fetch_emits e d p m) = ack_view m" "poll_view (fetch_emits e d p m) = poll_view m"
  "sink_view (fetch_emits e d p m) source = sink_view m source"
  by (simp_all add: fetch_emits_def Let_def view_defs emit_defs split: sum.split)

lemma decode_views [simp]:
  "ack_view (decode_emits e batch u p m) = ack_view m" "poll_view (decode_emits e batch u p m) = poll_view m"
  "sink_view (decode_emits e batch u p m) source = sink_view m source"
  by (simp_all add: decode_emits_def count_records_def view_defs emit_defs split: prod.split sum.split list.split)

lemma write_views [simp]:
  "ack_view (write_emits e abort c p m) = ack_view m" "poll_view (write_emits e abort c p m) = poll_view m"
  by (simp_all add: write_emits_def Let_def view_defs emit_defs)

lemma abort_views [simp]:
  "ack_view (abort_emits e abort u p m) = ack_view m" "poll_view (abort_emits e abort u p m) = poll_view m"
  by (simp_all add: abort_emits_def split: work_state.split)

lemma backpressure_views [simp]:
  "ack_view (count_backpressure src r m) = ack_view m" "poll_view (count_backpressure src r m) = poll_view m"
  "r \<noteq> ReasonFatalError \<Longrightarrow> sink_view (count_backpressure src r m) source = sink_view m source"
  by (simp_all add: view_defs emit_defs)

lemma hand_out_views:
  "ack_view (hand_out src ds c m) = ack_view m \<and> sink_view (hand_out src ds c m) source = sink_view m source"
  by (induction ds arbitrary: c m) (auto simp: view_defs split: sum.split)

lemma poll_emits_views [simp]:
  "ack_view (poll_emits src g k m) = ack_view m" "sink_view (poll_emits src g k m) source = sink_view m source"
  by (simp_all add: poll_emits_def view_defs Let_def)

lemma admission_views [simp]:
  "ack_view (admission_emits ops opts bp src sends a b n r m) = ack_view m"
  "sink_view (admission_emits ops opts bp src sends a b n r m) source = sink_view m source"
  by (simp_all add: admission_emits_def Let_def hand_out_views split: prod.split sum.split)

lemma completion_views [simp]:
  "poll_view (completion_emits ops opts src rng rows a m) = poll_view m"
  "sink_view (completion_emits ops opts src rng rows a m) source = sink_view m source"
  by (simp_all add: completion_emits_def ack_emits_def Let_def view_defs emit_defs split: sum.split prod.split option.split)

lemma commits_kept [simp]:
  "rm_sink_commits (admission_emits ops opts bp src sends a b n r m) = rm_sink_commits m"
  "rm_sink_commits (completion_emits ops opts src rng rows a m) = rm_sink_commits m"
  "rm_sink_commits (fetch_emits e d p m) = rm_sink_commits m"
  "rm_sink_commits (decode_emits e batch u p m) = rm_sink_commits m"
  using admission_views(2) [of ops opts bp src sends a b n r m src] completion_views(2) [of ops opts src rng rows a m src]
    fetch_views(3) [of e d p m src] decode_views(3) [of e batch u p m src]
  by (simp_all only: sink_view_def prod.inject)

section \<open>What is counted\<close>

lemma hand_out_registered:
  assumes "register_all ds a = (Inr (), a')"
  shows "poll_view (hand_out src ds (coordinator a) m) =
      (inc src (rm_descriptors_handed_out m) (word_of_nat (length ds)), rm_next_descriptors_calls m,
       rm_descriptors_per_call m) \<and>
    length (admission_recorder a') = length (admission_recorder a) + length ds \<and> progress a' = progress a"
  using assms
proof (induction ds arbitrary: a m)
  case Nil
  then show ?case by (simp add: poll_view_def)
next
  case (Cons d ds)
  then obtain c where c: "register_pending (coordinator a) (sd_sequence d) (sd_sequence d) = Inr c"
    by (auto simp: Let_def split: sum.splits)
  let ?a = "a\<lparr>admission_recorder := admission_recorder a @ [sd_sequence d], coordinator := c,
               act_in_flight := saturating_add (act_in_flight a) 1\<rparr>"
  have run: "register_all ds ?a = (Inr (), a')" using Cons.prems c by (simp add: Let_def)
  show ?case
    using Cons.IH [OF run, of "m\<lparr>rm_descriptors_handed_out := inc src (rm_descriptors_handed_out m) 1\<rparr>"]
    by (simp add: c poll_view_def)
qed

lemma admission_counted:
  assumes run: "admission_arm ops opts bp sends a b n r0 = (Inr (), a', b', n', sent)"
  shows "\<exists>k. poll_view (admission_emits ops opts bp src sends a b n r0 m) =
      (inc src (rm_descriptors_handed_out m) (word_of_nat k), inc src (rm_next_descriptors_calls m) 1,
       observe src (rm_descriptors_per_call m) k) \<and>
    length (admission_recorder a') = length (admission_recorder a) + k \<and> progress a' = progress a"
proof -
  obtain b1 r where at: "attach_stage stage_source b r0 = (b1, r)" by fastforce
  obtain b2 n2 gates where ext: "extend_gates (k_target opts bp b1 n - 1)
      (estimated_max_batch_bytes bp) b1 n [r] = (b2, n2, gates)"
    by (metis prod_cases3)
  obtain nres s where nx: "next_descriptors ops (length gates) default_budget_arg (act_source a) = (nres, s)"
    by fastforce
  have poll: "poll_view (poll_emits src g k m) =
      (rm_descriptors_handed_out m, inc src (rm_next_descriptors_calls m) 1,
       observe src (rm_descriptors_per_call m) k)" for g k
    by (simp add: poll_emits_def poll_view_def Let_def)
  have ok: "is_ok nres" using run at ext nx by (cases nres) (auto simp: admission_arm_def Let_def split: prod.splits)
  then obtain ds where ds: "nres = Inr ds" by (auto simp: is_ok_iff)
  show ?thesis
  proof (cases "ds = []")
    case True
    then have "a' = a\<lparr>act_source := s\<rparr>"
      using run at ext nx ds by (auto simp: admission_arm_def Let_def split: prod.splits)
    then show ?thesis
      using at ext nx ds True poll by (intro exI [of _ 0]) (simp add: admission_emits_def Let_def)
  next
    case False
    let ?a = "a\<lparr>act_source := s\<rparr>"
    have rs: "register_and_send sends ds gates ?a b2 n2 = (Inr (), a', b', n', sent)"
      using run at ext nx ds False by (simp add: admission_arm_def Let_def)
    then have reg: "register_all ds ?a = (Inr (), a')"
      by (cases "register_all ds ?a")
        (auto simp: register_and_send_def Let_def split: prod.splits sum.splits)
    show ?thesis
      using at ext nx ds False rs poll [of "length gates" "length ds"]
        hand_out_registered [OF reg, of src "poll_emits src (length gates) (length ds) m"]
      by (intro exI [of _ "length ds"]) (simp add: admission_emits_def Let_def poll_view_def observe_latency_def)
  qed
qed

lemma write_outcome:
  "is_ok (wa_inner (fst (write_with_retry sink c opts abort s))) \<longleftrightarrow>
     wa_outcome (fst (write_with_retry sink c opts abort s)) \<in> {OutcomeCommitted, OutcomeVerifiedAlreadyCommitted}"
proof -
  have once: "is_ok (wa_inner w) \<longleftrightarrow> wa_outcome w \<in> {OutcomeCommitted, OutcomeVerifiedAlreadyCommitted}"
    if "write_once sink c ex abort p s = (Finished w, p', s')" for ex p s w p' s'
    using that
    by (auto simp: write_once_def resolve_maybe_def retry_or_give_up_def aborted_attempt_def
        split: prod.splits option.splits sum.splits sink_commit_failure.splits commit_status.splits if_splits)
  obtain w s' where "write_loop sink c (effective_retry_max_attempts opts) abort 0 0 s = (w, s')" by fastforce
  then show ?thesis
    using write_loop_exit [of sink c abort "\<lambda>_. True" s] once by (fastforce simp: write_with_retry_def)
qed

lemma completion_counted:
  assumes run: "completion_committed ops opts rng rows a = (Inr (), a')"
  shows "admission_recorder a' = admission_recorder a"
    "source_ranges_committed (progress a') = saturating_add (source_ranges_committed (progress a)) 1"
    "ack_view (completion_emits ops opts src rng rows a m) =
       (case frontier (coordinator a') of
          None \<Rightarrow> ack_view m
        | Some f \<Rightarrow>
            if dry_run opts then ack_view m
            else (if should_ack (last_ack_sent a) f then inc src (rm_ack_lag m) 1 else rm_ack_lag m,
                  (rm_ack_frontier m)(src := sint f)))"
    "ack_through_recorder a' =
       (case frontier (coordinator a') of
          None \<Rightarrow> ack_through_recorder a
        | Some f \<Rightarrow>
            if dry_run opts \<or> \<not> should_ack (last_ack_sent a) f then ack_through_recorder a
            else ack_through_recorder a @ [f])"
proof -
  obtain c where c: "mark_committed (coordinator a) (fst rng) (snd rng) = Inr c"
    using run by (auto simp: completion_committed_def split: sum.splits)
  let ?a1 = "a\<lparr>coordinator := advance_frontier c, act_in_flight := act_in_flight a - 1,
                progress := count_completion (snd rng) rows (progress a)\<rparr>"
  obtain res a2 where st: "ack_frontier_step ops opts ?a1 = (res, a2)" by fastforce
  have res: "res = Inr ()" and a': "a' = a2\<lparr>progress :=
      (progress a2)\<lparr>pending_ranges_total := pending_count (coordinator a2)\<rparr>\<rparr>"
    using run c st by (auto simp: completion_committed_def Let_def split: sum.splits)
  note facts = ack_step_facts [OF st]
  have same: "admission_recorder a2 = admission_recorder a \<and>
      source_ranges_committed (progress a2) = source_ranges_committed (progress ?a1)"
    using st
    by (auto simp: ack_frontier_step_def ack_advance_def Let_def split: if_splits option.splits prod.splits sum.splits)
  show "admission_recorder a' = admission_recorder a"
    "source_ranges_committed (progress a') = saturating_add (source_ranges_committed (progress a)) 1"
    using same by (simp_all add: a' count_completion_def)
  show "ack_view (completion_emits ops opts src rng rows a m) =
       (case frontier (coordinator a') of
          None \<Rightarrow> ack_view m
        | Some f \<Rightarrow>
            if dry_run opts then ack_view m
            else (if should_ack (last_ack_sent a) f then inc src (rm_ack_lag m) 1 else rm_ack_lag m,
                  (rm_ack_frontier m)(src := sint f)))"
    using facts(1) by (simp add: a' completion_emits_def c st res ack_emits_def ack_view_def Let_def
        observe_latency_def split: option.split)
  show "ack_through_recorder a' =
       (case frontier (coordinator a') of
          None \<Rightarrow> ack_through_recorder a
        | Some f \<Rightarrow>
            if dry_run opts \<or> \<not> should_ack (last_ack_sent a) f then ack_through_recorder a
            else ack_through_recorder a @ [f])"
    using facts(1,5) by (auto simp: a' split: option.splits if_splits)
qed

definition poll_ok :: "source_id \<Rightarrow> 'k actor \<Rightarrow> runtime_counters \<Rightarrow> bool" where
  "poll_ok src a m \<longleftrightarrow>
     (case poll_view m of (handed, calls, batches) \<Rightarrow>
        handed src = word_of_nat (length (admission_recorder a)) \<and>
        calls src = word_of_nat (length (batches src)) \<and>
        sum_list (batches src) = length (admission_recorder a))"

definition ack_ok :: "runtime_options \<Rightarrow> source_id \<Rightarrow> 'k actor \<Rightarrow> runtime_counters \<Rightarrow> bool" where
  "ack_ok opts src a m \<longleftrightarrow>
     (case ack_view m of (lag, gauge) \<Rightarrow>
        lag src = word_of_nat (length (ack_through_recorder a)) \<and>
        gauge src = (if ack_through_recorder a = [] then 0 else sint (last (ack_through_recorder a))))"

definition commit_total :: "('k, 'r, 's) pipe_env \<Rightarrow> (source_id \<times> sink_id \<times> sink_commit_outcome \<Rightarrow> u64) \<Rightarrow> u64" where
  "commit_total e commits =
     commits (pe_source e, so_id (pe_sink e), OutcomeCommitted) +
     commits (pe_source e, so_id (pe_sink e), OutcomeVerifiedAlreadyCommitted)"

definition committed_reports :: "completion list \<Rightarrow> nat" where
  "committed_reports cs = length (filter (\<lambda>c. case c of CompletionCommitted _ _ \<Rightarrow> True | CompletionFatal _ \<Rightarrow> False) cs)"

definition commits_ok :: "('k, 'r, 's) pipe_env \<Rightarrow> ('k, 'r, 's) pipe \<Rightarrow> runtime_counters \<Rightarrow> bool" where
  "commits_ok e p m \<longleftrightarrow>
     (let ranges = source_ranges_committed (progress (p_actor p)) in
      ranges = - 1 \<or>
      commit_total e (rm_sink_commits m) = ranges + word_of_nat (committed_reports (p_completions p)))"

definition sink_ok :: "('k, 'r, 's) pipe_env \<Rightarrow> runtime_counters \<Rightarrow> bool" where
  "sink_ok e m \<longleftrightarrow>
     (case sink_view m (pe_source e) of (commits, samples, fatal) \<Rightarrow>
        fatal = 0 \<and>
        samples = commit_total e commits + commits (pe_source e, so_id (pe_sink e), OutcomeFailedRetryable) +
          commits (pe_source e, so_id (pe_sink e), OutcomeFailedFatal))"

lemma sink_ok_write: "sink_ok e m \<Longrightarrow> sink_ok e (write_emits e abort c p m)"
  by (cases "wa_outcome (fst (write_with_retry (pe_sink e) c (pe_options e) abort (p_sink p)))")
    (simp_all add: sink_ok_def sink_view_def write_emits_def observe_latency_def commit_total_def Let_def)

lemma sink_ok_step:
  assumes "sink_ok e m" "metered_step e (p, m) (p', m')"
  shows "sink_ok e m'"
  using assms(2)
proof (cases rule: metered_step.cases)
  case (m_timer reason)
  then have "reason \<noteq> ReasonFatalError" by (auto simp: can_park_def)
  then show ?thesis using m_timer assms(1) by (simp add: sink_ok_def)
next
  case (m_hard_abort err xs u ys abort)
  then show ?thesis
    using assms(1) sink_ok_write by (auto simp: abort_emits_def split: work_state.split)
qed (use assms(1) in \<open>auto simp: sink_ok_write, auto simp: sink_ok_def\<close>)

lemma poll_ok_step:
  assumes "p_result p = None \<Longrightarrow> poll_ok (pe_source e) (p_actor p) m" "metered_step e (p, m) (p', m')"
    and "p_result p' = None"
  shows "poll_ok (pe_source e) (p_actor p') m'"
  using assms(2)
proof (cases rule: metered_step.cases)
  case (m_admit b n r sends res a' b' n' sent)
  then have "res = Inr ()" using assms(3) by (simp add: result_of_def split: sum.splits)
  then obtain k where k: "poll_view m' =
      (inc (pe_source e) (rm_descriptors_handed_out m) (word_of_nat k), inc (pe_source e) (rm_next_descriptors_calls m) 1,
       observe (pe_source e) (rm_descriptors_per_call m) k)"
    "length (admission_recorder a') = length (admission_recorder (p_actor p)) + k"
    using admission_counted m_admit by metis
  then show ?thesis
    using assms(1) m_admit by (simp add: poll_ok_def poll_view_def)
next
  case (m_complete rng rows rest res a')
  then have "res = Inr ()" using assms(3) by (simp add: result_of_def split: sum.splits)
  then have "admission_recorder a' = admission_recorder (p_actor p)"
    using completion_counted(1) m_complete by metis
  then show ?thesis
    using assms(1) m_complete by (simp add: poll_ok_def)
qed (use assms in \<open>auto simp: poll_ok_def worker_same\<close>)

lemma ack_ok_step:
  assumes "p_result p = None \<Longrightarrow> ack_ok (pe_options e) (pe_source e) (p_actor p) m" "metered_step e (p, m) (p', m')"
    and "p_result p' = None" and inv: "pipe_inv e base p"
  shows "ack_ok (pe_options e) (pe_source e) (p_actor p') m'"
  using assms(2)
proof (cases rule: metered_step.cases)
  case (m_admit b n r sends res a' b' n' sent)
  then have "ack_through_recorder a' = ack_through_recorder (p_actor p)"
    using admission_arm_committed(2) inv by (metis actor_inv_def pipe_inv_def)
  then show ?thesis using assms(1) m_admit by (auto simp: ack_ok_def split: prod.splits)
next
  case (m_complete rng rows rest res a')
  then have ok: "res = Inr ()" using assms(3) by (simp add: result_of_def split: sum.splits)
  note run = m_complete(6) [unfolded ok]
  have "rng \<in> outstanding (coordinator (p_actor p))"
    using complete_inv(2) [OF inv] m_complete by blast
  then have "ack_log_inv (pe_options e) base a'"
    using completion_facts(1) [OF _ _ run] inv by (auto simp: pipe_inv_def actor_inv_def)
  then show ?thesis
    using assms(1) m_complete completion_counted(3) [OF run, of "pe_source e" m]
      completion_counted(4) [OF run]
    by (auto simp: ack_ok_def ack_log_inv_def ack_view_def [of m] split: option.splits if_splits)
qed (use assms in \<open>auto simp: ack_ok_def worker_same\<close>)

lemma reports_simps [simp]:
  "committed_reports [] = 0" "committed_reports (CompletionCommitted rng rows # cs) = Suc (committed_reports cs)"
  "committed_reports (CompletionFatal err # cs) = committed_reports cs"
  "committed_reports (cs @ cs') = committed_reports cs + committed_reports cs'"
  by (simp_all add: committed_reports_def)

lemma decode_reports:
  assumes "\<not> dry_run (pe_options e)"
  shows "committed_reports (p_completions (decode_body e batch xs u ys p)) = committed_reports (p_completions p)"
proof -
  obtain res b r where run: "decode_one (pe_decoder e) (pe_options e) (so_id (pe_sink e)) batch (w_seq u)
      (pe_bp e) (p_budget p) (w_res u) = (res, b, r)"
    by (metis prod_cases3)
  have "\<exists>c rng. out = Live c rng" if "res = Inr out" for out
    using run that assms by (auto elim!: decode_one_ok simp: finish_decode_def Let_def)
  then show ?thesis
    using run by (auto simp: decode_body_def fail_unit_def split: sum.split decode_outcome.splits)
qed

lemma write_counted:
  "commit_total e (rm_sink_commits (write_emits e abort c p m)) +
     word_of_nat (committed_reports (p_completions p)) =
   commit_total e (rm_sink_commits m) + word_of_nat (committed_reports (p_completions (write_body e abort c rng xs u ys p)))"
proof -
  obtain w s where run: "write_with_retry (pe_sink e) c (pe_options e) abort (p_sink p) = (w, s)" by fastforce
  have out: "is_ok (wa_inner w) \<longleftrightarrow> wa_outcome w \<in> {OutcomeCommitted, OutcomeVerifiedAlreadyCommitted}"
    using write_outcome [of "pe_sink e" c "pe_options e" abort "p_sink p"] run by simp
  show ?thesis
  proof (cases "wa_inner w")
    case (Inl err)
    then have "wa_outcome w \<notin> {OutcomeCommitted, OutcomeVerifiedAlreadyCommitted}" using out by simp
    then show ?thesis
      using Inl run
      by (auto simp: write_emits_def write_body_def fail_unit_def commit_total_def observe_latency_def inc_def Let_def)
  next
    case (Inr ok)
    then have "wa_outcome w \<in> {OutcomeCommitted, OutcomeVerifiedAlreadyCommitted}" using out by simp
    then show ?thesis
      using Inr run
      by (auto simp: write_emits_def write_body_def report_unit_def commit_total_def observe_latency_def Let_def
          split: write_success.split)
  qed
qed

lemma commits_ok_step:
  assumes "p_result p = None \<Longrightarrow> commits_ok e p m" "metered_step e (p, m) (p', m')"
    and "p_result p' = None" "\<not> dry_run (pe_options e)"
  shows "commits_ok e p' m'"
  using assms(2)
proof (cases rule: metered_step.cases)
  case (m_admit b n r sends res a' b' n' sent)
  then have "res = Inr ()" using assms(3) by (simp add: result_of_def split: sum.splits)
  then have "progress a' = progress (p_actor p)" using admission_counted m_admit by metis
  moreover have "rm_sink_commits m' = rm_sink_commits m"
    using m_admit(2) by simp
  ultimately show ?thesis using assms(1) m_admit by (simp add: commits_ok_def)
next
  case (m_complete rng rows rest res a')
  then have "res = Inr ()" using assms(3) by (simp add: result_of_def split: sum.splits)
  then have ranges: "source_ranges_committed (progress a') =
      saturating_add (source_ranges_committed (progress (p_actor p))) 1"
    using completion_counted(2) m_complete by metis
  have "rm_sink_commits m' = rm_sink_commits m"
    using m_complete(2) by simp
  then show ?thesis
    using assms(1) m_complete ranges by (auto simp: commits_ok_def saturating_add_def unat_minus_one_len Let_def)
next
  case (m_decode_done xs u ys batch)
  have "rm_sink_commits m' = rm_sink_commits m"
    using m_decode_done(2) by simp
  then show ?thesis
    using assms m_decode_done decode_reports [OF assms(4)] by (simp add: commits_ok_def worker_same)
next
  case (m_write_done xs u ys commit rng abort)
  then show ?thesis
    using assms write_counted [of e abort commit p m rng xs u ys]
    by (auto simp: commits_ok_def worker_same Let_def algebra_simps)
next
  case (m_fetch_done xs u ys d)
  have "rm_sink_commits m' = rm_sink_commits m"
    using m_fetch_done(2) by simp
  moreover have "committed_reports (p_completions p') = committed_reports (p_completions p)"
    using m_fetch_done(1) by (simp add: fetch_body_def fail_unit_def split: sum.split)
  ultimately show ?thesis
    using assms m_fetch_done by (simp add: commits_ok_def worker_same)
qed (use assms in \<open>auto simp: commits_ok_def worker_same count_backpressure_def move_unit_def release_unit_def
      abort_unit_def split: prod.splits\<close>)


definition counted_run :: "(nat, unit, nat) pipe" where
  "counted_run = drive_n 8 example_env example_start"

lemma counted_run_state:
  "p_result counted_run = None \<and> admission_recorder (p_actor counted_run) = [7] \<and>
   ack_through_recorder (p_actor counted_run) = [7] \<and>
   source_ranges_committed (progress (p_actor counted_run)) = 1 \<and> p_completions counted_run = []"
  by code_simp


end
