(* ===== verification/Bench.thy ===== *)
theory Bench
  imports Logs_Adapter
begin

text \<open>
  The statements of the \<open>ORDER BY\<close> benchmark (\<open>bench.rs\<close>): the table variants and the query
  shapes. The module only renders text; nothing runs it.
\<close>

section \<open>Definitions\<close>

datatype query_shape =
    LastNForService (qs_service: string) (qs_limit: nat)
  | TimeRangeWithSeverity (from_ts: u64) (to_ts: u64)
  | AttributeLookup (qs_key: string) (qs_value: string) (qs_limit: nat)

abbreviation quoted :: "string \<Rightarrow> string" where
  "quoted t \<equiv> [CHR 0x27] @ t @ [CHR 0x27]"

fun render_sql :: "query_shape \<Rightarrow> string \<Rightarrow> string \<Rightarrow> string" where
  "render_sql (LastNForService service limit) db tbl =
     ''SELECT count() FROM '' @ db @ ''.'' @ tbl @ '' WHERE ServiceName = '' @ quoted service @
     '' ORDER BY Timestamp DESC LIMIT '' @ show_nat limit"
| "render_sql (TimeRangeWithSeverity a b) db tbl =
     ''SELECT count() FROM '' @ db @ ''.'' @ tbl @ '' WHERE Timestamp BETWEEN fromUnixTimestamp('' @
     show_word a @ '') AND fromUnixTimestamp('' @ show_word b @ '') AND SeverityNumber >= 9''"
| "render_sql (AttributeLookup key value limit) db tbl =
     ''SELECT count() FROM '' @ db @ ''.'' @ tbl @ '' WHERE LogAttributes['' @ quoted key @ ''] = '' @
     quoted value @ '' LIMIT '' @ show_nat limit"

text \<open>\<open>str::replace\<close> with a non-empty pattern: occurrences from the left, without overlap.\<close>

fun str_replace :: "string \<Rightarrow> string \<Rightarrow> string \<Rightarrow> string" where
  "str_replace pat to [] = []"
| "str_replace pat to (c # cs) =
     (if take (length pat) (c # cs) = pat then to @ str_replace pat to (drop (length pat - 1) cs)
      else c # str_replace pat to cs)"

definition alpha_default_ddl :: "logs_adapter_config \<Rightarrow> string" where
  "alpha_default_ddl adapter = logs_table_ddl adapter"

definition hybrid_order :: string where
  "hybrid_order = ''ORDER BY (toDate(Timestamp), ServiceName, _odb_sequence, _odb_entry_index, _odb_record_index)''"

definition source_order :: string where
  "source_order = ''ORDER BY (_odb_sequence, _odb_entry_index, _odb_record_index)''"

definition raw_landing_table_ddl :: "logs_adapter_config \<Rightarrow> string" where
  "raw_landing_table_ddl adapter = str_replace hybrid_order source_order (logs_table_ddl adapter)"

definition alpha_query_suite :: "query_shape list" where
  "alpha_query_suite =
     [LastNForService ''controller'' 100, TimeRangeWithSeverity 1700000000 1700010000,
      AttributeLookup ''topic'' ''foo'' 100]"

section \<open>The raw landing table differs in its sort key only\<close>

lemma str_replace_skip:
  assumes "i < length pat" "pat ! i \<notin> set xs" "c \<notin> set pat" "i + length ys < length pat"
  shows "str_replace pat to (xs @ ys @ c # zs) = xs @ str_replace pat to (ys @ c # zs)"
  using assms(2)
proof (induction xs)
  case (Cons x xs)
  have "take (length pat) ((x # xs) @ ys @ c # zs) \<noteq> pat"
  proof
    let ?s = "(x # xs) @ ys @ c # zs"
    assume eq: "take (length pat) ?s = pat"
    have nth: "?s ! k = pat ! k" if "k < length pat" for k
      using that by (metis eq nth_take)
    have "length (x # xs) \<le> i"
    proof (rule ccontr)
      assume "\<not> length (x # xs) \<le> i"
      then have "pat ! i \<in> set (x # xs)" using nth [OF assms(1)] by (metis not_le nth_append nth_mem)
      then show False using Cons.prems by simp
    qed
    then have len: "length (x # xs) + length ys < length pat" using assms(4) by linarith
    have "?s ! (length (x # xs) + length ys) = c" by (simp only: nth_append_length_plus nth_append_length)
    then show False using nth [OF len] nth_mem [OF len] assms(3) by simp
  qed
  then show ?case using Cons by simp
qed simp

lemma str_replace_line:
  assumes "i < length pat" "pat ! i \<notin> set xs" "c \<notin> set pat"
  shows "str_replace pat to (xs @ [c] @ zs) = xs @ [c] @ str_replace pat to zs"
proof -
  have "take (length pat) (c # zs) \<noteq> pat"
    using assms(1,3) by (cases pat) auto
  then show ?thesis using str_replace_skip [OF assms, of "[]"] assms(1) by simp
qed

lemma str_replace_lines:
  assumes "i < length pat" "list_all (\<lambda>l. pat ! i \<notin> set l) ls" "CHR 0x0A \<notin> set pat"
  shows "str_replace pat to (concat (map (\<lambda>l. l @ newline) ls) @ zs) =
    concat (map (\<lambda>l. l @ newline) ls) @ str_replace pat to zs"
  using assms(2)
proof (induction ls)
  case (Cons l ls)
  then show ?case using str_replace_line [OF assms(1) _ assms(3), of l] by simp
qed simp

definition table_ddl :: "logs_adapter_config \<Rightarrow> string \<Rightarrow> string" where
  "table_ddl config order =
     ''CREATE TABLE IF NOT EXISTS '' @ lc_database config @ ''.'' @ lc_table config @ '' ('' @ newline @
     concat (map (\<lambda>l. l @ newline) (butlast ddl_lines @ [order])) @ ''TTL toDate(Timestamp) + INTERVAL 30 DAY''"

lemma alpha_sort_key: "alpha_default_ddl config = table_ddl config hybrid_order"
  by (simp add: alpha_default_ddl_def table_ddl_def logs_table_ddl_def ddl_lines_def hybrid_order_def)

lemma body_sort_key:
  "str_replace hybrid_order source_order
     ('' ('' @ newline @ concat (map (\<lambda>l. l @ newline) ddl_lines) @ ''TTL toDate(Timestamp) + INTERVAL 30 DAY'') =
   '' ('' @ newline @ concat (map (\<lambda>l. l @ newline) (butlast ddl_lines @ [source_order])) @
     ''TTL toDate(Timestamp) + INTERVAL 30 DAY''"
proof -
  let ?lines = "\<lambda>ls. concat (map (\<lambda>l. l @ newline) ls)"
    and ?cols = "take 21 ddl_lines" and ?part = "''PARTITION BY toDate(Timestamp)''"
    and ?ttl = "''TTL toDate(Timestamp) + INTERVAL 30 DAY''"
  have split: "ddl_lines = ?cols @ [?part] @ [hybrid_order]" "butlast ddl_lines = ?cols @ [?part]"
    by (simp_all add: ddl_lines_def hybrid_order_def)
  have pat: "7 < length hybrid_order" "hybrid_order ! 7 = CHR ''Y''" "27 < length hybrid_order"
    "hybrid_order ! 27 = CHR '',''" "CHR 0x0A \<notin> set hybrid_order"
    by (simp_all add: hybrid_order_def)
  have cols: "list_all (\<lambda>l. hybrid_order ! 7 \<notin> set l) ('' ('' # ?cols)"
    unfolding pat(2) by (simp add: ddl_lines_def)
  have part: "list_all (\<lambda>l. hybrid_order ! 27 \<notin> set l) [?part]" unfolding pat(4) by simp
  have ttl: "str_replace hybrid_order source_order (hybrid_order @ newline @ ?ttl) = source_order @ newline @ ?ttl"
    by (simp add: hybrid_order_def)
  have "str_replace hybrid_order source_order
      (?lines ('' ('' # ?cols) @ ?lines [?part] @ hybrid_order @ newline @ ?ttl) =
      ?lines ('' ('' # ?cols) @ ?lines [?part] @ source_order @ newline @ ?ttl"
    unfolding str_replace_lines [OF pat(1) cols pat(5)] str_replace_lines [OF pat(3) part pat(5)] ttl ..
  moreover have "'' ('' @ newline @ ?lines (?cols @ [?part] @ [q]) @ ?ttl =
      ?lines ('' ('' # ?cols) @ ?lines [?part] @ q @ newline @ ?ttl" for q
    by (simp only: map_append concat_append list.map concat.simps append.simps append_assoc append_Nil2)
  ultimately show ?thesis
    using split by (metis append_assoc)
qed

lemma raw_landing_sort_key:
  assumes "CHR '' '' \<notin> set (lc_database config)" "CHR '' '' \<notin> set (lc_table config)"
  shows "raw_landing_table_ddl config = table_ddl config source_order"
proof -
  have pat: "5 < length hybrid_order" "hybrid_order ! 5 = CHR '' ''" "CHR ''.'' \<notin> set hybrid_order"
    "CHR 0x0A \<notin> set hybrid_order" "5 + length '' ('' < length hybrid_order" "5 + length [] < length hybrid_order"
    by (simp_all add: hybrid_order_def)
  let ?body = "concat (map (\<lambda>l. l @ newline) ddl_lines) @ ''TTL toDate(Timestamp) + INTERVAL 30 DAY''"
  let ?table = "lc_table config @ '' ('' @ newline @ ?body"
  have "str_replace hybrid_order source_order (''CREATE TABLE IF NOT EXISTS '' @ s) =
      ''CREATE TABLE IF NOT EXISTS '' @ str_replace hybrid_order source_order s" for s
    by (simp add: hybrid_order_def)
  moreover have "str_replace hybrid_order source_order (lc_database config @ ''.'' @ ?table) =
      lc_database config @ ''.'' @ str_replace hybrid_order source_order ?table"
    using str_replace_skip [OF pat(1) _ pat(3,6), of "lc_database config" source_order ?table] assms(1) pat(2)
    by (simp add: hybrid_order_def)
  moreover have "str_replace hybrid_order source_order ?table =
      lc_table config @ str_replace hybrid_order source_order ('' ('' @ newline @ ?body)"
    using str_replace_skip [OF pat(1) _ pat(4,5), of "lc_table config" source_order ?body] assms(2) pat(2)
    by simp
  moreover have "str_replace hybrid_order source_order ('' ('' @ newline @ ?body) = '' ('' @ newline @
      concat (map (\<lambda>l. l @ newline) (butlast ddl_lines @ [source_order])) @ ''TTL toDate(Timestamp) + INTERVAL 30 DAY''"
    by (rule body_sort_key)
  ultimately show ?thesis
    by (simp add: raw_landing_table_ddl_def logs_table_ddl_def table_ddl_def)
qed

end
