(* ===== verification/Spec2Isabelle.thy ===== *)
theory Spec2Isabelle
  imports Ingestor_Main Flush_Window Pipeline_Metrics Bench
begin

text \<open>
  A verification library for \<open>opendata-contrib\<close>: the ingest runtime, its OTLP and ClickHouse plugins
  and the ClickHouse ingestor that puts them together.

  \<^bold>\<open>The program.\<close> One source (a queue of object-store batches, read through the \<open>buffer\<close> crate) is
  drained into one sink. \<open>per_source_actor\<close> admits descriptors under a byte budget and a batch
  semaphore, registers their sequences with the acknowledgement coordinator and sends them to a pool of
  fetch workers; decode workers turn a fetched batch into one decoded batch; writer workers commit it
  to the sink with retries. Commits finish in any order; the coordinator advances a contiguous frontier
  over them, and the actor acknowledges the frontier to the source, durably by the flush policy. The OTLP
  decoder flattens log messages into records; the ClickHouse sink plans the records into chunks with
  deterministic tokens, serialises them and posts them with its own retries. The guarantee is at-least-once
  delivery: what is acknowledged has been written.

  \<^bold>\<open>Runtime\<close> (\<open>src/runtime/opendata-ingest-runtime/src\<close>).
  \<^item> \<open>Prelude\<close>, \<open>Ordered_Map\<close>: machine integers, option and list lemmas, decimal text; \<open>BTreeMap\<close> as
    a locale \<open>ordered_map\<close> with an interpretation on sorted association lists.
  \<^item> \<open>Runtime_Types\<close>: \<open>identity.rs\<close>, \<open>error.rs\<close>, \<open>decoded_batch.rs\<close>, the data of \<open>sink.rs\<close> and
    \<open>source.rs\<close>; printed identities are injective.
  \<^item> \<open>Ack_Coordinator\<close>: \<open>ack_coordinator.rs\<close>. \<open>register_pending\<close>, \<open>mark_committed\<close> and
    \<open>advance_frontier\<close> with the invariant \<open>coord_inv\<close>, an event-level specification that they refine, the
    exact frontier, draining in any order, and the registry of coordinators. The locale \<open>ack_tracker\<close> is
    what the actor uses of it.
  \<^item> \<open>Source_Budget\<close>: \<open>source_budget.rs\<close>. Reservations, stages, the compare-and-exchange loop and parked
    waiters; counters are exact (locale \<open>mirrored_counter\<close>, interpreted for the total and for each stage),
    admission is exact, nobody is stranded.
  \<^item> \<open>Buffer_Source\<close>: \<open>source.rs\<close>. Entry metadata, fetch handle, two-level acknowledgement.
  \<^item> \<open>Runtime_Options\<close>: option structs, defaults, builder and validation of \<open>runtime.rs\<close>.
  \<^item> \<open>Sink_Writer\<close>: \<open>write_with_retry\<close>; the locale \<open>sink_contract\<close> states what the \<open>Sink\<close> trait promises
    and is interpreted on the ClickHouse sink in \<open>Clickhouse_Sink\<close>.
  \<^item> \<open>Decode_Stage\<close>: \<open>decode_one\<close>; the locale \<open>decoder_contract\<close> is interpreted on the OTLP decoder in
    \<open>Otel_Logs\<close>.
  \<^item> \<open>Per_Source_Actor\<close>: the arms of \<open>per_source_actor\<close> as functions on its local state.
  \<^item> \<open>Pipeline\<close>: \<open>Runtime::run\<close> as the step relation \<open>pipe_step\<close> over the actor, the budget, the permits,
    the units between the stages, the completion channel and the worker pools; every interleaving of
    the tasks is a path. Resource accounting, draining at exit, acknowledged means durable.
    \<open>Pipeline_Liveness\<close>: termination of a shutdown and of a hard abort by the measure \<open>rank\<close>, and
    the executable scheduler \<open>drive\<close>. \<open>Dry_Run\<close>: non-interference of a dry run with sink and source.
    \<open>Flush_Window\<close>: the durable mark and what a crash replays.

  \<^bold>\<open>Plugins\<close> (\<open>src/plugins\<close>).
  \<^item> \<open>Otel_Envelope\<close>, \<open>Otel_Logs\<close>: \<open>envelope.rs\<close> and \<open>logs.rs\<close>. The parser accepts exactly the encodings;
    flattening is lossless and ordered, and fails closed.
  \<^item> \<open>Date_Time\<close>, \<open>Row_Values\<close>, \<open>Serializer\<close>: \<open>adapter/mod.rs\<close> and \<open>serializer/\<close>. The hand-written
    calendar equals a reference calendar; a reader of the RowBinary format recovers the rows.
  \<^item> \<open>Logs_Adapter\<close>: \<open>adapter/logs.rs\<close>. Planning conserves the records, respects the limits, fits the table
    and gives tokens that identify chunks.
  \<^item> \<open>Clickhouse_Writer\<close>, \<open>Clickhouse_Sink\<close>: \<open>writer.rs\<close> and \<open>sink.rs\<close>. The attempt loop, the classification
    of failures and what a write leaves behind.

  \<^bold>\<open>Connector\<close> (\<open>src/connectors/clickhouse-ingestor/src\<close>).
  \<^item> \<open>Ingestor_Config\<close>, \<open>Ingestor_Main\<close>: \<open>config.rs\<close> and the start of \<open>main\<close>; which documents start an
    ingestor and which options it then runs with.
  \<^item> \<open>Metrics\<close>: the metric structs of both crates, the registry and the routes. \<open>Bench\<close>: the benchmark's
    statements.

  \<^bold>\<open>What is emitted.\<close> \<open>Writer_Metrics\<close> threads the metrics of the ClickHouse plugin through the writer's
  operations; \<open>Pipeline_Metrics\<close> adds those of the runtime to the step relation, one emission function per
  arm and worker. Erasing the metrics gives back the plain operations and steps, and the
  counters are exact.

  This theory composes them: a row of an acknowledged record is in an insert that ClickHouse answered with
  success; a decoded batch is never refused by the sink; the two nested retry loops cost a bounded number of
  requests.

  \<^bold>\<open>Correspondence.\<close> Structs are records, enums are datatypes, \<open>u64\<close> and \<open>u32\<close> are words with wrapping and
  saturation as in the source, \<open>Result\<close> is a sum with the error on the left, \<open>async\<close> calls that touch the
  outside world pass a world state. Log lines are dropped from the bodies, metrics are in theories of their own; the recorder
  hooks for admitted and acknowledged sequences are kept, as the trace that the theorems speak about. The retry loop
  of one commit is one step: the calls that concurrent writers make on the sink are not interleaved within it.

  \<^bold>\<open>Parameters.\<close> Code outside the repository is an argument: \<open>consumer_ops\<close> (the buffer's consumer and
  fetcher), \<open>otel_externs\<close> (protobuf decoding, hexadecimal and float text, the size of a record in memory),
  \<open>clickhouse_externs\<close> (JSON text, debug and URL quoting, SHA-256, hexadecimal text, HTTP client construction),
  \<open>http_server\<close> (what a server answers, with a state of its own),
  \<open>downcast\<close> (the \<open>Any\<close> conversion), the text encoder of the metrics, and the externs of the start-up sequence.
  Hypotheses on them are named: \<open>consumer_bounded\<close> (a poll returns no more than asked), \<open>consumer_durable\<close> (an
  acknowledgement that succeeds is durable). Cancellation inside the retry loop is an oracle that names the
  abort point, so that every moment of an abort is covered.

  \<^bold>\<open>Bounds.\<close> No fuel is used in the model: loops are structural or have a termination proof, and the
  attempt loops count down the configured budget. \<open>drive_n\<close> bounds the number of scheduler steps in examples
  only; a run of one batch takes eight steps.

  \<^bold>\<open>Not modelled.\<close> Wall-clock time and backoff durations; worker panics; logging and tracing; the gauges
  that several workers set from separate loads (queue depths, sink in-flight bytes), whose last value depends
  on the order of the stores; hooks that only tests install; serving the metrics socket and signal handling (calls into \<open>tokio\<close> and
  \<open>axum\<close>); the error texts of \<open>figment\<close> and \<open>serde\<close>; the crate roots, which only re-export.
\<close>

section \<open>End to end\<close>

lemma otlp_decoded:
  assumes "dec_decode (otlp_logs_decoder ox) batch = Inr [d]"
  shows "\<exists>rs. d = logs_batch ox batch rs \<and> logs_decode ox batch = Inr [logs_batch ox batch rs]"
proof -
  have "logs_decode ox batch = Inr [d]" using assms by (simp add: otlp_logs_decoder_def)
  then show ?thesis using logs_decode_ok [of ox batch "[d]"] by auto
qed

lemma planned_row:
  assumes "plan ox a batch = Inr chunks" "r \<in> set (ab_records batch)"
  shows "\<exists>chunk\<in>set chunks. log_row (la_config a) r \<in> set (chunk_rows chunk)"
proof -
  have "r \<in> set (concat (plan_groups ox a (ab_records batch)))"
    using assms(2) by (simp add: plan_groups_concat)
  then obtain g where g: "g \<in> set (plan_groups ox a (ab_records batch))" "r \<in> set g" by auto
  then have "map (log_row (la_config a)) g \<in> set (map chunk_rows chunks)"
    using plan_rows [OF assms(1)] by auto
  then obtain chunk where "chunk \<in> set chunks" "chunk_rows chunk = map (log_row (la_config a)) g" by auto
  then show ?thesis using g(2) by (intro bexI [of _ chunk]) simp_all
qed

lemma request_body_readable:
  assumes "plan ox a batch = Inr chunks" "chunk \<in> set chunks"
    and "serialization_format (wr_config wr) = RowBinary" "chunk_fits chunk"
  shows "\<exists>sql b. rq_body (chunk_request x wr chunk) = as_bytes sql @ [10] @ b \<and>
    read_chunk b = Some (logs_columns, chunk_rows chunk)"
proof -
  have typed: "chunk_typed chunk" by (rule plan_typed [OF assms(1,2)])
  have "columns chunk = logs_columns" using plan_emit [OF assms(1,2)] by auto
  then have "read_chunk (encoded_chunk chunk) = Some (logs_columns, chunk_rows chunk)"
    using read_encoded_chunk [OF typed assms(4)] by simp
  moreover have "rq_body (chunk_request x wr chunk) =
      as_bytes (render_insert_sql_clean chunk RowBinary) @ [10] @ encoded_chunk chunk"
    using serialize_typed [OF typed] assms(3) by (simp add: chunk_request_def insert_request_def Let_def)
  ultimately show ?thesis by blast
qed


definition example_consumer :: "nat consumer_ops" where
  "example_consumer =
     \<lparr>co_next_descriptors =
        (\<lambda>n k. (Inr (if k = 0 \<and> 0 < n then [\<lparr>bd_sequence = 7, bd_location = ''obj'', bd_metadata = []\<rparr>] else []),
                Suc k)),
      co_ack_through = (\<lambda>q k. (Inr (), k)), co_len = (\<lambda>k. 0),
      co_fetch = (\<lambda>d. Inr \<lparr>cb_entries = [[7]], cb_sequence = bd_sequence d, cb_location = bd_location d,
                              cb_metadata = [\<lparr>start_index = 0, bm_ingestion_time_ms = 1, bm_payload = [1, 2, 1, 0]\<rparr>]\<rparr>)\<rparr>"

definition single_externs :: otel_externs where
  "single_externs =
     example_externs\<lparr>ox_decode := (\<lambda>b. Inr [\<lparr>rl_resource = None,
       rl_scope_logs = [\<lparr>sl_scope = None, sl_log_records = [example_log]\<rparr>]\<rparr>])\<rparr>"

definition binary_sink :: clickhouse_sink where
  "binary_sink =
     clickhouse_sink_new (SinkId ''clickhouse_logs'') (plan single_externs example_adapter)
       (writer_new example_clickhouse_externs (default_writer_config\<lparr>serialization_format := RowBinary\<rparr>))"

definition example_ingestor :: "(nat, decoded_log_record list, nat sink_world) pipe_env" where
  "example_ingestor =
     \<lparr>pe_ops = example_consumer, pe_decoder = otlp_logs_decoder single_externs,
      pe_sink = clickhouse_sink_ops single_externs example_clickhouse_externs example_server Some binary_sink,
      pe_options = runtime_options_default\<lparr>dry_run := False\<rparr>, pe_source = SourceId ''s''\<rparr>"

definition ready_world :: "nat sink_world" where
  "ready_world = example_sink_world\<lparr>sw_http := example_world\<lparr>hw_server := 2\<rparr>\<rparr>"

definition example_init :: "(nat, decoded_log_record list, nat sink_world) pipe" where
  "example_init =
     pipe_start example_ingestor example_source
       (ack_new (pe_source example_ingestor) (last_acked example_source)) ready_world"

definition example_final :: "(nat, decoded_log_record list, nat sink_world) pipe" where
  "example_final = drive_n 8 example_ingestor example_init"

lemma example_acknowledged:
  "ack_through_recorder (p_actor example_final) = [7] \<and> start_seq (coordinator (p_actor example_final)) \<le> 7"
  by code_simp


section \<open>A decoded batch is always writable\<close>

lemma numbered_manifest_path:
  assumes "numbered batch entry i n rs" "r \<in> set rs"
  shows "rs_manifest_path (dl_source r) = sb_manifest_path batch"
proof -
  have "dl_source r \<in> set (map dl_source rs)" using assms(2) by simp
  then show ?thesis unfolding assms(1) [unfolded numbered_def] by auto
qed

lemma decoded_manifest_path:
  assumes "logs_decode ox batch = Inr [logs_batch ox batch rs]" "r \<in> set rs"
  shows "rs_manifest_path (dl_source r) = sb_manifest_path batch"
proof -
  obtain rss where rss: "[logs_batch ox batch rs] = [logs_batch ox batch (concat rss)]"
    "list_all2 (\<lambda>entry rs. decode_entry ox batch entry = Inr rs) (sb_entries batch) rss"
    using assms(1) by (rule logs_decode_ok)
  from rss(1) have "rs = concat rss" by (simp add: logs_batch_def typed_decoded_logs_def)
  then obtain k where k: "k < length rss" "r \<in> set (rss ! k)"
    using assms(2) by (metis UN_E in_set_conv_nth set_concat)
  then have "decode_entry ox batch (sb_entries batch ! k) = Inr (rss ! k)"
    using rss(2) by (simp add: list_all2_conv_all_nth)
  then obtain n where "numbered batch (sb_entries batch ! k) 0 n (rss ! k)"
    by (rule decode_entry_numbered)
  then show ?thesis using k(2) by (rule numbered_manifest_path)
qed

lemma plan_accepts:
  assumes "\<forall>r\<in>set (ab_records b). rs_manifest_path (dl_source r) = mp"
  shows "\<exists>chunks. plan ox a b = Inr chunks"
proof (cases "sort_key sort_coordinates (ab_records b)")
  case (Cons f rs)
  then have "set (f # rs) = set (ab_records b)" by (metis set_sort)
  then have "find (\<lambda>r. rs_manifest_path (dl_source r) \<noteq> rs_manifest_path (dl_source f)) (f # rs) = None"
    using assms unfolding find_None_iff by (metis list.set_intros(1))
  then show ?thesis using Cons by (simp add: plan_def Let_def)
qed (simp add: plan_def)

definition serializable :: "clickhouse_externs \<Rightarrow> clickhouse_writer \<Rightarrow> bool" where
  "serializable x wr \<longleftrightarrow>
     is_ok (http_client x wr) \<and>
     (serialization_format (wr_config wr) = RowBinary \<or> (\<forall>j. is_ok (cx_json x j)))"

lemma plan_serializes:
  assumes "plan ox a b = Inr chunks" "chunk \<in> set chunks" "serializable x wr"
  shows "is_ok (serialize x (serialization_format (wr_config wr)) chunk)"
proof (cases "serialization_format (wr_config wr)")
  case JsonEachRow
  then show ?thesis
    using assms(3) typed_row_width [OF plan_typed [OF assms(1,2)]] json_lines_ok
    by (simp add: serializable_def serialize_json_each_row_def list_all_iff)
next
  case RowBinary
  then show ?thesis using serialize_typed [OF plan_typed [OF assms(1,2)], of x] by (simp only: is_ok_iff) blast
qed

lemma healthy_chunk:
  assumes srv: "\<forall>rq s. acknowledged (fst (srv rq s))" and client: "is_ok (http_client x wr)"
    and ser: "is_ok (serialize x (serialization_format (wr_config wr)) chunk)"
  shows "fst (execute_chunk x srv wr chunk w) = Inr ()"
proof -
  have once: "\<exists>w'. execute_once x srv wr sql b chunk w = (Inr (), w')" for sql b
  proof -
    let ?rq = "insert_request x (wr_config wr) sql b chunk"
    obtain st resp s where "srv ?rq (hw_server w) = (Responded st resp, s)" "is_success st"
      using srv [rule_format, of ?rq "hw_server w"]
      by (cases "srv ?rq (hw_server w)") (auto simp: acknowledged_def split: http_answer.splits)
    then show ?thesis using client by (auto simp: execute_once_def http_send_def is_ok_iff)
  qed
  obtain b where b: "serialize x (serialization_format (wr_config wr)) chunk = Inr b"
    using ser by (auto simp: is_ok_iff)
  show ?thesis
    using once [of "render_insert_sql_clean chunk (serialization_format (wr_config wr))" b]
    by (auto simp: execute_chunk_def Let_def b execute_loop.simps)
qed

lemma healthy_all:
  assumes "\<forall>rq s. acknowledged (fst (srv rq s))" "is_ok (http_client x wr)"
    and "\<forall>chunk\<in>set chunks. is_ok (serialize x (serialization_format (wr_config wr)) chunk)"
  shows "fst (execute_all x srv wr chunks w) = Inr ()"
  using assms(3)
proof (induction chunks arbitrary: w)
  case (Cons chunk chunks)
  obtain w1 where "execute_chunk x srv wr chunk w = (Inr (), w1)"
    using healthy_chunk [OF assms(1,2)] Cons.prems by (metis list.set_intros(1) prod.collapse)
  then show ?case using Cons by simp
qed simp

text \<open>
  C34. No decoded batch is refused by the sink: for every commit that the decode stage builds from a batch
  of the OTLP decoder, the sink's own guards (sequence range, record type, single manifest path,
  row total) all pass, and the result is that of sending the chunks of the plan: a failure can only
  be the writer's, classified. With a client that can be built, rows that can be serialised and a
  server that answers every insert with a success status the write succeeds.
\<close>

theorem decoded_batch_writable:
  assumes adapter: "cs_adapter sink = plan ox a"
    and decoded: "logs_decode ox batch = Inr [d]"
    and commit: "c = build_commit (cs_id sink) (sb_sequence batch) (sb_sequence batch) d"
  shows "\<exists>rs chunks. commit_records Some c = Some rs \<and> plan ox a (commit_group ox (sc_identity c) rs) = Inr chunks \<and>
    (case fst (clickhouse_write ox x srv Some sink c w) of
       Inl f \<Rightarrow> \<exists>e. fst (execute_all x srv (cs_writer sink) chunks (sw_http w)) = Inl e \<and> f = write_failure e
     | Inr res \<Rightarrow> fst (execute_all x srv (cs_writer sink) chunks (sw_http w)) = Inr () \<and>
         rows_written res = word_of_nat (length rs)) \<and>
    (serializable x (cs_writer sink) \<and> (\<forall>rq s. acknowledged (fst (srv rq s))) \<longrightarrow>
       is_ok (fst (clickhouse_write ox x srv Some sink c w)))"
proof -
  obtain rs where rs: "d = logs_batch ox batch rs" "logs_decode ox batch = Inr [logs_batch ox batch rs]"
    using otlp_decoded [of ox batch d] decoded by (auto simp: otlp_logs_decoder_def)
  have records: "commit_records Some c = Some rs"
    by (simp add: commit_records_def commit build_commit_def rs(1) logs_batch_def typed_decoded_logs_def)
  let ?g = "commit_group ox (sc_identity c) rs"
  have group: "ab_records ?g = rs" by (simp add: commit_group_def)
  obtain chunks where plan: "plan ox a ?g = Inr chunks"
    using plan_accepts [of ?g "sb_manifest_path batch" ox a] decoded_manifest_path [OF rs(2)] by (auto simp: group)
  note totals = plan_totals [OF plan, unfolded group]
  have delegates: "clickhouse_write ox x srv Some sink c w = write_chunks x srv sink rs chunks w"
    using plan
    by (simp add: clickhouse_write_def commit build_commit_def rs(1) logs_batch_def typed_decoded_logs_def
        adapter sequence_range_new_def)
  have outcome: "case fst (clickhouse_write ox x srv Some sink c w) of
       Inl f \<Rightarrow> \<exists>e. fst (execute_all x srv (cs_writer sink) chunks (sw_http w)) = Inl e \<and> f = write_failure e
     | Inr res \<Rightarrow> fst (execute_all x srv (cs_writer sink) chunks (sw_http w)) = Inr () \<and>
         rows_written res = word_of_nat (length rs)"
    unfolding delegates by (simp add: write_chunks_def totals split: prod.split sum.split)
  have "fst (execute_all x srv (cs_writer sink) chunks (sw_http w)) = Inr ()"
    if "serializable x (cs_writer sink)" "\<forall>rq s. acknowledged (fst (srv rq s))"
    using healthy_all [OF that(2)] plan_serializes [OF plan _ that(1)] that(1) by (simp add: serializable_def)
  then have "is_ok (fst (clickhouse_write ox x srv Some sink c w))"
    if "serializable x (cs_writer sink)" "\<forall>rq s. acknowledged (fst (srv rq s))"
    using that outcome by (cases "fst (clickhouse_write ox x srv Some sink c w)") auto
  then show ?thesis using records plan outcome by blast
qed

definition healthy_server :: "nat http_server" where
  "healthy_server rq s = (Responded 200 None, s + 1)"

theorem decoded_batch_writable_witness:
  "\<exists>d. logs_decode example_externs example_batch = Inr [d] \<and>
     is_ok (fst (clickhouse_write example_externs example_clickhouse_externs healthy_server Some example_sink
       (build_commit (cs_id example_sink) (sb_sequence example_batch) (sb_sequence example_batch) d)
       example_sink_world))"
proof -
  obtain d where d: "logs_decode example_externs example_batch = Inr [d]"
    using example_decodes by (metis is_ok_iff logs_decode_ok)
  have a: "cs_adapter example_sink = plan example_externs example_adapter"
    by (simp add: example_sink_def clickhouse_sink_new_def)
  have "serializable example_clickhouse_externs (cs_writer example_sink)"
    by (simp add: serializable_def example_sink_def clickhouse_sink_new_def http_client_def writer_new_def
        default_writer_config_def example_clickhouse_externs_def)
  moreover have "\<forall>rq s. acknowledged (fst (healthy_server rq s))"
    by (simp add: healthy_server_def acknowledged_def is_success_def)
  ultimately show ?thesis
    using decoded_batch_writable [OF a d HOL.refl, where x = example_clickhouse_externs and srv = healthy_server
        and w = example_sink_world] d
    by blast
qed

section \<open>How many requests a commit can cost\<close>

definition request_budget :: "clickhouse_writer \<Rightarrow> insert_chunk list \<Rightarrow> nat" where
  "request_budget wr chunks = length chunks * max 1 (unat (max_attempts (wr_config wr)))"

lemma execute_all_budget:
  "length (hw_sent (snd (execute_all x srv wr chunks w))) \<le> length (hw_sent w) + request_budget wr chunks"
proof (induction chunks arbitrary: w)
  case (Cons chunk chunks)
  obtain r w1 where one: "execute_chunk x srv wr chunk w = (r, w1)" by fastforce
  have "length (hw_sent w1) \<le> length (hw_sent w) + max 1 (unat (max_attempts (wr_config wr)))"
    using execute_chunk_trace [OF one] by (auto simp: loop_result_def)
  then show ?case
    using Cons.IH [of w1] unfolding execute_all_Cons [OF one] by (cases r) (auto simp: request_budget_def)
qed (simp add: request_budget_def)

lemma clickhouse_write_budget:
  assumes "commit_records downcast c = Some rs" "cs_adapter sink (commit_group ox (sc_identity c) rs) = Inr chunks"
  shows "length (hw_sent (sw_http (snd (clickhouse_write ox x srv downcast sink c w)))) \<le>
    length (hw_sent (sw_http w)) + request_budget (cs_writer sink) chunks"
proof -
  obtain r w' where run: "clickhouse_write ox x srv downcast sink c w = (r, w')" by fastforce
  then consider "w' = w" | "write_chunks x srv sink rs chunks w = (r, w')"
    using clickhouse_write_cases [OF run] assms by auto
  then show ?thesis
  proof cases
    case 2
    then show ?thesis
      using write_chunks_http [of x srv sink rs chunks w] execute_all_budget [of x srv "cs_writer sink" chunks "sw_http w"]
      by (auto simp: run)
  qed (simp add: run)
qed

text \<open>
  C38. What one commit can cost: the retry budget of the configuration is applied twice, by the writer
  to every chunk and by the runtime to the whole write. For a live ingestor whatever the server answers
  and whenever the hard abort strikes, writing a commit sends at most
  \<open>(n + 1) * max 1 n\<close> requests per chunk of its plan, where \<open>n\<close> is \<open>retry_max_attempts\<close>;
  with the default of six that is forty-two.
\<close>

theorem commit_request_budget:
  assumes built: "ingestor_build ox x srv cfg consumer = Inr rt" and live: "\<not> rts_dry_run (ic_runtime cfg)"
    and n: "n = unat (rts_retry_max_attempts (ic_runtime cfg))"
    and plan: "commit_records Some c = Some rs"
      "cs_adapter (live_sink ox x cfg) (commit_group ox (sc_identity c) rs) = Inr chunks"
    and run: "write_with_retry (rt_sink rt) c (rt_options rt) abort w = (v, w')"
  shows "length (hw_sent (sw_http w')) \<le> length (hw_sent (sw_http w)) + Suc n * max 1 n * length chunks"
proof -
  note rt = ingestor_build_ok [OF built]
  have sink: "rt_sink rt = clickhouse_sink_ops ox x srv Some (live_sink ox x cfg)"
    using live by (simp add: rt ingestor_sink_def)
  have attempts: "effective_retry_max_attempts (rt_options rt) = rts_retry_max_attempts (ic_runtime cfg)"
    by (simp add: rt effective_retry_max_attempts_def ingestor_options_def Let_def)
  let ?f = "\<lambda>w. length (hw_sent (sw_http w))" and ?b = "request_budget (cs_writer (live_sink ox x cfg)) chunks"
  have "?f w' \<le> ?f w + Suc (unat (effective_retry_max_attempts (rt_options rt)) - unat (0 :: u32)) * ?b"
    using clickhouse_write_budget [OF plan]
    by (intro write_loop_growth [OF _ _ _ run [unfolded write_with_retry_def]])
      (simp_all add: sink clickhouse_sink_ops_def clickhouse_check_committed_def)
  moreover have "?b = max 1 n * length chunks"
    by (simp add: request_budget_def live_sink_def clickhouse_sink_new_def writer_new_def cfg_writer_config_def n
        mult.commute)
  ultimately show ?thesis by (simp add: attempts n algebra_simps)
qed

definition live_config :: "unit ingestor_config" where
  "live_config =
     (let cfg = the (deserialize minimal_document)
      in cfg\<lparr>ic_runtime := (ic_runtime cfg)\<lparr>rts_dry_run := False\<rparr>\<rparr>)"

definition stuck_server :: "nat http_server" where
  "stuck_server rq s = (Responded 503 None, s + 1)"

theorem commit_request_budget_witness:
  "\<exists>rt chunks v w'. ingestor_build example_externs example_clickhouse_externs stuck_server live_config (0 :: nat) = Inr rt \<and>
     cs_adapter (live_sink example_externs example_clickhouse_externs live_config)
       (commit_group example_externs (sc_identity example_sink_commit) (map example_record [0, 1, 2])) = Inr chunks \<and>
     write_with_retry (rt_sink rt) example_sink_commit (rt_options rt) (\<lambda>p. NoAbort) ready_world = (v, w') \<and>
     length (hw_sent (sw_http w')) \<le> 12 * length chunks"
proof -
  let ?rt = "ic_runtime live_config"
  have cfg: "\<not> rts_dry_run ?rt" "3 = unat (rts_retry_max_attempts ?rt)" "consistent_backpressure ?rt"
    by (simp_all add: live_config_def minimal_document_def deserialize_def deserialize_buffer_def
        deserialize_clickhouse_def deserialize_runtime_def deserialize_ack_def deserialize_adapter_def or_default_def
        consistent_backpressure_def default_runtime_section_def Let_def)
  then obtain rt :: "(nat, nat) ingestor_runtime" where
    rt: "ingestor_build example_externs example_clickhouse_externs stuck_server live_config 0 = Inr rt"
    using ingestor_build_iff [of example_externs example_clickhouse_externs stuck_server live_config "0 :: nat"]
    by (auto simp: is_ok_iff)
  let ?g = "commit_group example_externs (sc_identity example_sink_commit) (map example_record [0, 1, 2])"
  have "cs_adapter (live_sink example_externs example_clickhouse_externs live_config) =
      plan example_externs (logs_adapter_new example_clickhouse_externs (cfg_logs_adapter_config live_config))"
    by (simp add: live_sink_def clickhouse_sink_new_def)
  moreover have "\<forall>r\<in>set (ab_records ?g). rs_manifest_path (dl_source r) = ''m''"
    by (simp add: commit_group_def example_record_def)
  ultimately obtain chunks where chunks:
    "cs_adapter (live_sink example_externs example_clickhouse_externs live_config) ?g = Inr chunks"
    using plan_accepts by metis
  obtain v w' where run: "write_with_retry (rt_sink rt) example_sink_commit (rt_options rt) (\<lambda>p. NoAbort) ready_world = (v, w')"
    by fastforce
  have "hw_sent (sw_http ready_world) = []"
    by (simp add: ready_world_def example_sink_world_def example_world_def)
  then have "length (hw_sent (sw_http w')) \<le> 12 * length chunks"
    using commit_request_budget [OF rt cfg(1,2) example_records chunks run] by simp
  then show ?thesis using rt run chunks by blast
qed

end
